(* ===== verification/Prelude.thy ===== *)
theory Prelude
  imports Main "HOL-Library.Word"
begin

text \<open>
  Shared vocabulary of the development: the machine types of the Rust sources, the
  big-endian field readers and writers of the \<open>bytes\<close> crate's \<open>Buf\<close>/\<open>BufMut\<close> traits as
  the code uses them (\<open>get_i16\<close>, \<open>get_i32\<close>, \<open>put_i32\<close>), an interface for such fields with
  its two interpretations, reachability of a step relation with its invariant rule, and
  the fact collections that the component theories extend.
\<close>

unbundle bit_operations_syntax

section \<open>Machine types\<close>

type_synonym u8 = "8 word"
type_synonym u16 = "16 word"
type_synonym u32 = "32 word"
type_synonym u64 = "64 word"
type_synonym i16 = "16 word"
type_synonym i32 = "32 word"
type_synonym i64 = "64 word"
type_synonym bytes = "8 word list"

text \<open>Facts the component proofs share: results of the byte-field codecs, and the facts
  that say which fields an operation leaves alone.\<close>

named_theorems codec_simps
named_theorems frame_simps

section \<open>Big-endian fields\<close>

definition put_i16 :: "i16 \<Rightarrow> bytes" where
  "put_i16 w = [ucast (drop_bit 8 w), ucast w]"

definition put_i32 :: "i32 \<Rightarrow> bytes" where
  "put_i32 w = [ucast (drop_bit 24 w), ucast (drop_bit 16 w), ucast (drop_bit 8 w), ucast w]"

text \<open>Reading consumes the bytes it reads; the \<open>Buf\<close> readers panic when the buffer is too
  short, which is \<open>None\<close> here.\<close>

fun get_i16 :: "bytes \<Rightarrow> (i16 \<times> bytes) option" where
  "get_i16 (a # b # rest) = Some (push_bit 8 (ucast a) OR ucast b, rest)"
| "get_i16 _ = None"

fun get_i32 :: "bytes \<Rightarrow> (i32 \<times> bytes) option" where
  "get_i32 (a # b # c # d # rest) =
     Some (push_bit 24 (ucast a) OR push_bit 16 (ucast b) OR push_bit 8 (ucast c) OR ucast d, rest)"
| "get_i32 _ = None"

lemma bytes_of_i16: "push_bit 8 (ucast (ucast (drop_bit 8 w) :: u8)) OR ucast (ucast w :: u8) = (w :: i16)"
proof (rule bit_word_eqI)
  fix n assume "n < LENGTH(16)"
  then have n: "n < 16" by simp
  show "bit (push_bit 8 (ucast (ucast (drop_bit 8 w) :: u8)) OR ucast (ucast w :: u8) :: i16) n = bit w n"
    using n by (cases "n < 8") (auto simp: bit_simps)
qed

lemma bytes_of_i32:
  "push_bit 24 (ucast (ucast (drop_bit 24 w) :: u8)) OR push_bit 16 (ucast (ucast (drop_bit 16 w) :: u8))
     OR push_bit 8 (ucast (ucast (drop_bit 8 w) :: u8)) OR ucast (ucast w :: u8) = (w :: i32)"
proof (rule bit_word_eqI)
  fix n assume "n < LENGTH(32)"
  then have n: "n < 32" by simp
  consider "n < 8" | "8 \<le> n \<and> n < 16" | "16 \<le> n \<and> n < 24" | "24 \<le> n" by linarith
  then show "bit (push_bit 24 (ucast (ucast (drop_bit 24 w) :: u8))
      OR push_bit 16 (ucast (ucast (drop_bit 16 w) :: u8))
      OR push_bit 8 (ucast (ucast (drop_bit 8 w) :: u8)) OR ucast (ucast w :: u8) :: i32) n = bit w n"
    using n by cases (auto simp: bit_simps)
qed

lemma get_put_i16 [simp, codec_simps]: "get_i16 (put_i16 w @ rest) = Some (w, rest)"
  by (simp add: put_i16_def bytes_of_i16)

lemma get_put_i32 [simp, codec_simps]: "get_i32 (put_i32 w @ rest) = Some (w, rest)"
  by (simp add: put_i32_def bytes_of_i32)

lemma length_put_i16 [simp, codec_simps]: "length (put_i16 w) = 2"
  by (simp add: put_i16_def)

lemma length_put_i32 [simp, codec_simps]: "length (put_i32 w) = 4"
  by (simp add: put_i32_def)

text \<open>The other direction: what a reader returns, written back, is what it consumed.\<close>

lemma put_get_i16: "get_i16 bs = Some (w, rest) \<Longrightarrow> bs = put_i16 w @ rest"
proof (induction bs rule: get_i16.induct)
  case (1 a b r)
  let ?w = "push_bit 8 (ucast a) OR ucast b :: i16"
  have a: "ucast (drop_bit 8 ?w) = a"
    by (rule bit_word_eqI) (auto simp: bit_simps dest: bit_imp_le_length)
  have b: "ucast ?w = b"
    by (rule bit_word_eqI) (auto simp: bit_simps dest: bit_imp_le_length)
  from 1 have "w = ?w" and "rest = r" by simp_all
  then show ?case by (simp only: put_i16_def append.simps a b)
qed simp_all

lemma put_get_i32: "get_i32 bs = Some (w, rest) \<Longrightarrow> bs = put_i32 w @ rest"
proof (induction bs rule: get_i32.induct)
  case (1 a b c d r)
  let ?w = "push_bit 24 (ucast a) OR push_bit 16 (ucast b) OR push_bit 8 (ucast c) OR ucast d :: i32"
  have a: "ucast (drop_bit 24 ?w) = a"
    by (rule bit_word_eqI) (auto simp: bit_simps dest: bit_imp_le_length)
  have b: "ucast (drop_bit 16 ?w) = b"
    by (rule bit_word_eqI) (auto simp: bit_simps dest: bit_imp_le_length)
  have c: "ucast (drop_bit 8 ?w) = c"
    by (rule bit_word_eqI) (auto simp: bit_simps dest: bit_imp_le_length)
  have d: "ucast ?w = d"
    by (rule bit_word_eqI) (auto simp: bit_simps dest: bit_imp_le_length)
  from 1 have "w = ?w" and "rest = r" by simp_all
  then show ?case by (simp only: put_i32_def append.simps a b c d)
qed simp_all

lemma get_i16_None_iff: "get_i16 bs = None \<longleftrightarrow> length bs < 2"
  by (induction bs rule: get_i16.induct) auto

lemma get_i32_None_iff: "get_i32 bs = None \<longleftrightarrow> length bs < 4"
  by (induction bs rule: get_i32.induct) auto

section \<open>The interface of a fixed-width field\<close>

text \<open>A field writer and its reader: the reader undoes the writer, accepts only what the
  writer produces, and the field has a fixed width. The lemmas hold for every such field.\<close>

locale wire_field =
  fixes put :: "'w \<Rightarrow> bytes"
    and get :: "bytes \<Rightarrow> ('w \<times> bytes) option"
    and width :: nat
  assumes get_put: "get (put w @ rest) = Some (w, rest)"
    and put_get: "get bs = Some (w, rest) \<Longrightarrow> bs = put w @ rest"
    and width_put: "length (put w) = width"
    and get_short: "length bs < width \<Longrightarrow> get bs = None"
begin

lemma get_eq_iff: "get bs = Some (w, rest) \<longleftrightarrow> bs = put w @ rest"
  using get_put put_get by metis

lemma put_inject: "put w = put w' \<longleftrightarrow> w = w'"
  using get_put by (metis append_Nil2 option.inject prod.inject)

lemma get_consumes: "get bs = Some (w, rest) \<Longrightarrow> rest = drop width bs \<and> take width bs = put w"
  using put_get width_put by force

lemma get_take_drop: "get bs = Some (w, rest) \<Longrightarrow> length bs = width + length rest"
  using put_get width_put by force

end

interpretation f16: wire_field put_i16 get_i16 2
  by unfold_locales (auto simp: get_i16_None_iff dest: put_get_i16)

interpretation f32: wire_field put_i32 get_i32 4
  by unfold_locales (auto simp: get_i32_None_iff dest: put_get_i32)

lemma get_i32_exists: "4 \<le> length bs \<Longrightarrow> \<exists>w. get_i32 bs = Some (w, drop 4 bs)"
  using get_i32_None_iff[of bs] f32.get_consumes by (cases "get_i32 bs") fastforce+

lemma get_i16_exists: "2 \<le> length bs \<Longrightarrow> \<exists>w. get_i16 bs = Some (w, drop 2 bs)"
  using get_i16_None_iff[of bs] f16.get_consumes by (cases "get_i16 bs") fastforce+

section \<open>Reachable states of a step relation\<close>

inductive reach :: "('s \<Rightarrow> bool) \<Rightarrow> ('s \<Rightarrow> 's \<Rightarrow> bool) \<Rightarrow> 's \<Rightarrow> bool"
  for init :: "'s \<Rightarrow> bool" and step :: "'s \<Rightarrow> 's \<Rightarrow> bool" where
  reach_init: "init s \<Longrightarrow> reach init step s"
| reach_step: "reach init step s \<Longrightarrow> step s t \<Longrightarrow> reach init step t"

text \<open>An interleaved component promises an invariant: it holds initially and every step
  keeps it. The lemmas of the locale lift the promise to reachable states and to runs.\<close>

locale invariant_system =
  fixes init :: "'s \<Rightarrow> bool"
    and step :: "'s \<Rightarrow> 's \<Rightarrow> bool"
    and inv :: "'s \<Rightarrow> bool"
  assumes inv_init: "init s \<Longrightarrow> inv s"
    and inv_step: "inv s \<Longrightarrow> step s t \<Longrightarrow> inv t"
begin

lemma reach_inv: "reach init step s \<Longrightarrow> inv s"
  by (induction rule: reach.induct) (auto intro: inv_init inv_step)

lemma rtrancl_inv: "step\<^sup>*\<^sup>* s t \<Longrightarrow> inv s \<Longrightarrow> inv t"
  by (induction rule: rtranclp_induct) (auto intro: inv_step)

end

text \<open>Check-then-act admission: tasks \<open>0..<n\<close> each read a level, and if it is below the limit
  raise it by one in a later step. Whoever is between the two has been admitted on an old
  reading, so the limit holds only up to the number of tasks in between.\<close>

locale admission =
  fixes init :: "'s \<Rightarrow> bool"
    and step :: "'s \<Rightarrow> 's \<Rightarrow> bool"
    and level :: "'s \<Rightarrow> nat"
    and pending :: "'s \<Rightarrow> nat set"
    and limit :: nat
    and tasks :: nat
  assumes start_empty: "init s \<Longrightarrow> level s = 0 \<and> pending s = {}"
    and step_kinds: "reach init step s \<Longrightarrow> step s t \<Longrightarrow>
      (\<exists>i < tasks. i \<notin> pending s \<and> level s < limit \<and> level t = level s \<and> pending t = insert i (pending s)) \<or>
      (\<exists>i \<in> pending s. level t \<le> Suc (level s) \<and> pending t = pending s - {i}) \<or>
      (level t \<le> level s \<and> pending t \<subseteq> pending s)"
begin

definition within :: "'s \<Rightarrow> bool" where
  "within s \<longleftrightarrow> reach init step s \<and> pending s \<subseteq> {..<tasks} \<and> level s + card (pending s) \<le> (limit - 1) + tasks
     \<and> (limit = 0 \<longrightarrow> level s = 0 \<and> pending s = {})"

lemma within_init: "init s \<Longrightarrow> within s"
  using start_empty by (simp add: within_def reach_init)

lemma within_step:
  assumes w: "within s" and st: "step s t"
  shows "within t"
proof -
  have fin: "finite (pending s)" using w by (auto simp: within_def intro: finite_subset)
  have r: "reach init step s" using w by (simp add: within_def)
  note rt = reach_step[OF r st]
  from step_kinds[OF r st] show ?thesis
  proof (elim disjE exE conjE bexE)
    fix i assume i: "i < tasks" "level s < limit" and t: "level t = level s" "pending t = insert i (pending s)"
    then have sub: "insert i (pending s) \<subseteq> {..<tasks}" using w by (simp add: within_def)
    then have "card (insert i (pending s)) \<le> tasks" using card_mono[OF _ sub] by simp
    then show ?thesis using i t sub rt by (simp add: within_def)
  next
    fix i assume i: "i \<in> pending s" and t: "level t \<le> Suc (level s)" "pending t = pending s - {i}"
    have "Suc (card (pending t)) = card (pending s)" using card_Suc_Diff1[OF fin i] t by simp
    then show ?thesis using w i t rt by (auto simp: within_def)
  next
    assume t: "level t \<le> level s" "pending t \<subseteq> pending s"
    then have "card (pending t) \<le> card (pending s)" using fin by (simp add: card_mono)
    then show ?thesis using w t rt by (auto simp: within_def)
  qed
qed

end

sublocale admission \<subseteq> adm: invariant_system init step within
  by unfold_locales (auto intro: within_init within_step)

context admission
begin

lemma level_bound: "reach init step s \<Longrightarrow> level s \<le> (if limit = 0 then 0 else (limit - 1) + tasks)"
  using adm.reach_inv[of s] unfolding within_def by (cases "limit = 0") auto

lemma level_exact: "tasks = Suc 0 \<Longrightarrow> reach init step s \<Longrightarrow> level s \<le> limit"
  using adm.reach_inv[of s, unfolded within_def] by (cases "limit = 0") simp_all

end

text \<open>A task that turns the items its events carry into outputs, one for one and in order, until it
  stops: what it has put out corresponds to a prefix of what it was given, to all of it as long
  as it runs.\<close>

locale fifo_task =
  fixes step :: "'e \<Rightarrow> 's \<Rightarrow> 's"
    and outs :: "'s \<Rightarrow> 'o list"
    and running :: "'s \<Rightarrow> bool"
    and given :: "'e \<Rightarrow> 'i list"
    and rel :: "'i \<Rightarrow> 'o \<Rightarrow> bool"
  assumes stopped: "\<not> running s \<Longrightarrow> outs (step e s) = outs s \<and> \<not> running (step e s)"
    and handles: "running s \<Longrightarrow> \<exists>xs ys os. given e = xs @ ys \<and> outs (step e s) = outs s @ os \<and>
      list_all2 rel xs os \<and> (running (step e s) \<longrightarrow> ys = [])"
begin

lemma stays_stopped: "\<not> running s \<Longrightarrow> outs (fold step es s) = outs s \<and> \<not> running (fold step es s)"
  by (induction es arbitrary: s) (auto simp: stopped)

lemma in_order:
  "running s \<Longrightarrow> \<exists>xs ys os. concat (map given es) = xs @ ys \<and> outs (fold step es s) = outs s @ os \<and>
      list_all2 rel xs os \<and> (running (fold step es s) \<longrightarrow> ys = [])"
proof (induction es arbitrary: s)
  case (Cons e es)
  obtain xs ys os where e: "given e = xs @ ys" "outs (step e s) = outs s @ os" "list_all2 rel xs os"
    "running (step e s) \<longrightarrow> ys = []" using handles[OF Cons.prems] by blast
  show ?case
  proof (cases "running (step e s)")
    case True
    then obtain xs' ys' os' where r: "concat (map given es) = xs' @ ys'"
      "outs (fold step es (step e s)) = outs (step e s) @ os'" "list_all2 rel xs' os'"
      "running (fold step es (step e s)) \<longrightarrow> ys' = []" using Cons.IH by blast
    then show ?thesis using e True
      by (intro exI[of _ "xs @ xs'"] exI[of _ ys'] exI[of _ "os @ os'"]) (auto intro: list_all2_appendI)
  next
    case False
    then show ?thesis using e stays_stopped[OF False, of es]
      by (intro exI[of _ xs] exI[of _ "ys @ concat (map given es)"] exI[of _ os]) simp
  qed
qed auto

end

section \<open>Errors as values\<close>

text \<open>Rust's \<open>?\<close> operator: continue with the value, return the error.\<close>

definition bindE :: "'e + 'a \<Rightarrow> ('a \<Rightarrow> 'e + 'b) \<Rightarrow> 'e + 'b" where
  "bindE r f = (case r of Inl e \<Rightarrow> Inl e | Inr x \<Rightarrow> f x)"

definition map_err :: "('e \<Rightarrow> 'f) \<Rightarrow> 'e + 'a \<Rightarrow> 'f + 'a" where
  "map_err f r = (case r of Inl e \<Rightarrow> Inl (f e) | Inr x \<Rightarrow> Inr x)"

definition ok_or :: "'e \<Rightarrow> 'a option \<Rightarrow> 'e + 'a" where
  "ok_or e x = (case x of None \<Rightarrow> Inl e | Some v \<Rightarrow> Inr v)"

lemma bindE_simps [simp]: "bindE (Inl e) f = Inl e" "bindE (Inr x) f = f x"
  by (simp_all add: bindE_def)

lemma map_err_simps [simp]: "map_err f (Inl e) = Inl (f e)" "map_err f (Inr x) = Inr x"
  by (simp_all add: map_err_def)

lemma ok_or_simps [simp]: "ok_or e None = Inl e" "ok_or e (Some x) = Inr x"
  by (simp_all add: ok_or_def)

lemma bindE_eq_Inr: "bindE r f = Inr y \<longleftrightarrow> (\<exists>x. r = Inr x \<and> f x = Inr y)"
  by (cases r) auto

lemma bindE_eq_Inl: "bindE r f = Inl e \<longleftrightarrow> r = Inl e \<or> (\<exists>x. r = Inr x \<and> f x = Inl e)"
  by (cases r) auto

lemma map_err_eq_Inr [simp]: "map_err f r = Inr y \<longleftrightarrow> r = Inr y"
  by (cases r) auto

lemma ok_or_eq_Inr [simp]: "ok_or e x = Inr y \<longleftrightarrow> x = Some y"
  by (cases x) auto

lemma ok_or_eq_Inl [simp]: "ok_or e x = Inl d \<longleftrightarrow> x = None \<and> d = e"
  by (cases x) auto

section \<open>Lists\<close>

lemma filter_filter_comm: "filter P (filter Q xs) = filter Q (filter P xs)"
  by (simp add: conj_commute)

end
