(* ===== verification/DashMap.thy ===== *)
theory DashMap
  imports Prelude
begin

text \<open>
  The concurrent dictionary the sources share between tasks (\<open>DashMap\<close>), as an association
  list with distinct keys: every call is one atomic step on the whole map. The locale
  \<open>dictionary\<close> is the contract the components rely on; its lemmas count entries.
\<close>

type_synonym ('k, 'v) dashmap = "('k \<times> 'v) list"

definition dm_new :: "('k, 'v) dashmap" where "dm_new = []"

definition dm_get :: "('k, 'v) dashmap \<Rightarrow> 'k \<Rightarrow> 'v option" where
  "dm_get m = map_of m"

definition dm_remove :: "'k \<Rightarrow> ('k, 'v) dashmap \<Rightarrow> ('k, 'v) dashmap" where
  "dm_remove k m = filter (\<lambda>(k', v). k' \<noteq> k) m"

definition dm_insert :: "'k \<Rightarrow> 'v \<Rightarrow> ('k, 'v) dashmap \<Rightarrow> ('k, 'v) dashmap" where
  "dm_insert k v m = (k, v) # dm_remove k m"

definition dm_retain :: "('k \<Rightarrow> 'v \<Rightarrow> bool) \<Rightarrow> ('k, 'v) dashmap \<Rightarrow> ('k, 'v) dashmap" where
  "dm_retain P m = filter (\<lambda>(k, v). P k v) m"

definition dm_len :: "('k, 'v) dashmap \<Rightarrow> nat" where "dm_len m = length m"

definition dm_keys :: "('k, 'v) dashmap \<Rightarrow> 'k set" where "dm_keys m = fst ` set m"

definition dm_inv :: "('k, 'v) dashmap \<Rightarrow> bool" where "dm_inv m \<longleftrightarrow> distinct (map fst m)"

section \<open>The contract\<close>

locale dictionary =
  fixes new :: "'m"
    and get :: "'m \<Rightarrow> 'k \<Rightarrow> 'v option"
    and ins :: "'k \<Rightarrow> 'v \<Rightarrow> 'm \<Rightarrow> 'm"
    and rem :: "'k \<Rightarrow> 'm \<Rightarrow> 'm"
    and ret :: "('k \<Rightarrow> 'v \<Rightarrow> bool) \<Rightarrow> 'm \<Rightarrow> 'm"
    and len :: "'m \<Rightarrow> nat"
    and inv :: "'m \<Rightarrow> bool"
  assumes inv_new: "inv new" and get_new: "get new k = None"
    and inv_ins: "inv m \<Longrightarrow> inv (ins k v m)"
    and get_ins: "inv m \<Longrightarrow> get (ins k v m) = (get m)(k \<mapsto> v)"
    and inv_rem: "inv m \<Longrightarrow> inv (rem k m)"
    and get_rem: "inv m \<Longrightarrow> get (rem k m) = (get m)(k := None)"
    and inv_ret: "inv m \<Longrightarrow> inv (ret P m)"
    and get_ret: "inv m \<Longrightarrow> get (ret P m) k = (case get m k of Some v \<Rightarrow> if P k v then Some v else None | None \<Rightarrow> None)"
    and finite_dom: "finite (dom (get m))"
    and len_card: "inv m \<Longrightarrow> len m = card (dom (get m))"
begin

lemma len_new: "len new = 0"
  using len_card[OF inv_new] by (simp add: get_new dom_def)

lemma len_ins_fresh: "inv m \<Longrightarrow> get m k = None \<Longrightarrow> len (ins k v m) = Suc (len m)"
  by (auto simp: len_card inv_ins get_ins finite_dom dom_def[symmetric] card_insert_if)

lemma len_ins_old: "inv m \<Longrightarrow> get m k = Some w \<Longrightarrow> len (ins k v m) = len m"
  by (auto simp: len_card inv_ins get_ins finite_dom insert_absorb domI)

lemma len_ins_le: "inv m \<Longrightarrow> len (ins k v m) \<le> Suc (len m)"
  by (cases "get m k") (simp_all add: len_ins_fresh len_ins_old)

lemma len_rem: "inv m \<Longrightarrow> len (rem k m) = (case get m k of Some v \<Rightarrow> len m - 1 | None \<Rightarrow> len m)"
  by (cases "get m k") (auto simp: len_card inv_rem get_rem finite_dom domI card_Diff_singleton domIff)

lemma len_rem_Some: "inv m \<Longrightarrow> get m k = Some v \<Longrightarrow> Suc (len (rem k m)) = len m"
  using card_Suc_Diff1[OF finite_dom, of k m] by (auto simp: len_card inv_rem get_rem domI)

lemma dom_ret: "inv m \<Longrightarrow> dom (get (ret P m)) = {k. \<exists>v. get m k = Some v \<and> P k v}"
  by (auto simp: get_ret dom_def split: option.splits if_splits)

lemma len_ret_le: "inv m \<Longrightarrow> len (ret P m) \<le> len m"
  by (auto simp: len_card inv_ret dom_ret finite_dom intro!: card_mono)

lemma rem_ins_fresh: "inv m \<Longrightarrow> get m k = None \<Longrightarrow> get (rem k (ins k v m)) = get m"
  by (auto simp: get_rem inv_ins get_ins fun_upd_idem)

end

lemma dm_get_remove: "dm_get (dm_remove k m) = (dm_get m)(k := None)"
  by (induction m) (auto simp: dm_get_def dm_remove_def fun_eq_iff)

lemma dm_keys_dom: "dom (dm_get m) = dm_keys m"
  by (simp add: dm_get_def dm_keys_def dom_map_of_conv_image_fst)

lemma distinct_keys_filter: "distinct (map fst m) \<Longrightarrow> distinct (map fst (filter P m))"
  by (induction m) auto

lemma map_of_retain:
  "distinct (map fst m) \<Longrightarrow>
    map_of (filter (\<lambda>(k, v). P k v) m) k =
      (case map_of m k of Some v \<Rightarrow> if P k v then Some v else None | None \<Rightarrow> None)"
proof (induction m)
  case (Cons e m)
  obtain k' v' where e: "e = (k', v')" by (cases e)
  have "map_of (filter (\<lambda>(k, v). P k v) m) k' = None" if "k' \<notin> fst ` set m"
    using that by (force simp: map_of_eq_None_iff)
  then show ?case using Cons by (auto simp: e split: option.splits)
qed simp

interpretation dm: dictionary dm_new dm_get dm_insert dm_remove dm_retain dm_len dm_inv
proof
  fix m :: "('k, 'v) dashmap" and k v P
  show "dm_inv (dm_new :: ('k, 'v) dashmap)" and "dm_get (dm_new :: ('k, 'v) dashmap) k = None"
    by (simp_all add: dm_inv_def dm_get_def dm_new_def)
  show "finite (dom (dm_get m))" by (simp add: dm_get_def finite_dom_map_of)
  assume inv: "dm_inv m"
  show "dm_inv (dm_insert k v m)" using inv
    by (auto simp: dm_inv_def dm_insert_def dm_remove_def distinct_keys_filter)
  show "dm_get (dm_insert k v m) = (dm_get m)(k \<mapsto> v)"
    using dm_get_remove[of k m] by (auto simp: dm_insert_def dm_get_def fun_eq_iff)
  show "dm_inv (dm_remove k m)" using inv by (simp add: dm_inv_def dm_remove_def distinct_keys_filter)
  show "dm_get (dm_remove k m) = (dm_get m)(k := None)" by (rule dm_get_remove)
  show "dm_inv (dm_retain P m)" using inv by (simp add: dm_inv_def dm_retain_def distinct_keys_filter)
  show "dm_get (dm_retain P m) k =
      (case dm_get m k of Some v \<Rightarrow> if P k v then Some v else None | None \<Rightarrow> None)"
    using inv by (simp add: dm_get_def dm_retain_def dm_inv_def map_of_retain)
  show "dm_len m = card (dom (dm_get m))" 
    using inv distinct_card[of "map fst m"]
    by (simp add: dm_keys_dom dm_keys_def dm_len_def dm_inv_def)
qed

end
