(* ===== verification/RustStr.thy ===== *)
theory RustStr
  imports Prelude "HOL-Library.Char_ord"
begin

text \<open>
  The operations of Rust's \<open>str\<close> and integer parsing that the sources call: \<open>split(',')\<close>,
  \<open>trim\<close>, \<open>rsplit_once(':')\<close>, \<open>strip_suffix\<close>, \<open>starts_with\<close>, \<open>parse::<u16>\<close> /
  \<open>parse::<u64>\<close>, and the decimal \<open>Display\<close> of integers. A string is the list of its
  characters; characters are code points below 256, which is enough for configuration
  text (hosts, ports, durations).
\<close>

section \<open>Splitting and trimming\<close>

fun split_char :: "char \<Rightarrow> string \<Rightarrow> string list" where
  "split_char c [] = [[]]"
| "split_char c (x # xs) =
     (if x = c then [] # split_char c xs
      else (case split_char c xs of [] \<Rightarrow> [[x]] | y # ys \<Rightarrow> (x # y) # ys))"

fun rsplit_once :: "char \<Rightarrow> string \<Rightarrow> (string \<times> string) option" where
  "rsplit_once c [] = None"
| "rsplit_once c (x # xs) =
     (case rsplit_once c xs of
        Some (h, t) \<Rightarrow> Some (x # h, t)
      | None \<Rightarrow> if x = c then Some ([], xs) else None)"

definition is_whitespace :: "char \<Rightarrow> bool" where
  "is_whitespace c \<longleftrightarrow> (let n = of_char c :: nat in (9 \<le> n \<and> n \<le> 13) \<or> n = 32 \<or> n = 133 \<or> n = 160)"

definition trim :: "string \<Rightarrow> string" where
  "trim s = rev (dropWhile is_whitespace (rev (dropWhile is_whitespace s)))"

definition strip_suffix :: "string \<Rightarrow> string \<Rightarrow> string option" where
  "strip_suffix suf s =
     (if length suf \<le> length s \<and> drop (length s - length suf) s = suf
      then Some (take (length s - length suf) s) else None)"

definition starts_with :: "string \<Rightarrow> string \<Rightarrow> bool" where
  "starts_with pre s \<longleftrightarrow> take (length pre) s = pre"

text \<open>\<open>split_whitespace\<close>: the maximal runs of characters that are not whitespace.\<close>

function split_whitespace :: "string \<Rightarrow> string list" where
  "split_whitespace s =
     (case dropWhile is_whitespace s of
        [] \<Rightarrow> []
      | c # cs \<Rightarrow> (c # takeWhile (\<lambda>x. \<not> is_whitespace x) cs)
                  # split_whitespace (dropWhile (\<lambda>x. \<not> is_whitespace x) cs))"
  by pat_completeness auto
termination
proof (relation "measure length")
  fix s c cs assume "dropWhile is_whitespace s = c # cs"
  then have "length (c # cs) \<le> length s" by (metis length_dropWhile_le)
  then show "(dropWhile (\<lambda>x. \<not> is_whitespace x) cs, s) \<in> measure length"
    using length_dropWhile_le[of "\<lambda>x. \<not> is_whitespace x" cs] by simp
qed simp

declare split_whitespace.simps [simp del]

lemma split_char_not_Nil [simp]: "split_char c s \<noteq> []"
  by (induction s) (auto split: list.splits)

lemma length_split_char: "length (split_char c s) = Suc (count_list s c)"
proof (induction s)
  case (Cons x xs)
  then show ?case by (cases "split_char c xs") auto
qed simp

lemma split_char_no_sep: "c \<notin> set s \<Longrightarrow> split_char c s = [s]"
  by (induction s) auto

lemma split_char_append: "c \<notin> set a \<Longrightarrow> split_char c (a @ c # b) = a # split_char c b"
  by (induction a) auto

lemma split_char_parts_no_sep: "p \<in> set (split_char c s) \<Longrightarrow> c \<notin> set p"
proof (induction s arbitrary: p)
  case (Cons x xs)
  then show ?case by (cases "split_char c xs") (auto split: if_splits)
qed simp

lemma rsplit_once_None_iff: "rsplit_once c s = None \<longleftrightarrow> c \<notin> set s"
  by (induction s) (auto split: option.splits if_splits)

lemma rsplit_once_append: "c \<notin> set t \<Longrightarrow> rsplit_once c (h @ c # t) = Some (h, t)"
  using rsplit_once_None_iff[of c t] by (induction h) (auto split: option.splits)

lemma rsplit_once_Some: "rsplit_once c s = Some (h, t) \<longleftrightarrow> s = h @ c # t \<and> c \<notin> set t"
proof
  show "rsplit_once c s = Some (h, t) \<Longrightarrow> s = h @ c # t \<and> c \<notin> set t"
    by (induction s arbitrary: h) (auto simp: rsplit_once_None_iff split: option.splits if_splits)
qed (auto simp: rsplit_once_append)

lemma set_trim: "set (trim s) \<subseteq> set s"
  unfolding trim_def by (metis set_dropWhileD set_rev subsetI)

lemma trim_id: "s \<noteq> [] \<Longrightarrow> \<not> is_whitespace (hd s) \<Longrightarrow> \<not> is_whitespace (last s) \<Longrightarrow> trim s = s"
proof -
  assume s: "s \<noteq> []" and h: "\<not> is_whitespace (hd s)" and l: "\<not> is_whitespace (last s)"
  have "dropWhile is_whitespace s = s" using s h by (cases s) auto
  moreover have "dropWhile is_whitespace (rev s) = rev s" using s l by (cases s rule: rev_cases) auto
  ultimately show ?thesis by (simp add: trim_def)
qed

lemma trim_all_ok: "\<forall>c \<in> set s. \<not> is_whitespace c \<Longrightarrow> trim s = s"
proof (cases "s = []")
  case True
  then show ?thesis by (simp add: trim_def)
next
  case False
  assume "\<forall>c \<in> set s. \<not> is_whitespace c"
  then show ?thesis using False by (intro trim_id) auto
qed

lemma strip_suffix_append [simp]: "strip_suffix suf (s @ suf) = Some s"
  by (simp add: strip_suffix_def)

lemma strip_suffix_Some: "strip_suffix suf s = Some r \<longleftrightarrow> s = r @ suf"
  by (auto simp: strip_suffix_def split: if_splits intro: append_take_drop_id[symmetric]
      simp del: append_take_drop_id) (metis append_take_drop_id)

lemma strip_suffix_None: "strip_suffix suf s = None \<longleftrightarrow> (\<forall>r. s \<noteq> r @ suf)"
  using strip_suffix_Some by (metis not_None_eq)

lemma strip_suffix_last: "suf \<noteq> [] \<Longrightarrow> s \<noteq> [] \<Longrightarrow> last s \<noteq> last suf \<Longrightarrow> strip_suffix suf s = None"
  by (auto simp: strip_suffix_None)

section \<open>Unsigned integers as decimal text\<close>

definition digit_val :: "char \<Rightarrow> nat option" where
  "digit_val c = (let n = of_char c :: nat in if 48 \<le> n \<and> n \<le> 57 then Some (n - 48) else None)"

definition digit_char :: "nat \<Rightarrow> char" where
  "digit_char d = char_of (48 + d)"

text \<open>\<open>from_str_radix\<close> with radix 10 multiplies and adds with overflow checks; the value read
  so far is \<open>acc\<close>, the largest value of the type \<open>mx\<close>.\<close>

fun parse_digits :: "nat \<Rightarrow> nat \<Rightarrow> string \<Rightarrow> nat option" where
  "parse_digits mx acc [] = Some acc"
| "parse_digits mx acc (c # cs) =
     (case digit_val c of
        None \<Rightarrow> None
      | Some d \<Rightarrow> if acc * 10 + d \<le> mx then parse_digits mx (acc * 10 + d) cs else None)"

definition parse_uint :: "nat \<Rightarrow> string \<Rightarrow> nat option" where
  "parse_uint mx s =
     (case s of
        [] \<Rightarrow> None
      | c # cs \<Rightarrow> if c = CHR ''+'' then (if cs = [] then None else parse_digits mx 0 cs)
                  else parse_digits mx 0 (c # cs))"

definition u16_max :: nat where "u16_max = 65535"
definition u64_max :: nat where "u64_max = 18446744073709551615"

definition parse_u16 :: "string \<Rightarrow> nat option" where "parse_u16 = parse_uint u16_max"
definition parse_u64 :: "string \<Rightarrow> nat option" where "parse_u64 = parse_uint u64_max"

fun show_nat :: "nat \<Rightarrow> string" where
  "show_nat n = (if n < 10 then [digit_char n] else show_nat (n div 10) @ [digit_char (n mod 10)])"

declare show_nat.simps [simp del]

definition show_int :: "int \<Rightarrow> string" where
  "show_int i = (if i < 0 then CHR ''-'' # show_nat (nat (- i)) else show_nat (nat i))"

lemma digit_val_char: "d < 10 \<Longrightarrow> digit_val (digit_char d) = Some d"
  by (simp add: digit_val_def digit_char_def Let_def)

lemma digit_char_digit: "d < 10 \<Longrightarrow> digit_val (digit_char d) \<noteq> None"
  by (simp add: digit_val_char)

lemma parse_digits_append:
  "parse_digits mx a (xs @ ys) = Option.bind (parse_digits mx a xs) (\<lambda>b. parse_digits mx b ys)"
  by (induction mx a xs rule: parse_digits.induct) (auto split: option.splits)

lemma parse_digits_le: "parse_digits mx a s = Some n \<Longrightarrow> a \<le> mx \<Longrightarrow> n \<le> mx"
  by (induction mx a s rule: parse_digits.induct) (auto split: option.splits if_splits)

lemma parse_digits_digits:
  "parse_digits mx a s = Some n \<Longrightarrow> c \<in> set s \<Longrightarrow> digit_val c \<noteq> None"
  by (induction mx a s rule: parse_digits.induct) (auto split: option.splits if_splits)

lemma show_nat_digits: "c \<in> set (show_nat n) \<Longrightarrow> digit_val c \<noteq> None"
proof (induction n rule: show_nat.induct)
  case (1 n)
  then show ?case
    by (subst (asm) (2) show_nat.simps) (auto simp: digit_val_char split: if_splits)
qed

lemma show_nat_not_Nil [simp]: "show_nat n \<noteq> []"
  by (subst show_nat.simps) simp

lemma parse_digits_show: "n \<le> mx \<Longrightarrow> parse_digits mx 0 (show_nat n) = Some n"
proof (induction n rule: show_nat.induct)
  case (1 n)
  show ?case
  proof (cases "n < 10")
    case True
    then show ?thesis using 1 by (subst show_nat.simps) (simp add: digit_val_char)
  next
    case False
    with 1 have "parse_digits mx 0 (show_nat (n div 10)) = Some (n div 10)" by simp
    moreover have "n div 10 * 10 + n mod 10 = n" by simp
    ultimately show ?thesis using False 1(2)
      by (subst show_nat.simps) (simp add: parse_digits_append digit_val_char)
  qed
qed

lemma digit_val_plus [simp]: "digit_val (CHR ''+'') = None"
  and digit_val_colon [simp]: "digit_val (CHR '':'') = None"
  and digit_val_comma [simp]: "digit_val (CHR '','') = None"
  by (simp_all add: digit_val_def)

lemma parse_uint_show: "n \<le> mx \<Longrightarrow> parse_uint mx (show_nat n) = Some n"
proof -
  assume n: "n \<le> mx"
  obtain c cs where s: "show_nat n = c # cs" by (cases "show_nat n") auto
  then have "c \<noteq> CHR ''+''" using show_nat_digits[of c n] by auto
  then show ?thesis using parse_digits_show[OF n] by (simp add: parse_uint_def s)
qed

lemma parse_uint_le: "parse_uint mx s = Some n \<Longrightarrow> n \<le> mx"
  by (auto simp: parse_uint_def dest: parse_digits_le split: list.splits if_splits option.splits)

lemma parse_uint_chars:
  "parse_uint mx s = Some n \<Longrightarrow> c \<in> set s \<Longrightarrow> digit_val c \<noteq> None \<or> c = CHR ''+''"
  unfolding parse_uint_def using parse_digits_digits
  by (cases s) (auto simp del: parse_digits.simps split: if_splits)

section \<open>The interface of a printed number\<close>

text \<open>A number type with a printer and a parser: what is printed parses back, the parser only
  accepts values of the type, and neither side uses the separators \<open>':'\<close> and \<open>','\<close>.\<close>

locale decimal_text =
  fixes shown :: "nat \<Rightarrow> string"
    and parsed :: "string \<Rightarrow> nat option"
    and bound :: nat
  assumes parsed_shown: "n \<le> bound \<Longrightarrow> parsed (shown n) = Some n"
    and parsed_bound: "parsed s = Some n \<Longrightarrow> n \<le> bound"
    and shown_chars: "c \<in> set (shown n) \<Longrightarrow> digit_val c \<noteq> None"
    and parsed_chars: "parsed s = Some n \<Longrightarrow> c \<in> set s \<Longrightarrow> digit_val c \<noteq> None \<or> c = CHR ''+''"
    and parsed_Nil: "parsed [] = None"
begin

lemma host_port_split: "rsplit_once (CHR '':'') (h @ CHR '':'' # shown n) = Some (h, shown n)"
  using shown_chars by (intro rsplit_once_append) force

lemma shown_no_comma: "CHR '','' \<notin> set (shown n)"
  using shown_chars by force

lemma shown_inject: "n \<le> bound \<Longrightarrow> m \<le> bound \<Longrightarrow> shown n = shown m \<longleftrightarrow> n = m"
  using parsed_shown by (metis option.inject)

end

lemma parse_uint_Nil [simp]: "parse_uint mx [] = None"
  by (simp add: parse_uint_def)

interpretation dec16: decimal_text show_nat parse_u16 u16_max
  by unfold_locales (use show_nat_digits parse_uint_chars in
    \<open>auto simp: parse_u16_def intro: parse_uint_show dest: parse_uint_le\<close>)

interpretation dec64: decimal_text show_nat parse_u64 u64_max
  by unfold_locales (use show_nat_digits parse_uint_chars in
    \<open>auto simp: parse_u64_def intro: parse_uint_show dest: parse_uint_le\<close>)

lemma digit_not_whitespace: "digit_val c \<noteq> None \<Longrightarrow> \<not> is_whitespace c"
  by (auto simp: digit_val_def is_whitespace_def Let_def split: if_splits)

lemma trim_show_nat_append:
  "\<not> is_whitespace (last s) \<Longrightarrow> s \<noteq> [] \<Longrightarrow> trim (show_nat n @ s) = show_nat n @ s"
  using digit_not_whitespace[OF show_nat_digits[OF hd_in_set[OF show_nat_not_Nil]]]
  by (intro trim_id) (auto simp: hd_append)

end
