(* ===== verification/Metrics.thy ===== *)
theory Metrics
  imports RustStr Complex_Main
begin

text \<open>
  The metrics set of \<open>src/src/metrics.rs\<close>: the histogram with its binary search, the
  counters and gauges behind the \<open>enabled\<close> switch, the Prometheus text and the RSS reader.
  Counters are \<open>AtomicU64\<close>/\<open>AtomicI64\<close> values: words of 64 bits whose \<open>fetch_add\<close> and
  \<open>fetch_sub\<close> wrap around; a gauge is read with \<open>sint\<close>. Seconds (\<open>f64\<close>) are exact
  rationals; the decimal text of a non-integral \<open>f64\<close> is the parameter \<open>fmt\<close>.
\<close>

section \<open>Histogram\<close>

record histogram =
  buckets :: "rat list"
  hist_counts :: "u64 list"
  sum_micros :: u64
  hist_count :: u64

definition DEFAULT_BUCKETS :: "rat list" where
  "DEFAULT_BUCKETS = [1/10000, 5/10000, 1/1000, 5/1000, 1/100, 5/100, 1/10, 5/10, 1, 5]"

definition with_buckets :: "rat list \<Rightarrow> histogram" where
  "with_buckets bs =
     \<lparr>buckets = bs, hist_counts = map (\<lambda>_. 0) [0..<length bs + 1], sum_micros = 0, hist_count = 0\<rparr>"

definition histogram_new :: histogram where
  "histogram_new = with_buckets DEFAULT_BUCKETS"

text \<open>\<open>slice::binary_search_by\<close>: \<open>Inr i\<close> is Rust's \<open>Ok(i)\<close> (an equal element at \<open>i\<close>),
  \<open>Inl i\<close> is \<open>Err(i)\<close> (the insertion point).\<close>

datatype ordering = Less | Equal | Greater

definition partial_cmp :: "rat \<Rightarrow> rat \<Rightarrow> ordering" where
  "partial_cmp a b = (if a < b then Less else if a = b then Equal else Greater)"

function binary_search_by :: "('a \<Rightarrow> ordering) \<Rightarrow> 'a list \<Rightarrow> nat \<Rightarrow> nat \<Rightarrow> nat + nat" where
  "binary_search_by f xs lo hi =
     (if lo < hi then
        (let mid = lo + (hi - lo) div 2 in
         case f (xs ! mid) of
           Equal \<Rightarrow> Inr mid
         | Less \<Rightarrow> binary_search_by f xs (mid + 1) hi
         | Greater \<Rightarrow> binary_search_by f xs lo mid)
      else Inl lo)"
  by pat_completeness auto
termination
  by (relation "measure (\<lambda>(f, xs, lo, hi). hi - lo)") auto

declare binary_search_by.simps [simp del]

definition bucket_index :: "rat list \<Rightarrow> rat \<Rightarrow> nat" where
  "bucket_index bs secs =
     (case binary_search_by (\<lambda>b. partial_cmp b secs) bs 0 (length bs) of Inr i \<Rightarrow> i | Inl i \<Rightarrow> i)"

text \<open>The cast \<open>as u64\<close> of an \<open>f64\<close> truncates and saturates.\<close>

definition f64_as_u64 :: "rat \<Rightarrow> u64" where
  "f64_as_u64 x = (if x < 0 then 0 else if \<lfloor>x\<rfloor> > 18446744073709551615 then -1 else of_int \<lfloor>x\<rfloor>)"

definition observe :: "rat \<Rightarrow> histogram \<Rightarrow> histogram" where
  "observe secs h =
     (let micros = f64_as_u64 (secs * 1000000);
          idx = bucket_index (buckets h) secs
      in h\<lparr>sum_micros := sum_micros h + micros,
           hist_count := hist_count h + 1,
           hist_counts := take idx (hist_counts h) @ map (\<lambda>c. c + 1) (drop idx (hist_counts h))\<rparr>)"

definition observe_all :: "rat list \<Rightarrow> histogram \<Rightarrow> histogram" where
  "observe_all obs h = fold observe obs h"

text \<open>Correctness of the search on a strictly increasing bucket list: it returns the number of
  buckets below the observed value, that is, the first bucket whose upper bound covers it.\<close>

definition search_result :: "nat + nat \<Rightarrow> nat" where
  "search_result r = (case r of Inr i \<Rightarrow> i | Inl i \<Rightarrow> i)"

lemma binary_search_partition:
  fixes bs :: "rat list"
  assumes sorted: "sorted_wrt (<) bs" and "lo \<le> hi" and "hi \<le> length bs"
    and "\<forall>i < lo. bs ! i < secs" and "\<forall>i < length bs. hi \<le> i \<longrightarrow> secs \<le> bs ! i"
  shows "search_result (binary_search_by (\<lambda>b. partial_cmp b secs) bs lo hi) \<le> length bs \<and>
    (\<forall>i < length bs. bs ! i < secs \<longleftrightarrow>
       i < search_result (binary_search_by (\<lambda>b. partial_cmp b secs) bs lo hi))"
  using assms(2-)
proof (induction "hi - lo" arbitrary: lo hi rule: less_induct)
  case less
  let ?f = "\<lambda>b. partial_cmp b secs"
  let ?mid = "lo + (hi - lo) div 2"
  have less_nth: "bs ! i < bs ! j" if "i < j" "j < length bs" for i j
    using sorted that by (simp add: sorted_wrt_iff_nth_less)
  show ?case
  proof (cases "lo < hi")
    case False
    then have "binary_search_by ?f bs lo hi = Inl lo"
      by (subst binary_search_by.simps) simp
    then show ?thesis using less.prems False
      by (auto simp: search_result_def not_less)
  next
    case True
    then have mid: "?mid < hi" "lo \<le> ?mid" "?mid < length bs" using less.prems by auto
    consider (lt) "bs ! ?mid < secs" | (eq) "bs ! ?mid = secs" | (gt) "secs < bs ! ?mid"
      by (meson linorder_neqE)
    then show ?thesis
    proof cases
      case lt
      have step: "binary_search_by ?f bs lo hi = binary_search_by ?f bs (?mid + 1) hi"
        using True lt by (subst binary_search_by.simps) (simp add: partial_cmp_def Let_def)
      have "\<forall>i < ?mid + 1. bs ! i < secs"
        using lt less_nth[OF _ mid(3)] by (metis Suc_eq_plus1 less_antisym order.strict_trans)
      then show ?thesis unfolding step
        using less.prems mid True by (intro less.hyps) auto
    next
      case eq
      then have "binary_search_by ?f bs lo hi = Inr ?mid"
        using True by (subst binary_search_by.simps) (simp add: partial_cmp_def Let_def)
      moreover have "bs ! i < secs \<longleftrightarrow> i < ?mid" if "i < length bs" for i
        using less_nth[of i ?mid] less_nth[of ?mid i] eq mid(3) that
        by (cases i ?mid rule: linorder_cases) auto
      ultimately show ?thesis using mid(3) by (simp add: search_result_def)
    next
      case gt
      have step: "binary_search_by ?f bs lo hi = binary_search_by ?f bs lo ?mid"
        using True gt by (subst binary_search_by.simps) (simp add: partial_cmp_def Let_def)
      have "\<forall>i < length bs. ?mid \<le> i \<longrightarrow> secs \<le> bs ! i"
        using gt less_nth[of ?mid] by (metis le_neq_implies_less less_imp_le order.strict_trans)
      then show ?thesis unfolding step
        using less.prems mid True by (intro less.hyps) auto
    qed
  qed
qed

lemma bucket_index_spec:
  assumes "sorted_wrt (<) bs"
  shows "bucket_index bs secs \<le> length bs"
    and "i < length bs \<Longrightarrow> bucket_index bs secs \<le> i \<longleftrightarrow> secs \<le> bs ! i"
  using binary_search_partition[OF assms, of 0 "length bs" secs]
  by (auto simp: bucket_index_def search_result_def not_less[symmetric])

lemma buckets_observe [simp, frame_simps]: "buckets (observe x h) = buckets h"
  by (simp add: observe_def Let_def)

lemma hist_count_observe: "hist_count (observe x h) = hist_count h + 1"
  by (simp add: observe_def Let_def)

lemma length_counts_observe [simp]: "length (hist_counts (observe x h)) = length (hist_counts h)"
  by (simp add: observe_def Let_def)

lemma nth_counts_observe:
  "i < length (hist_counts h) \<Longrightarrow>
    hist_counts (observe x h) ! i =
      hist_counts h ! i + (if bucket_index (buckets h) x \<le> i then 1 else 0)"
  by (auto simp: observe_def Let_def nth_append min_def)

text \<open>The cumulative reading of the counts: bucket \<open>i\<close> has counted the observations at most its
  bound, the last slot (\<open>+Inf\<close>) all of them.\<close>

definition count_le :: "rat list \<Rightarrow> rat \<Rightarrow> nat" where
  "count_le obs b = length (filter (\<lambda>x. x \<le> b) obs)"

lemma observe_all_frame [simp]:
  "buckets (observe_all obs h) = buckets h"
  "length (hist_counts (observe_all obs h)) = length (hist_counts h)"
  by (induction obs arbitrary: h) (simp_all add: observe_all_def)

lemma observe_all_count: "hist_count (observe_all obs h) = hist_count h + of_nat (length obs)"
  by (induction obs arbitrary: h) (simp_all add: observe_all_def hist_count_observe)

lemma observe_all_nth:
  assumes "sorted_wrt (<) (buckets h)" and "length (hist_counts h) = length (buckets h) + 1"
  shows "i < length (buckets h) \<Longrightarrow>
      hist_counts (observe_all obs h) ! i = hist_counts h ! i + of_nat (count_le obs (buckets h ! i))"
    and "hist_counts (observe_all obs h) ! length (buckets h) =
      hist_counts h ! length (buckets h) + of_nat (length obs)"
  using assms
proof (induction obs arbitrary: h)
  case (Cons x obs)
  case 1
  then show ?case using Cons.IH(1)[of "observe x h"]
    by (simp add: observe_all_def nth_counts_observe bucket_index_spec(2) count_le_def)
next
  case (Cons x obs)
  case 2
  then show ?case using Cons.IH(2)[of "observe x h"]
    by (simp add: observe_all_def nth_counts_observe bucket_index_spec(1))
qed (simp_all add: observe_all_def count_le_def)

lemma sorted_DEFAULT_BUCKETS: "sorted_wrt (<) DEFAULT_BUCKETS"
  by (simp add: DEFAULT_BUCKETS_def)

lemma histogram_new_simps [simp]:
  "buckets histogram_new = DEFAULT_BUCKETS"
  "length (hist_counts histogram_new) = length DEFAULT_BUCKETS + 1"
  "hist_count histogram_new = 0"
  "i \<le> length DEFAULT_BUCKETS \<Longrightarrow> hist_counts histogram_new ! i = 0"
  by (simp_all add: histogram_new_def with_buckets_def del: upt_Suc)

section \<open>The metrics set\<close>

record metrics =
  enabled :: bool
  frames_downstream :: u64
  frames_upstream :: u64
  bytes_downstream :: u64
  bytes_upstream :: u64
  requests_in_flight :: i64
  downstream_connections :: i64
  upstream_connections :: i64
  pool_hits :: u64
  pool_misses :: u64
  pool_evictions :: u64
  pool_waiters :: i64
  auth_failures :: u64
  acquire_hist :: histogram
  request_hist :: histogram
  handshake_hist :: histogram
  cid_map_entries :: i64

definition metrics_new :: "bool \<Rightarrow> metrics" where
  "metrics_new en =
     \<lparr>enabled = en, frames_downstream = 0, frames_upstream = 0, bytes_downstream = 0,
      bytes_upstream = 0, requests_in_flight = 0, downstream_connections = 0,
      upstream_connections = 0, pool_hits = 0, pool_misses = 0, pool_evictions = 0,
      pool_waiters = 0, auth_failures = 0, acquire_hist = histogram_new,
      request_hist = histogram_new, handshake_hist = histogram_new, cid_map_entries = 0\<rparr>"

definition metrics_on :: "metrics \<Rightarrow> bool" where
  "metrics_on m = enabled m"

subsection \<open>Throughput\<close>

definition inc_frames_downstream :: "metrics \<Rightarrow> metrics" where
  "inc_frames_downstream m = (if metrics_on m then m\<lparr>frames_downstream := frames_downstream m + 1\<rparr> else m)"

definition add_bytes_downstream :: "u64 \<Rightarrow> metrics \<Rightarrow> metrics" where
  "add_bytes_downstream n m = (if metrics_on m then m\<lparr>bytes_downstream := bytes_downstream m + n\<rparr> else m)"

definition inc_frames_upstream :: "metrics \<Rightarrow> metrics" where
  "inc_frames_upstream m = (if metrics_on m then m\<lparr>frames_upstream := frames_upstream m + 1\<rparr> else m)"

definition add_bytes_upstream :: "u64 \<Rightarrow> metrics \<Rightarrow> metrics" where
  "add_bytes_upstream n m = (if metrics_on m then m\<lparr>bytes_upstream := bytes_upstream m + n\<rparr> else m)"

definition inc_requests_in_flight :: "metrics \<Rightarrow> metrics" where
  "inc_requests_in_flight m = (if metrics_on m then m\<lparr>requests_in_flight := requests_in_flight m + 1\<rparr> else m)"

definition dec_requests_in_flight :: "metrics \<Rightarrow> metrics" where
  "dec_requests_in_flight m = (if metrics_on m then m\<lparr>requests_in_flight := requests_in_flight m - 1\<rparr> else m)"

subsection \<open>Connections: counted whether or not collection is enabled\<close>

definition inc_downstream_connections :: "metrics \<Rightarrow> metrics" where
  "inc_downstream_connections m = m\<lparr>downstream_connections := downstream_connections m + 1\<rparr>"

definition dec_downstream_connections :: "metrics \<Rightarrow> metrics" where
  "dec_downstream_connections m = m\<lparr>downstream_connections := downstream_connections m - 1\<rparr>"

definition downstream_connection_count :: "metrics \<Rightarrow> i64" where
  "downstream_connection_count m = downstream_connections m"

definition inc_upstream_connections :: "metrics \<Rightarrow> metrics" where
  "inc_upstream_connections m = m\<lparr>upstream_connections := upstream_connections m + 1\<rparr>"

definition dec_upstream_connections :: "metrics \<Rightarrow> metrics" where
  "dec_upstream_connections m = m\<lparr>upstream_connections := upstream_connections m - 1\<rparr>"

definition inc_auth_failures :: "metrics \<Rightarrow> metrics" where
  "inc_auth_failures m = (if metrics_on m then m\<lparr>auth_failures := auth_failures m + 1\<rparr> else m)"

subsection \<open>Pool and correlation-id map\<close>

definition inc_pool_hits :: "metrics \<Rightarrow> metrics" where
  "inc_pool_hits m = (if metrics_on m then m\<lparr>pool_hits := pool_hits m + 1\<rparr> else m)"

definition inc_pool_misses :: "metrics \<Rightarrow> metrics" where
  "inc_pool_misses m = (if metrics_on m then m\<lparr>pool_misses := pool_misses m + 1\<rparr> else m)"

definition inc_pool_evictions :: "metrics \<Rightarrow> metrics" where
  "inc_pool_evictions m = (if metrics_on m then m\<lparr>pool_evictions := pool_evictions m + 1\<rparr> else m)"

definition inc_pool_waiters :: "metrics \<Rightarrow> metrics" where
  "inc_pool_waiters m = (if metrics_on m then m\<lparr>pool_waiters := pool_waiters m + 1\<rparr> else m)"

definition dec_pool_waiters :: "metrics \<Rightarrow> metrics" where
  "dec_pool_waiters m = (if metrics_on m then m\<lparr>pool_waiters := pool_waiters m - 1\<rparr> else m)"

definition inc_cid_map_entries :: "metrics \<Rightarrow> metrics" where
  "inc_cid_map_entries m = (if metrics_on m then m\<lparr>cid_map_entries := cid_map_entries m + 1\<rparr> else m)"

definition dec_cid_map_entries :: "metrics \<Rightarrow> metrics" where
  "dec_cid_map_entries m = (if metrics_on m then m\<lparr>cid_map_entries := cid_map_entries m - 1\<rparr> else m)"

definition sub_cid_map_entries :: "u64 \<Rightarrow> metrics \<Rightarrow> metrics" where
  "sub_cid_map_entries n m = (if metrics_on m then m\<lparr>cid_map_entries := cid_map_entries m - n\<rparr> else m)"

lemmas metrics_ops =
  downstream_connection_count_def
  inc_frames_downstream_def add_bytes_downstream_def inc_frames_upstream_def
  add_bytes_upstream_def inc_requests_in_flight_def dec_requests_in_flight_def
  inc_downstream_connections_def dec_downstream_connections_def inc_upstream_connections_def
  dec_upstream_connections_def inc_auth_failures_def inc_pool_hits_def
  inc_pool_misses_def inc_pool_evictions_def inc_pool_waiters_def
  dec_pool_waiters_def inc_cid_map_entries_def dec_cid_map_entries_def
  sub_cid_map_entries_def

definition observe_acquire :: "rat \<Rightarrow> metrics \<Rightarrow> metrics" where
  "observe_acquire secs m = m\<lparr>acquire_hist := observe secs (acquire_hist m)\<rparr>"

definition observe_request :: "rat \<Rightarrow> metrics \<Rightarrow> metrics" where
  "observe_request secs m = m\<lparr>request_hist := observe secs (request_hist m)\<rparr>"

definition observe_handshake :: "rat \<Rightarrow> metrics \<Rightarrow> metrics" where
  "observe_handshake secs m = m\<lparr>handshake_hist := observe secs (handshake_hist m)\<rparr>"

lemmas metrics_observations = observe_acquire_def observe_request_def observe_handshake_def

text \<open>Every call the other components make on the metrics set, as data, so that a history of
  calls is a list.\<close>

datatype metric_call =
    IncFramesDownstream | AddBytesDownstream u64 | IncFramesUpstream | AddBytesUpstream u64
  | IncInFlight | DecInFlight
  | IncDownConn | DecDownConn | IncUpConn | DecUpConn | IncAuthFailures
  | IncPoolHits | IncPoolMisses | IncPoolEvictions | IncPoolWaiters | DecPoolWaiters
  | IncCidEntries | DecCidEntries | SubCidEntries u64
  | ObserveAcquire rat | ObserveRequest rat | ObserveHandshake rat

fun call_metric :: "metric_call \<Rightarrow> metrics \<Rightarrow> metrics" where
  "call_metric IncFramesDownstream m = inc_frames_downstream m"
| "call_metric (AddBytesDownstream n) m = add_bytes_downstream n m"
| "call_metric IncFramesUpstream m = inc_frames_upstream m"
| "call_metric (AddBytesUpstream n) m = add_bytes_upstream n m"
| "call_metric IncInFlight m = inc_requests_in_flight m"
| "call_metric DecInFlight m = dec_requests_in_flight m"
| "call_metric IncDownConn m = inc_downstream_connections m"
| "call_metric DecDownConn m = dec_downstream_connections m"
| "call_metric IncUpConn m = inc_upstream_connections m"
| "call_metric DecUpConn m = dec_upstream_connections m"
| "call_metric IncAuthFailures m = inc_auth_failures m"
| "call_metric IncPoolHits m = inc_pool_hits m"
| "call_metric IncPoolMisses m = inc_pool_misses m"
| "call_metric IncPoolEvictions m = inc_pool_evictions m"
| "call_metric IncPoolWaiters m = inc_pool_waiters m"
| "call_metric DecPoolWaiters m = dec_pool_waiters m"
| "call_metric IncCidEntries m = inc_cid_map_entries m"
| "call_metric DecCidEntries m = dec_cid_map_entries m"
| "call_metric (SubCidEntries n) m = sub_cid_map_entries n m"
| "call_metric (ObserveAcquire x) m = observe_acquire x m"
| "call_metric (ObserveRequest x) m = observe_request x m"
| "call_metric (ObserveHandshake x) m = observe_handshake x m"

section \<open>The interface of a gauge\<close>

text \<open>A gauge is a word that one operation adds 1 to and another subtracts 1 from, both only
  when the gate is open; every other call leaves it alone. Whatever the order of the calls, it
  then reads the difference of their numbers.\<close>

locale gauge =
  fixes read :: "metrics \<Rightarrow> i64"
    and up :: metric_call
    and down :: metric_call
    and gate :: "metrics \<Rightarrow> bool"
    and foreign :: "metric_call \<Rightarrow> bool"
  assumes read_up: "read (call_metric up m) = (if gate m then read m + 1 else read m)"
    and read_down: "read (call_metric down m) = (if gate m then read m - 1 else read m)"
    and read_other: "op \<noteq> up \<Longrightarrow> op \<noteq> down \<Longrightarrow> \<not> foreign op \<Longrightarrow> read (call_metric op m) = read m"
    and gate_op: "gate (call_metric op m) = gate m"
    and up_down: "up \<noteq> down"
begin

lemma gate_fold: "gate (fold call_metric ops m) = gate m"
  by (induction ops arbitrary: m) (simp_all add: gate_op)

lemma read_fold:
  "\<forall>op \<in> set ops. \<not> foreign op \<Longrightarrow>
    read (fold call_metric ops m) =
      (if gate m then read m + of_nat (count_list ops up) - of_nat (count_list ops down) else read m)"
proof (induction ops arbitrary: m)
  case (Cons op ops)
  then show ?case
    using up_down by (cases "op = up"; cases "op = down")
      (simp_all add: gate_op read_up read_down read_other)
qed simp

end

lemma metrics_on_call [simp, frame_simps]: "metrics_on (call_metric op m) = metrics_on m"
  by (cases op) (simp_all add: metrics_on_def metrics_ops metrics_observations)

lemma downstream_connections_call:
  "downstream_connections (call_metric c m) =
     (case c of IncDownConn \<Rightarrow> downstream_connections m + 1 | DecDownConn \<Rightarrow> downstream_connections m - 1
      | _ \<Rightarrow> downstream_connections m)"
  by (cases c) (simp_all add: metrics_ops metrics_observations)

interpretation downstream_gauge: gauge downstream_connections IncDownConn DecDownConn "\<lambda>_. True" "\<lambda>_. False"
  by unfold_locales (simp_all add: downstream_connections_call metrics_ops split: metric_call.splits)

lemma upstream_connections_call:
  "upstream_connections (call_metric c m) =
     (case c of IncUpConn \<Rightarrow> upstream_connections m + 1 | DecUpConn \<Rightarrow> upstream_connections m - 1
      | _ \<Rightarrow> upstream_connections m)"
  by (cases c) (simp_all add: metrics_ops metrics_observations)

interpretation upstream_gauge: gauge upstream_connections IncUpConn DecUpConn "\<lambda>_. True" "\<lambda>_. False"
  by unfold_locales (simp_all add: upstream_connections_call metrics_ops split: metric_call.splits)

lemma requests_in_flight_call:
  "requests_in_flight (call_metric c m) =
     (case c of IncInFlight \<Rightarrow> (if metrics_on m then requests_in_flight m + 1 else requests_in_flight m) | DecInFlight \<Rightarrow> (if metrics_on m then requests_in_flight m - 1 else requests_in_flight m)
      | _ \<Rightarrow> requests_in_flight m)"
  by (cases c) (simp_all add: metrics_ops metrics_observations)

interpretation in_flight_gauge: gauge requests_in_flight IncInFlight DecInFlight metrics_on "\<lambda>_. False"
  by unfold_locales (simp_all add: requests_in_flight_call metrics_ops split: metric_call.splits)

lemma pool_waiters_call:
  "pool_waiters (call_metric c m) =
     (case c of IncPoolWaiters \<Rightarrow> (if metrics_on m then pool_waiters m + 1 else pool_waiters m) | DecPoolWaiters \<Rightarrow> (if metrics_on m then pool_waiters m - 1 else pool_waiters m)
      | _ \<Rightarrow> pool_waiters m)"
  by (cases c) (simp_all add: metrics_ops metrics_observations)

interpretation waiters_gauge: gauge pool_waiters IncPoolWaiters DecPoolWaiters metrics_on "\<lambda>_. False"
  by unfold_locales (simp_all add: pool_waiters_call metrics_ops split: metric_call.splits)

lemma cid_map_entries_call:
  "cid_map_entries (call_metric c m) =
     (case c of IncCidEntries \<Rightarrow> (if metrics_on m then cid_map_entries m + 1 else cid_map_entries m) | DecCidEntries \<Rightarrow> (if metrics_on m then cid_map_entries m - 1 else cid_map_entries m)
      | SubCidEntries n \<Rightarrow> (if metrics_on m then cid_map_entries m - n else cid_map_entries m)
      | _ \<Rightarrow> cid_map_entries m)"
  by (cases c) (simp_all add: metrics_ops metrics_observations)

interpretation cid_entries_gauge: gauge cid_map_entries IncCidEntries DecCidEntries metrics_on "\<lambda>c. \<exists>n. c = SubCidEntries n"
  by unfold_locales (simp_all add: cid_map_entries_call metrics_ops split: metric_call.splits)

section \<open>Prometheus text\<close>

definition show_u64 :: "u64 \<Rightarrow> string" where "show_u64 w = show_nat (unat w)"
definition show_i64 :: "i64 \<Rightarrow> string" where "show_i64 w = show_int (sint w)"

definition sample :: "string \<Rightarrow> string \<Rightarrow> string" where
  "sample name v = name @ '' '' @ v @ ''\<newline>''"

definition header :: "string \<Rightarrow> string \<Rightarrow> string \<Rightarrow> string" where
  "header name help typ =
     ''# HELP '' @ name @ '' '' @ help @ ''\<newline># TYPE '' @ name @ '' '' @ typ @ ''\<newline>''"

text \<open>\<open>fmt\<close> is the shortest decimal of an \<open>f64\<close>; an integral bucket bound is printed with one
  decimal.\<close>

definition format_bucket :: "(rat \<Rightarrow> string) \<Rightarrow> rat \<Rightarrow> string" where
  "format_bucket fmt b = (if b = of_int \<lfloor>b\<rfloor> then show_int \<lfloor>b\<rfloor> @ ''.0'' else fmt b)"

definition hist_render :: "(rat \<Rightarrow> string) \<Rightarrow> string \<Rightarrow> histogram \<Rightarrow> string" where
  "hist_render fmt name h =
     concat (map (\<lambda>(b, v). sample (name @ ''_bucket{le=\"'' @ format_bucket fmt b @ ''\"}'') (show_u64 v))
              (zip (buckets h) (hist_counts h)))
     @ sample (name @ ''_bucket{le=\"+Inf\"}'') (show_u64 (hist_counts h ! length (buckets h)))
     @ sample (name @ ''_sum'') (fmt (of_nat (unat (sum_micros h)) / 1000000))
     @ sample (name @ ''_count'') (show_u64 (hist_count h))"

definition hit_rate :: "metrics \<Rightarrow> rat" where
  "hit_rate m =
     (let h = of_nat (unat (pool_hits m)); k = of_nat (unat (pool_misses m))
      in if h + k > 0 then h / (h + k) else 0)"

text \<open>\<open>rss\<close> is what \<open>process_rss_bytes\<close> returned for this call.\<close>

definition render_prometheus :: "(rat \<Rightarrow> string) \<Rightarrow> u64 \<Rightarrow> metrics \<Rightarrow> string" where
  "render_prometheus fmt rss m =
   header ''kafka_proxy_frames_total'' ''Frames forwarded by direction.'' ''counter''
   @ sample ''kafka_proxy_frames_total{dir=\"downstream\"}'' (show_u64 (frames_downstream m))
   @ sample ''kafka_proxy_frames_total{dir=\"upstream\"}'' (show_u64 (frames_upstream m))
   @ header ''kafka_proxy_bytes_total'' ''Bytes forwarded by direction.'' ''counter''
   @ sample ''kafka_proxy_bytes_total{dir=\"downstream\"}'' (show_u64 (bytes_downstream m))
   @ sample ''kafka_proxy_bytes_total{dir=\"upstream\"}'' (show_u64 (bytes_upstream m))
   @ header ''kafka_proxy_requests_in_flight'' ''In-flight requests.'' ''gauge''
   @ sample ''kafka_proxy_requests_in_flight'' (show_i64 (requests_in_flight m))
   @ header ''kafka_proxy_downstream_connections'' ''Active downstream connections.'' ''gauge''
   @ sample ''kafka_proxy_downstream_connections'' (show_i64 (downstream_connections m))
   @ header ''kafka_proxy_upstream_connections'' ''Active upstream pooled connections.'' ''gauge''
   @ sample ''kafka_proxy_upstream_connections'' (show_i64 (upstream_connections m))
   @ header ''kafka_proxy_pool_hits_total'' ''Pool acquire hits.'' ''counter''
   @ sample ''kafka_proxy_pool_hits_total'' (show_u64 (pool_hits m))
   @ header ''kafka_proxy_pool_misses_total'' ''Pool acquire misses.'' ''counter''
   @ sample ''kafka_proxy_pool_misses_total'' (show_u64 (pool_misses m))
   @ header ''kafka_proxy_pool_evictions_total'' ''Pool connection evictions.'' ''counter''
   @ sample ''kafka_proxy_pool_evictions_total'' (show_u64 (pool_evictions m))
   @ header ''kafka_proxy_pool_waiters'' ''Requests waiting for a pooled connection.'' ''gauge''
   @ sample ''kafka_proxy_pool_waiters'' (show_i64 (pool_waiters m))
   @ header ''kafka_proxy_pool_hit_rate'' ''Derived pool hit rate.'' ''gauge''
   @ sample ''kafka_proxy_pool_hit_rate'' (fmt (hit_rate m))
   @ header ''kafka_proxy_auth_failures_total'' ''Upstream authentication failures.'' ''counter''
   @ sample ''kafka_proxy_auth_failures_total'' (show_u64 (auth_failures m))
   @ header ''kafka_proxy_acquire_duration_seconds'' ''Time waiting to acquire an upstream connection.'' ''histogram''
   @ hist_render fmt ''kafka_proxy_acquire_duration_seconds'' (acquire_hist m)
   @ header ''kafka_proxy_request_duration_seconds'' ''End-to-end request latency.'' ''histogram''
   @ hist_render fmt ''kafka_proxy_request_duration_seconds'' (request_hist m)
   @ header ''kafka_proxy_handshake_duration_seconds'' ''Upstream GSSAPI/TLS handshake duration.'' ''histogram''
   @ hist_render fmt ''kafka_proxy_handshake_duration_seconds'' (handshake_hist m)
   @ header ''kafka_proxy_process_resident_memory_bytes'' ''Process RSS bytes.'' ''gauge''
   @ sample ''kafka_proxy_process_resident_memory_bytes'' (show_u64 rss)
   @ header ''kafka_proxy_cid_map_entries'' ''correlation_id remap table entries.'' ''gauge''
   @ sample ''kafka_proxy_cid_map_entries'' (show_i64 (cid_map_entries m))"

section \<open>Resident set size\<close>

text \<open>\<open>getconf\<close> is the output of the \<open>getconf PAGESIZE\<close> command when it ran and is UTF-8;
  \<open>statm\<close> the text of \<open>/proc/self/statm\<close> when it can be read (Linux). The multiplication of
  64-bit values wraps around in a release build.\<close>

definition page_size_kb :: "string option \<Rightarrow> u64" where
  "page_size_kb getconf =
     (case Option.bind getconf (\<lambda>s. parse_u64 (trim s)) of
        Some b \<Rightarrow> of_nat (b div 1024)
      | None \<Rightarrow> 4)"

definition process_rss_bytes :: "string option \<Rightarrow> string option \<Rightarrow> u64" where
  "process_rss_bytes getconf statm =
     (case statm of
        None \<Rightarrow> 0
      | Some text \<Rightarrow>
          (let fields = split_whitespace text in
           if length fields \<ge> 2
           then (case parse_u64 (fields ! 1) of
                   Some pages \<Rightarrow> of_nat pages * page_size_kb getconf * 1024
                 | None \<Rightarrow> 0)
           else 0))"

lemma ratio_bounds:
  "0 \<le> (if (of_nat a :: rat) + of_nat b > 0 then of_nat a / (of_nat a + of_nat b) else 0 :: rat) \<and>
   (if (of_nat a :: rat) + of_nat b > 0 then of_nat a / (of_nat a + of_nat b) else 0 :: rat) \<le> 1"
  by (auto simp: divide_le_eq_1)

lemma hit_rate_bounds: "0 \<le> hit_rate m \<and> hit_rate m \<le> 1"
  unfolding hit_rate_def Let_def by (rule ratio_bounds)


section \<open>Properties\<close>

text \<open>C27: After any observations the default histogram is cumulative: every bucket counts exactly the
  observations at most its bound, the last slot and the total count all of them.\<close>

theorem histogram_cumulative:
  assumes "h = observe_all obs histogram_new" and "i < length DEFAULT_BUCKETS"
  shows "hist_counts h ! i = of_nat (length (filter (\<lambda>x. x \<le> DEFAULT_BUCKETS ! i) obs))
    \<and> hist_counts h ! length DEFAULT_BUCKETS = of_nat (length obs) \<and> hist_count h = of_nat (length obs)"
  using observe_all_nth[where h = histogram_new and obs = obs] observe_all_count[of obs histogram_new] sorted_DEFAULT_BUCKETS assms
  by (simp add: count_le_def)

theorem histogram_cumulative_witness:
  "hist_counts (observe_all [1/2, 1/2000, 7] histogram_new) ! 1 = 1
   \<and> hist_counts (observe_all [1/2, 1/2000, 7] histogram_new) ! length DEFAULT_BUCKETS = 3"
  using histogram_cumulative[OF refl, of 1 "[1/2, 1/2000, 7]"] by (simp add: DEFAULT_BUCKETS_def)

text \<open>The connection and in-flight gauges read the increments less the decrements, in any order of
  any metric calls; the in-flight gauge only when metrics are enabled, the connection gauge always.\<close>

theorem gauges_read_difference:
  "let m = fold call_metric ops (metrics_new on) in
     upstream_connections m = of_nat (count_list ops IncUpConn) - of_nat (count_list ops DecUpConn)
   \<and> downstream_connections m = of_nat (count_list ops IncDownConn) - of_nat (count_list ops DecDownConn)
   \<and> requests_in_flight m =
       (if on then of_nat (count_list ops IncInFlight) - of_nat (count_list ops DecInFlight) else 0)"
  using upstream_gauge.read_fold[of ops "metrics_new on"] downstream_gauge.read_fold[of ops "metrics_new on"]
    in_flight_gauge.read_fold[of ops "metrics_new on"]
  by (simp add: Let_def metrics_new_def metrics_on_def)

end
