(* ===== verification/CidRemap.thy ===== *)
theory CidRemap
  imports DashMap Metrics
begin

text \<open>
  The correlation-id table of the connection pool, \<open>CidRemap\<close> in \<open>src/src/pool.rs\<close>: the id
  counter with its compare-and-swap loop, the connection-id counter, and insert, take,
  in-flight count and the clean-up of a failed connection. A reply channel is a number, an
  instant a number of nanoseconds. \<open>insert\<close> is one function and also the two steps that
  other tasks can come between (the length check, then the allocation and the insertion).
\<close>

section \<open>State\<close>

type_synonym conn_id = u64
type_synonym channel = nat
type_synonym instant = nat

record route_entry =
  re_downstream_tx :: channel
  re_cid_d :: i32
  re_api_key :: i16
  re_api_version :: i16
  re_started :: instant
  re_conn_id :: conn_id

record cid_remap =
  remap_map :: "(i32, route_entry) dashmap"
  next_cid :: i32
  next_conn_id :: u64
  remap_limit :: nat

definition with_max_in_flight :: "nat \<Rightarrow> cid_remap" where
  "with_max_in_flight n = \<lparr>remap_map = dm_new, next_cid = 1, next_conn_id = 1, remap_limit = n\<rparr>"

definition cid_remap_new :: cid_remap where
  "cid_remap_new = with_max_in_flight 100000"

section \<open>Operations\<close>

definition i32_max :: i32 where "i32_max = 0x7FFFFFFF"

definition next_cid_u :: "i32 \<Rightarrow> i32" where
  "next_cid_u prev = (if prev \<le>s 0 \<or> prev = i32_max then 1 else prev + 1)"

text \<open>The loop of \<open>alloc_cid_u\<close> without contention: the first compare-and-swap succeeds.\<close>

definition alloc_cid_u :: "cid_remap \<Rightarrow> i32 \<times> cid_remap" where
  "alloc_cid_u r = (let nxt = next_cid_u (next_cid r) in (nxt, r\<lparr>next_cid := nxt\<rparr>))"

definition alloc_conn_id :: "cid_remap \<Rightarrow> conn_id \<times> cid_remap" where
  "alloc_conn_id r = (next_conn_id r, r\<lparr>next_conn_id := next_conn_id r + 1\<rparr>)"

definition in_flight :: "cid_remap \<Rightarrow> nat" where
  "in_flight r = dm_len (remap_map r)"

definition insert_check :: "cid_remap \<Rightarrow> bool" where
  "insert_check r \<longleftrightarrow> \<not> remap_limit r \<le> dm_len (remap_map r)"

definition insert_commit ::
  "channel \<Rightarrow> i32 \<Rightarrow> i16 \<Rightarrow> i16 \<Rightarrow> conn_id \<Rightarrow> instant \<Rightarrow> cid_remap \<Rightarrow> metrics \<Rightarrow> i32 \<times> cid_remap \<times> metrics" where
  "insert_commit tx cid_d api_key api_version conn now r m =
     (let (cid_u, r) = alloc_cid_u r;
          entry = \<lparr>re_downstream_tx = tx, re_cid_d = cid_d, re_api_key = api_key,
                   re_api_version = api_version, re_started = now, re_conn_id = conn\<rparr>;
          r = r\<lparr>remap_map := dm_insert cid_u entry (remap_map r)\<rparr>
      in (cid_u, r, inc_cid_map_entries m))"

definition remap_insert ::
  "channel \<Rightarrow> i32 \<Rightarrow> i16 \<Rightarrow> i16 \<Rightarrow> conn_id \<Rightarrow> instant \<Rightarrow> cid_remap \<Rightarrow> metrics \<Rightarrow> i32 option \<times> cid_remap \<times> metrics" where
  "remap_insert tx cid_d api_key api_version conn now r m =
     (if \<not> insert_check r then (None, r, m)
      else (let (cid_u, r, m) = insert_commit tx cid_d api_key api_version conn now r m
            in (Some cid_u, r, m)))"

definition remap_take :: "i32 \<Rightarrow> cid_remap \<Rightarrow> metrics \<Rightarrow> route_entry option \<times> cid_remap \<times> metrics" where
  "remap_take cid_u r m =
     (let entry = dm_get (remap_map r) cid_u;
          r = r\<lparr>remap_map := dm_remove cid_u (remap_map r)\<rparr>
      in (entry, r, if entry \<noteq> None then dec_cid_map_entries m else m))"

text \<open>The clean-up reads the length, filters and reads the length again. The table is shared, so
  other tasks may change it at both gaps: \<open>gap1\<close> and \<open>gap2\<close> are what they do there. The
  difference is a \<open>usize\<close>: where the build checks arithmetic (\<open>checks\<close>) a negative one panics
  (\<open>None\<close>), otherwise it wraps.\<close>

definition fail_conn ::
  "bool \<Rightarrow> (cid_remap \<Rightarrow> cid_remap) \<Rightarrow> (cid_remap \<Rightarrow> cid_remap) \<Rightarrow> conn_id \<Rightarrow> cid_remap \<Rightarrow> metrics
     \<Rightarrow> (u64 \<times> cid_remap \<times> metrics) option" where
  "fail_conn checks gap1 gap2 conn r m =
     (let before = dm_len (remap_map r);
          r = gap1 r;
          r = r\<lparr>remap_map := dm_retain (\<lambda>_ entry. re_conn_id entry \<noteq> conn) (remap_map r)\<rparr>;
          r = gap2 r;
          after = dm_len (remap_map r)
      in if checks \<and> before < after then None
         else (let removed = (of_nat before - of_nat after :: u64)
               in Some (removed, r, sub_cid_map_entries removed m)))"

definition remap_inv :: "cid_remap \<Rightarrow> bool" where
  "remap_inv r \<longleftrightarrow> dm_inv (remap_map r)"

lemmas remap_ops = alloc_cid_u_def insert_commit_def remap_insert_def remap_take_def in_flight_def
  insert_check_def remap_inv_def

section \<open>The id counter\<close>

lemma shifted_mod:
  assumes "0 \<le> (u :: int)" and "u < 2 ^ 32"
  shows "(u + 2 ^ 31) mod 2 ^ 32 - 2 ^ 31 = (if u < 2 ^ 31 then u else u - 2 ^ 32)"
proof (cases "u < 2 ^ 31")
  case True
  then show ?thesis using assms by (simp add: mod_pos_pos_trivial)
next
  case False
  have "(u + 2 ^ 31) mod 2 ^ 32 = (u - 2 ^ 31 + 2 ^ 32) mod 2 ^ 32" by (simp add: add.commute)
  also have "\<dots> = (u - 2 ^ 31) mod 2 ^ 32" by (rule mod_add_self2)
  also have "\<dots> = u - 2 ^ 31" using False assms by (intro mod_pos_pos_trivial) simp_all
  finally show ?thesis using False by simp
qed

lemma sint_i32: "sint (c :: i32) = (if uint c < 2 ^ 31 then uint c else uint c - 2 ^ 32)"
proof -
  have "sint c = (uint c + 2 ^ 31) mod 2 ^ 32 - 2 ^ 31"
    by (simp add: sint_uint signed_take_bit_eq_take_bit_shift take_bit_eq_mod)
  also have "\<dots> = (if uint c < 2 ^ 31 then uint c else uint c - 2 ^ 32)"
    using uint_lt2p[of c] by (intro shifted_mod) simp_all
  finally show ?thesis .
qed

lemma i32_pos: "0 <s (c :: i32) \<longleftrightarrow> 1 \<le> unat c \<and> unat c < 2 ^ 31"
proof -
  have "0 <s c \<longleftrightarrow> 0 < sint c" by (simp add: word_sless_alt)
  also have "\<dots> \<longleftrightarrow> 0 < uint c \<and> uint c < 2 ^ 31"
    using uint_lt2p[of c] by (simp add: sint_i32)
  also have "\<dots> \<longleftrightarrow> 0 < int (unat c) \<and> int (unat c) < int (2 ^ 31)"
    by (simp only: uint_nat of_nat_numeral of_nat_power)
  also have "\<dots> \<longleftrightarrow> 1 \<le> unat c \<and> unat c < 2 ^ 31" by (simp only: of_nat_less_iff of_nat_0_less_iff) linarith
  finally show ?thesis .
qed

lemma unat_next_cid_u:
  assumes pos: "0 <s c"
  shows "unat (next_cid_u c) = (if unat c = 2 ^ 31 - 1 then 1 else Suc (unat c))"
proof -
  have r: "1 \<le> unat c" "unat c < 2 ^ 31" using pos by (simp_all only: i32_pos)
  have eq: "c = i32_max \<longleftrightarrow> unat c = 2 ^ 31 - 1"
    by (simp add: i32_max_def word_unat_eq_iff)
  have "unat (c + 1) = Suc (unat c)" using r by (simp add: unat_word_ariths)
  moreover have "\<not> c \<le>s 0" using pos by (simp add: signed.not_le)
  ultimately show ?thesis using eq by (simp add: next_cid_u_def)
qed

lemma next_cid_u_pos: "0 <s next_cid_u c"
proof (cases "0 <s c")
  case True
  then have "unat c < 2 ^ 31" by (simp only: i32_pos)
  then show ?thesis using unat_next_cid_u[OF True] by (simp add: i32_pos split: if_splits)
next
  case False
  then have "next_cid_u c = 1" by (simp add: next_cid_u_def signed.not_less)
  then show ?thesis by (simp add: i32_pos)
qed

lemma one_pos: "0 <s (1 :: i32)"
  by (simp add: i32_pos)

text \<open>Starting from the initial 1 the \<open>n\<close>-th value is \<open>1 + n mod (2^31 - 1)\<close>.\<close>

lemma unat_next_cid_u_iter: "unat ((next_cid_u ^^ n) 1) = 1 + n mod (2 ^ 31 - 1)"
proof (induction n)
  case (Suc n)
  let ?c = "(next_cid_u ^^ n) 1"
  have pos: "0 <s ?c" by (cases n) (simp_all add: next_cid_u_pos one_pos)
  have "n mod (2 ^ 31 - 1) < 2 ^ 31 - (1 :: nat)" by simp
  then show ?case using Suc unat_next_cid_u[OF pos] by (simp add: mod_Suc)
qed simp

lemma mod_window:
  assumes "(i :: nat) mod p = j mod p" and "i \<le> j" and "j < i + p"
  shows "i = j"
proof -
  have "p dvd j - i" using assms(1,2) mod_eq_dvd_iff_nat[of i j p] by metis
  then show ?thesis using assms(2,3) dvd_imp_le[of p "j - i"] by linarith
qed

lemma next_cid_u_iter_inject:
  assumes "(next_cid_u ^^ i) 1 = (next_cid_u ^^ j) 1" and "i \<le> j" and "j < i + (2 ^ 31 - 1)"
  shows "i = j"
proof -
  have "1 + i mod (2 ^ 31 - 1) = 1 + j mod (2 ^ 31 - 1)"
    using assms(1) unat_next_cid_u_iter[of i] unat_next_cid_u_iter[of j] by metis
  then show ?thesis using mod_window[of i "2 ^ 31 - 1" j] assms(2,3) by linarith
qed

section \<open>The compare-and-swap loop under contention\<close>

text \<open>The loop as every task runs it: load the counter, compute the successor, and store it if
  the counter still holds the loaded value, otherwise start over. \<open>cas_log\<close> records the ids in
  the order of the successful swaps.\<close>

datatype cas_pc = CasLoad | CasSwap i32 | CasReturn i32

record cas_state =
  cas_next :: i32
  cas_pcs :: "nat \<Rightarrow> cas_pc"
  cas_log :: "i32 list"

inductive cas_step :: "cas_state \<Rightarrow> cas_state \<Rightarrow> bool" where
  cas_load: "cas_pcs s t = CasLoad \<Longrightarrow>
     cas_step s (s\<lparr>cas_pcs := (cas_pcs s)(t := CasSwap (cas_next s))\<rparr>)"
| cas_ok: "cas_pcs s t = CasSwap prev \<Longrightarrow> cas_next s = prev \<Longrightarrow>
     cas_step s (s\<lparr>cas_next := next_cid_u prev,
                   cas_pcs := (cas_pcs s)(t := CasReturn (next_cid_u prev)),
                   cas_log := cas_log s @ [next_cid_u prev]\<rparr>)"
| cas_retry: "cas_pcs s t = CasSwap prev \<Longrightarrow> cas_next s \<noteq> prev \<Longrightarrow>
     cas_step s (s\<lparr>cas_pcs := (cas_pcs s)(t := CasLoad)\<rparr>)"
| cas_again: "cas_pcs s t = CasReturn c \<Longrightarrow>
     cas_step s (s\<lparr>cas_pcs := (cas_pcs s)(t := CasLoad)\<rparr>)"

inductive_cases cas_stepE: "cas_step s s'"

definition cas_init :: "cas_state \<Rightarrow> bool" where
  "cas_init s \<longleftrightarrow> cas_next s = 1 \<and> (\<forall>t. cas_pcs s t = CasLoad) \<and> cas_log s = []"

definition cid_seq :: "nat \<Rightarrow> i32" where "cid_seq k = (next_cid_u ^^ Suc k) 1"

definition cas_inv :: "cas_state \<Rightarrow> bool" where
  "cas_inv s \<longleftrightarrow> cas_next s = (next_cid_u ^^ length (cas_log s)) 1
     \<and> cas_log s = map cid_seq [0..<length (cas_log s)]
     \<and> (\<forall>t c. cas_pcs s t = CasReturn c \<longrightarrow> c \<in> set (cas_log s))"

interpretation cas: invariant_system cas_init cas_step cas_inv
proof
  show "cas_inv s" if "cas_init s" for s using that by (simp add: cas_init_def cas_inv_def)
  show "cas_inv t" if "cas_inv s" and "cas_step s t" for s t
    using that(2,1) by (cases rule: cas_step.cases) (auto simp: cas_inv_def cid_seq_def)
qed

lemma cid_seq_pos: "0 <s cid_seq k"
  by (simp add: cid_seq_def next_cid_u_pos)

lemma unat_cid_seq: "unat (cid_seq k) = 1 + Suc k mod (2 ^ 31 - 1)"
  unfolding cid_seq_def by (rule unat_next_cid_u_iter)

lemma cid_seq_inject: "cid_seq i = cid_seq j \<Longrightarrow> i \<le> j \<Longrightarrow> j < i + (2 ^ 31 - 1) \<Longrightarrow> i = j"
  using next_cid_u_iter_inject[of "Suc i" "Suc j"] by (simp add: cid_seq_def)

lemma distinct_cid_seq:
  assumes "n - k \<le> 2 ^ 31 - 1"
  shows "distinct (map cid_seq [k..<n])"
proof -
  have "inj_on cid_seq (set [k..<n])"
  proof (rule inj_onI)
    fix i j assume ij: "i \<in> set [k..<n]" "j \<in> set [k..<n]" "cid_seq i = cid_seq j"
    then have "i < j + (2 ^ 31 - 1)" "j < i + (2 ^ 31 - 1)" using assms by auto
    then show "i = j" using ij(3) cid_seq_inject[of i j] cid_seq_inject[of j i]
      by (cases "i \<le> j") simp_all
  qed
  then show ?thesis by (simp add: distinct_map)
qed

text \<open>Any window of \<open>2^31 - 1\<close> consecutive allocations.\<close>

lemma cas_log_window:
  assumes "reach cas_init cas_step s" and "length (cas_log s) - k \<le> 2 ^ 31 - 1"
  shows "distinct (drop k (cas_log s))"
proof -
  have "cas_log s = map cid_seq [0..<length (cas_log s)]"
    using cas.reach_inv[OF assms(1)] by (simp add: cas_inv_def)
  then have "drop k (cas_log s) = map cid_seq [k..<length (cas_log s)]"
    by (metis add_0 drop_map drop_upt)
  then show ?thesis using distinct_cid_seq[OF assms(2)] by simp
qed

text \<open>Progress: a swap fails only if another task's swap succeeded since the load.\<close>

lemma cas_log_mono: "cas_step\<^sup>*\<^sup>* s t \<Longrightarrow> length (cas_log s) \<le> length (cas_log t)"
  by (induction rule: rtranclp_induct) (auto elim!: cas_stepE)

lemma cas_next_log: "cas_step\<^sup>*\<^sup>* s t \<Longrightarrow> length (cas_log t) = length (cas_log s) \<Longrightarrow> cas_next t = cas_next s"
proof (induction rule: rtranclp_induct)
  case (step t u)
  have "length (cas_log s) \<le> length (cas_log t)" using step.hyps(1) by (rule cas_log_mono)
  then show ?case using step by (auto elim!: cas_stepE)
qed simp

section \<open>The table\<close>

lemma remap_inv_new: "remap_inv (with_max_in_flight n)"
  by (simp add: remap_inv_def with_max_in_flight_def dm.inv_new)

lemma remap_insert_Some:
  "remap_insert tx d k v conn now r m = (Some c, r', m') \<longleftrightarrow>
     in_flight r < remap_limit r \<and> c = next_cid_u (next_cid r) \<and> m' = inc_cid_map_entries m \<and>
     r' = r\<lparr>next_cid := c, remap_map := dm_insert c
       \<lparr>re_downstream_tx = tx, re_cid_d = d, re_api_key = k, re_api_version = v,
        re_started = now, re_conn_id = conn\<rparr> (remap_map r)\<rparr>"
  by (auto simp: remap_ops Let_def)

lemma remap_insert_None:
  "remap_insert tx d k v conn now r m = (None, r', m') \<longleftrightarrow>
     remap_limit r \<le> in_flight r \<and> r' = r \<and> m' = m"
  by (auto simp: remap_ops Let_def)

lemma remap_take_inv [simp]: "remap_inv r \<Longrightarrow> remap_inv (fst (snd (remap_take c r m)))"
  by (simp add: remap_ops Let_def dm.inv_rem)

text \<open>Without interference the clean-up never panics, removes exactly the connection's entries
  and reports their number.\<close>

lemma fail_conn_alone:
  assumes "remap_inv r"
  shows "\<exists>r' n. fail_conn checks id id conn r m = Some (of_nat n, r', sub_cid_map_entries (of_nat n) m)
    \<and> r' = r\<lparr>remap_map := dm_retain (\<lambda>_ e. re_conn_id e \<noteq> conn) (remap_map r)\<rparr>
    \<and> n + in_flight r' = in_flight r"
proof -
  let ?m = "dm_retain (\<lambda>_ e. re_conn_id e \<noteq> conn) (remap_map r)"
  have le: "dm_len ?m \<le> dm_len (remap_map r)" using assms by (simp add: remap_inv_def dm.len_ret_le)
  then have "of_nat (dm_len (remap_map r)) - of_nat (dm_len ?m) = (of_nat (dm_len (remap_map r) - dm_len ?m) :: u64)"
    by (simp add: of_nat_diff)
  then show ?thesis using le
    by (intro exI[of _ "r\<lparr>remap_map := ?m\<rparr>"] exI[of _ "dm_len (remap_map r) - dm_len ?m"])
      (simp add: fail_conn_def Let_def in_flight_def)
qed

lemma fail_conn_count:
  assumes "remap_inv r" and r': "r' = r\<lparr>remap_map := dm_retain (\<lambda>_ e. re_conn_id e \<noteq> conn) (remap_map r)\<rparr>"
    and n: "n + in_flight r' = in_flight r"
  shows "n = card {c. \<exists>e. dm_get (remap_map r) c = Some e \<and> re_conn_id e = conn}"
proof -
  note inv = assms(1)[unfolded remap_inv_def]
  let ?D = "dom (dm_get (remap_map r))"
  let ?C = "{c. \<exists>e. dm_get (remap_map r) c = Some e \<and> re_conn_id e = conn}"
  have fin: "finite ?D" by (rule dm.finite_dom)
  have "dom (dm_get (remap_map r')) = ?D - ?C" by (auto simp: r' dm.dom_ret[OF inv])
  then have "in_flight r' = card ?D - card ?C"
    using card_Diff_subset[of ?C ?D] fin inv
    by (auto simp: in_flight_def dm.len_card r' dm.inv_ret intro: finite_subset)
  moreover have "card ?C \<le> card ?D" using fin by (auto intro!: card_mono)
  ultimately show ?thesis using n inv by (simp add: in_flight_def dm.len_card)
qed

lemma dm_get_retain_conn:
  "dm_inv t \<Longrightarrow> dm_get (dm_retain (\<lambda>_ e. re_conn_id e \<noteq> conn) t) c =
     (case dm_get t c of Some e \<Rightarrow> if re_conn_id e = conn then None else Some e | None \<Rightarrow> None)"
  by (auto simp: dm.get_ret split: option.splits)

lemma insert_take:
  assumes "remap_inv r" and "dm_get (remap_map r) (next_cid_u (next_cid r)) = None"
    and "remap_insert tx d k v conn now r m = (Some c, r1, m1)"
    and "remap_take c r1 m1 = (e, r2, m2)"
  shows "e = Some \<lparr>re_downstream_tx = tx, re_cid_d = d, re_api_key = k, re_api_version = v,
      re_started = now, re_conn_id = conn\<rparr>
    \<and> dm_get (remap_map r2) = dm_get (remap_map r) \<and> in_flight r2 = in_flight r \<and> m2 = m"
proof -
  note inv = assms(1)[unfolded remap_inv_def]
  let ?e = "\<lparr>re_downstream_tx = tx, re_cid_d = d, re_api_key = k, re_api_version = v,
      re_started = now, re_conn_id = conn\<rparr>"
  have r1: "c = next_cid_u (next_cid r)" "m1 = inc_cid_map_entries m" "remap_map r1 = dm_insert c ?e (remap_map r)"
    using assms(3) by (auto simp: remap_insert_Some)
  have g: "dm_get (remap_map r1) c = Some ?e" by (simp add: r1(3) dm.get_ins[OF inv])
  have "m2 = dec_cid_map_entries (inc_cid_map_entries m)"
    using assms(4) g by (simp add: remap_take_def Let_def r1(2))
  then have "m2 = m" by (simp add: dec_cid_map_entries_def inc_cid_map_entries_def metrics_on_def)
  moreover have "remap_map r2 = dm_remove c (dm_insert c ?e (remap_map r))"
    using assms(4) by (auto simp: remap_take_def Let_def r1(3))
  moreover have fresh: "dm_get (remap_map r) c = None" using assms(2) r1(1) by simp
  moreover have "Suc (dm_len (dm_remove c (remap_map r1))) = Suc (dm_len (remap_map r))"
    using dm.len_rem_Some[OF dm.inv_ins[OF inv] g[unfolded r1(3)]] dm.len_ins_fresh[OF inv fresh]
    by (simp add: r1(3))
  moreover have "e = Some ?e" using assms(4) g by (simp add: remap_take_def Let_def)
  ultimately show ?thesis
    using dm.rem_ins_fresh[OF inv fresh] by (simp add: in_flight_def r1(3))
qed

section \<open>Runs of operations on the table\<close>

datatype remap_op =
    RInsert channel i32 i16 i16 conn_id instant
  | RTake i32
  | RFail conn_id

fun run_remap :: "remap_op \<Rightarrow> cid_remap \<times> metrics \<Rightarrow> cid_remap \<times> metrics" where
  "run_remap (RInsert tx d k v conn now) (r, m) = snd (remap_insert tx d k v conn now r m)"
| "run_remap (RTake c) (r, m) = snd (remap_take c r m)"
| "run_remap (RFail conn) (r, m) =
     (case fail_conn True id id conn r m of Some (_, r', m') \<Rightarrow> (r', m') | None \<Rightarrow> (r, m))"

definition is_insert :: "remap_op \<Rightarrow> bool" where
  "is_insert op = (case op of RInsert _ _ _ _ _ _ \<Rightarrow> True | _ \<Rightarrow> False)"

text \<open>After at most \<open>n\<close> insertions: the counter has moved at most \<open>n\<close> steps, every key is one of
  the ids drawn, and the gauge is the size.\<close>

definition table_ok :: "nat \<Rightarrow> nat \<Rightarrow> cid_remap \<times> metrics \<Rightarrow> bool" where
  "table_ok limit n s \<longleftrightarrow>
     (case s of (r, m) \<Rightarrow>
        remap_inv r \<and> remap_limit r = limit \<and> in_flight r \<le> limit \<and> metrics_on m
        \<and> cid_map_entries m = of_nat (in_flight r)
        \<and> (\<exists>k \<le> n. next_cid r = (next_cid_u ^^ k) 1 \<and> dom (dm_get (remap_map r)) \<subseteq> cid_seq ` {..<k}))"

lemma table_ok_mono: "table_ok l n s \<Longrightarrow> n \<le> n' \<Longrightarrow> table_ok l n' s"
  unfolding table_ok_def by (cases s) (auto intro: order_trans)

lemma table_ok_insert:
  assumes ok: "table_ok l n (r, m)" and n: "n < 2 ^ 31 - 1"
  shows "table_ok l (Suc n) (snd (remap_insert tx d k v conn now r m))"
proof (cases "in_flight r < remap_limit r")
  case False
  then have "snd (remap_insert tx d k v conn now r m) = (r, m)"
    by (simp add: remap_ops)
  then show ?thesis using ok table_ok_mono[of l n "(r, m)" "Suc n"] by simp
next
  case True
  from ok obtain j where j: "j \<le> n" "next_cid r = (next_cid_u ^^ j) 1"
    "dom (dm_get (remap_map r)) \<subseteq> cid_seq ` {..<j}"
    by (auto simp: table_ok_def)
  have c: "next_cid_u (next_cid r) = cid_seq j" by (simp add: j(2) cid_seq_def)
  have "cid_seq j \<notin> cid_seq ` {..<j}" using cid_seq_inject[of _ j] j(1) n by fastforce
  then have fresh: "dm_get (remap_map r) (cid_seq j) = None" using j(3) by auto
  have inv: "dm_inv (remap_map r)" using ok by (simp add: table_ok_def remap_inv_def)
  let ?e = "\<lparr>re_downstream_tx = tx, re_cid_d = d, re_api_key = k, re_api_version = v,
    re_started = now, re_conn_id = conn\<rparr>"
  have len: "dm_len (dm_insert (cid_seq j) ?e (remap_map r)) = Suc (dm_len (remap_map r))"
    by (rule dm.len_ins_fresh[OF inv fresh])
  have dom: "dom (dm_get (dm_insert (cid_seq j) ?e (remap_map r))) \<subseteq> cid_seq ` {..<Suc j}"
    using j(3) by (auto simp: dm.get_ins[OF inv])
  have nxt: "cid_seq j = (next_cid_u ^^ Suc j) 1" by (simp add: cid_seq_def)
  have "snd (remap_insert tx d k v conn now r m) =
      (r\<lparr>next_cid := cid_seq j, remap_map := dm_insert (cid_seq j) ?e (remap_map r)\<rparr>, inc_cid_map_entries m)"
    using True by (simp add: remap_ops Let_def c)
  moreover have "\<exists>i \<le> Suc n. cid_seq j = (next_cid_u ^^ i) 1 \<and>
      dom (dm_get (dm_insert (cid_seq j) ?e (remap_map r))) \<subseteq> cid_seq ` {..<i}"
    using nxt dom j(1) by (intro exI[of _ "Suc j"]) simp
  ultimately show ?thesis using True ok len
    by (simp add: table_ok_def remap_inv_def in_flight_def dm.inv_ins[OF inv]
        inc_cid_map_entries_def metrics_on_def)
qed

lemma table_ok_take:
  assumes ok: "table_ok l n (r, m)"
  shows "table_ok l n (snd (remap_take c r m))"
proof -
  have inv: "dm_inv (remap_map r)" using ok by (simp add: table_ok_def remap_inv_def)
  show ?thesis
  proof (cases "dm_get (remap_map r) c")
    case None
    then show ?thesis using ok inv
      by (auto simp: table_ok_def remap_ops Let_def dm.inv_rem dm.len_rem dm.get_rem)
  next
    case (Some e)
    have len: "dm_len (remap_map r) = Suc (dm_len (dm_remove c (remap_map r)))"
      by (rule dm.len_rem_Some[OF inv Some, symmetric])
    show ?thesis using ok inv Some
      by (auto simp: table_ok_def remap_ops Let_def dm.inv_rem dm.get_rem dec_cid_map_entries_def
          metrics_on_def len)
  qed
qed

lemma table_ok_fail:
  assumes ok: "table_ok l n (r, m)"
  shows "table_ok l n (run_remap (RFail conn) (r, m))"
proof -
  have inv: "remap_inv r" and dminv: "dm_inv (remap_map r)" using ok by (simp_all add: table_ok_def remap_inv_def)
  from fail_conn_alone[OF inv, of True conn m] obtain r' removed where
    f: "fail_conn True id id conn r m = Some (of_nat removed, r', sub_cid_map_entries (of_nat removed) m)"
    "r' = r\<lparr>remap_map := dm_retain (\<lambda>_ e. re_conn_id e \<noteq> conn) (remap_map r)\<rparr>"
    and len: "in_flight r = removed + in_flight r'"
    by (auto simp: eq_commute)
  have "dom (dm_get (remap_map r')) \<subseteq> dom (dm_get (remap_map r))"
    using dminv by (auto simp: f(2) dm.dom_ret)
  moreover obtain k where "k \<le> n" "next_cid r = (next_cid_u ^^ k) 1"
    "dom (dm_get (remap_map r)) \<subseteq> cid_seq ` {..<k}"
    using ok by (auto simp: table_ok_def)
  ultimately have "\<exists>k \<le> n. next_cid r' = (next_cid_u ^^ k) 1 \<and> dom (dm_get (remap_map r')) \<subseteq> cid_seq ` {..<k}"
    by (intro exI[of _ k]) (simp add: f(2))
  then show ?thesis using ok f len dminv
    by (simp add: table_ok_def remap_inv_def dm.inv_ret sub_cid_map_entries_def metrics_on_def)
qed

lemma table_ok_run:
  "table_ok l n s \<Longrightarrow> n + length (filter is_insert ops) \<le> 2 ^ 31 - 1 \<Longrightarrow>
     table_ok l (n + length (filter is_insert ops)) (fold run_remap ops s)"
proof (induction ops arbitrary: n s)
  case (Cons op ops)
  obtain r m where s: "s = (r, m)" by (cases s)
  show ?case
  proof (cases op)
    case (RInsert tx d k v conn now)
    then have "table_ok l (Suc n) (run_remap op s)"
      using table_ok_insert[of l n r m] Cons.prems by (simp add: s is_insert_def)
    then show ?thesis using Cons.IH[of "Suc n" "run_remap op s"] Cons.prems RInsert by (simp add: is_insert_def)
  next
    case (RTake c)
    then have "table_ok l n (run_remap op s)" using table_ok_take[of l n r m] Cons.prems by (simp add: s)
    then show ?thesis using Cons.IH[of n "run_remap op s"] Cons.prems RTake by (simp add: is_insert_def)
  next
    case (RFail conn)
    then have "table_ok l n (run_remap op s)" using table_ok_fail[of l n r m] Cons.prems by (simp add: s)
    then show ?thesis using Cons.IH[of n "run_remap op s"] Cons.prems RFail by (simp add: is_insert_def)
  qed
qed simp

text \<open>An entry stays in the table as long as nobody takes it and its connection lives.\<close>

lemma table_ok_fresh:
  assumes "table_ok l n (r, m)" and "n < 2 ^ 31 - 1"
  shows "dm_get (remap_map r) (next_cid_u (next_cid r)) = None"
proof -
  from assms(1) obtain j where j: "j \<le> n" "next_cid r = (next_cid_u ^^ j) 1"
    "dom (dm_get (remap_map r)) \<subseteq> cid_seq ` {..<j}"
    by (auto simp: table_ok_def)
  have "cid_seq j \<notin> cid_seq ` {..<j}" using cid_seq_inject[of _ j] j(1) assms(2) by fastforce
  then show ?thesis using j(2,3) by (auto simp: cid_seq_def)
qed

lemma entry_stable_step:
  assumes ok: "table_ok l n (r, m)" and e: "dm_get (remap_map r) c = Some e"
    and op: "op \<noteq> RTake c" "op \<noteq> RFail (re_conn_id e)" and n: "is_insert op \<longrightarrow> n < 2 ^ 31 - 1"
  shows "dm_get (remap_map (fst (run_remap op (r, m)))) c = Some e"
proof -
  have inv: "dm_inv (remap_map r)" using ok by (simp add: table_ok_def remap_inv_def)
  show ?thesis
  proof (cases op)
    case (RInsert tx d k v conn now)
    then have "next_cid_u (next_cid r) \<noteq> c" using table_ok_fresh[OF ok] e n by (auto simp: is_insert_def)
    then show ?thesis using RInsert e inv by (simp add: remap_ops Let_def dm.get_ins)
  next
    case (RTake c')
    then show ?thesis using op(1) e inv by (simp add: remap_ops Let_def dm.get_rem)
  next
    case (RFail conn)
    have "remap_inv r" using inv by (simp add: remap_inv_def)
    from fail_conn_alone[OF this, of True conn m] obtain n' where
      "fail_conn True id id conn r m = Some (n', r\<lparr>remap_map := dm_retain (\<lambda>_ e. re_conn_id e \<noteq> conn) (remap_map r)\<rparr>,
         sub_cid_map_entries n' m)" by blast
    then show ?thesis using RFail op(2) e inv by (simp add: dm_get_retain_conn)
  qed
qed

lemma entry_stable_run:
  "table_ok l n s \<Longrightarrow> dm_get (remap_map (fst s)) c = Some e \<Longrightarrow>
     \<forall>op \<in> set ops. op \<noteq> RTake c \<and> op \<noteq> RFail (re_conn_id e) \<Longrightarrow>
     n + length (filter is_insert ops) \<le> 2 ^ 31 - 1 \<Longrightarrow>
     dm_get (remap_map (fst (fold run_remap ops s))) c = Some e"
proof (induction ops arbitrary: n s)
  case (Cons op ops)
  obtain r m where s: "s = (r, m)" by (cases s)
  let ?n = "n + length (filter is_insert [op])"
  have bound: "?n + length (filter is_insert ops) \<le> 2 ^ 31 - 1"
    using Cons.prems(4) by (cases "is_insert op") simp_all
  have ok: "table_ok l ?n (run_remap op s)"
    using table_ok_run[OF Cons.prems(1), of "[op]"] bound by simp
  have "dm_get (remap_map (fst (run_remap op s))) c = Some e"
    using entry_stable_step[of l n r m c e op] Cons.prems bound by (simp add: s split: if_splits)
  from Cons.IH[OF ok this _ bound] Cons.prems(3) show ?case by simp
qed simp

lemma table_ok_start: "table_ok l 0 (with_max_in_flight l, metrics_new True)"
  using remap_inv_new[of l]
  by (simp add: table_ok_def with_max_in_flight_def in_flight_def dm.len_new dm.get_new
      metrics_new_def metrics_on_def dom_def)

section \<open>Concurrent insertions\<close>

text \<open>Tasks \<open>0..<tasks\<close> insert concurrently: the length check of one and its insertion are two
  steps, and takes and clean-ups run in between.\<close>

record race_state =
  race_remap :: cid_remap
  race_metrics :: metrics
  race_pending :: "nat set"

inductive race_step :: "nat \<Rightarrow> race_state \<Rightarrow> race_state \<Rightarrow> bool" for tasks :: nat where
  race_check: "i < tasks \<Longrightarrow> i \<notin> race_pending s \<Longrightarrow> insert_check (race_remap s) \<Longrightarrow>
     race_step tasks s (s\<lparr>race_pending := insert i (race_pending s)\<rparr>)"
| race_commit: "i \<in> race_pending s \<Longrightarrow>
     insert_commit tx d k v conn now (race_remap s) (race_metrics s) = (c, r', m') \<Longrightarrow>
     race_step tasks s (s\<lparr>race_remap := r', race_metrics := m', race_pending := race_pending s - {i}\<rparr>)"
| race_take: "remap_take c (race_remap s) (race_metrics s) = (e, r', m') \<Longrightarrow>
     race_step tasks s (s\<lparr>race_remap := r', race_metrics := m'\<rparr>)"
| race_fail: "fail_conn True id id conn (race_remap s) (race_metrics s) = Some (n, r', m') \<Longrightarrow>
     race_step tasks s (s\<lparr>race_remap := r', race_metrics := m'\<rparr>)"

definition race_init :: "nat \<Rightarrow> race_state \<Rightarrow> bool" where
  "race_init limit s \<longleftrightarrow> race_remap s = with_max_in_flight limit \<and> race_pending s = {}"

lemma race_max: "reach (race_init limit) (race_step tasks) s \<Longrightarrow> remap_limit (race_remap s) = limit"
proof (induction rule: reach.induct)
  case (reach_step s t)
  from reach_step.hyps(2) show ?case using reach_step.IH
    by (cases rule: race_step.cases) (auto simp: insert_commit_def alloc_cid_u_def remap_take_def
        fail_conn_def Let_def split: if_splits)
qed (simp add: race_init_def with_max_in_flight_def)

lemma dm_len_le: "dm_len (dm_insert k v t) \<le> Suc (dm_len t)" "dm_len (dm_remove k t) \<le> dm_len t"
  "dm_len (dm_retain P t) \<le> dm_len t"
  by (simp_all add: dm_len_def dm_insert_def dm_remove_def dm_retain_def)

lemma race_kinds:
  assumes r: "reach (race_init limit) (race_step tasks) s" and st: "race_step tasks s t"
  shows "(\<exists>i < tasks. i \<notin> race_pending s \<and> in_flight (race_remap s) < limit
        \<and> in_flight (race_remap t) = in_flight (race_remap s) \<and> race_pending t = insert i (race_pending s)) \<or>
      (\<exists>i \<in> race_pending s. in_flight (race_remap t) \<le> Suc (in_flight (race_remap s))
        \<and> race_pending t = race_pending s - {i}) \<or>
      (in_flight (race_remap t) \<le> in_flight (race_remap s) \<and> race_pending t \<subseteq> race_pending s)"
  using st
proof (cases rule: race_step.cases)
  case (race_check i)
  then show ?thesis using race_max[OF r] by (auto simp: insert_check_def in_flight_def)
next
  case (race_commit i tx d k v conn now c r' m')
  then show ?thesis
    by (auto simp: insert_commit_def alloc_cid_u_def in_flight_def Let_def dm_len_le)
qed (auto simp: remap_take_def fail_conn_def in_flight_def Let_def dm_len_le split: if_splits)

interpretation race: admission "race_init limit" "race_step tasks"
    "\<lambda>s. in_flight (race_remap s)" race_pending limit tasks
proof
  show "in_flight (race_remap s) = 0 \<and> race_pending s = {}" if "race_init limit s" for s
    using that by (simp add: race_init_def with_max_in_flight_def in_flight_def dm.len_new)
qed (rule race_kinds)

section \<open>Properties\<close>

text \<open>C12: Under any interleaving of the compare-and-swap loops, the ids handed out in any window
  of \<open>2^31 - 1\<close> consecutive allocations are pairwise distinct, and every id is positive.\<close>

theorem cid_ids_unique:
  assumes "reach cas_init cas_step s" and "length (cas_log s) - k \<le> 2 ^ 31 - 1"
  shows "distinct (drop k (cas_log s)) \<and> (\<forall>c \<in> set (cas_log s). 0 <s c)"
proof
  show "distinct (drop k (cas_log s))" using assms by (rule cas_log_window)
  have "cas_log s = map cid_seq [0..<length (cas_log s)]"
    using cas.reach_inv[OF assms(1)] by (simp add: cas_inv_def)
  then show "\<forall>c \<in> set (cas_log s). 0 <s c" by (metis cid_seq_pos in_set_conv_nth length_map nth_map)
qed

text \<open>A run of two tasks: both load 1, the first swaps, the second's swap fails, and it retries.\<close>

definition cas_demo :: "nat \<Rightarrow> cas_state" where
  "cas_demo n =
     \<lparr>cas_next = [1, 1, 1, 2, 2, 2, 3] ! n,
      cas_pcs = (\<lambda>_. CasLoad)
        (0 := [CasLoad, CasSwap 1, CasSwap 1, CasReturn 2, CasReturn 2, CasReturn 2, CasReturn 2] ! n,
         1 := [CasLoad, CasLoad, CasSwap 1, CasSwap 1, CasLoad, CasSwap 2, CasReturn 3] ! n),
      cas_log = [[], [], [], [2], [2], [2], [2, 3]] ! n\<rparr>"

lemma next_cid_one: "next_cid_u 1 = 2" "next_cid_u 2 = 3"
  by (simp_all add: next_cid_u_def i32_max_def word_sle_eq)

lemma cas_demo_steps: "cas_step (cas_demo 0) (cas_demo 1)" "cas_step (cas_demo 1) (cas_demo 2)"
  "cas_step (cas_demo 2) (cas_demo 3)" "cas_step (cas_demo 3) (cas_demo 4)"
  "cas_step (cas_demo 4) (cas_demo 5)" "cas_step (cas_demo 5) (cas_demo 6)"
proof -
  show "cas_step (cas_demo 0) (cas_demo 1)"
    by (rule back_subst[of "cas_step (cas_demo 0)", OF cas_load[of "cas_demo 0" 0]])
      (simp_all add: cas_demo_def next_cid_one fun_eq_iff)
  show "cas_step (cas_demo 1) (cas_demo 2)"
    by (rule back_subst[of "cas_step (cas_demo 1)", OF cas_load[of "cas_demo 1" 1]])
      (simp_all add: cas_demo_def next_cid_one fun_eq_iff)
  show "cas_step (cas_demo 2) (cas_demo 3)"
    by (rule back_subst[of "cas_step (cas_demo 2)", OF cas_ok[of "cas_demo 2" 0 1]])
      (simp_all add: cas_demo_def next_cid_one fun_eq_iff)
  show "cas_step (cas_demo 3) (cas_demo 4)"
    by (rule back_subst[of "cas_step (cas_demo 3)", OF cas_retry[of "cas_demo 3" 1 1]])
      (simp_all add: cas_demo_def next_cid_one fun_eq_iff)
  show "cas_step (cas_demo 4) (cas_demo 5)"
    by (rule back_subst[of "cas_step (cas_demo 4)", OF cas_load[of "cas_demo 4" 1]])
      (simp_all add: cas_demo_def next_cid_one fun_eq_iff)
  show "cas_step (cas_demo 5) (cas_demo 6)"
    by (rule back_subst[of "cas_step (cas_demo 5)", OF cas_ok[of "cas_demo 5" 1 2]])
      (simp_all add: cas_demo_def next_cid_one fun_eq_iff)
qed

lemma cas_demo_reach: "reach cas_init cas_step (cas_demo 6)"
proof -
  have "reach cas_init cas_step (cas_demo 0)" by (rule reach_init) (simp add: cas_init_def cas_demo_def)
  note start = reach_step[where step = cas_step, OF this cas_demo_steps(1)]
  note mid = reach_step[where step = cas_step, OF reach_step[where step = cas_step, OF start cas_demo_steps(2)] cas_demo_steps(3)]
  show ?thesis
    by (rule reach_step[where step = cas_step, OF reach_step[where step = cas_step, OF
          reach_step[where step = cas_step, OF mid cas_demo_steps(4)] cas_demo_steps(5)] cas_demo_steps(6)])
qed

theorem cid_ids_unique_witness: "distinct (cas_log (cas_demo 6)) \<and> cas_log (cas_demo 6) = [2, 3]"
  using cid_ids_unique[OF cas_demo_reach, of 0] by (simp add: cas_demo_def)

text \<open>The loop is lock-free: if a task's compare-and-swap fails, some task's swap has succeeded
  since its load, so the loops cannot all retry for ever.\<close>

theorem alloc_lock_free:
  assumes "cas_step\<^sup>*\<^sup>* s t" and "cas_next t \<noteq> cas_next s"
  shows "length (cas_log s) < length (cas_log t)"
  using cas_log_mono[OF assms(1)] cas_next_log[OF assms(1)] assms(2) by linarith

theorem alloc_lock_free_witness: "length (cas_log (cas_demo 2)) < length (cas_log (cas_demo 3))"
proof (rule alloc_lock_free)
  show "cas_step\<^sup>*\<^sup>* (cas_demo 2) (cas_demo 3)" using cas_demo_steps(3) by simp
  show "cas_next (cas_demo 3) \<noteq> cas_next (cas_demo 2)" by (simp add: cas_demo_def)
qed

text \<open>C14: Registering a request and taking its id gives back exactly the registered route and
  leaves every other in-flight entry, the number of entries and the gauge as they were.\<close>

theorem insert_take_roundtrip:
  assumes "remap_inv r" and "dm_get (remap_map r) (next_cid_u (next_cid r)) = None"
    and "remap_insert tx d k v conn now r m = (Some c, r1, m1)"
    and "remap_take c r1 m1 = (e, r2, m2)"
  shows "e = Some \<lparr>re_downstream_tx = tx, re_cid_d = d, re_api_key = k, re_api_version = v,
      re_started = now, re_conn_id = conn\<rparr>
    \<and> dm_get (remap_map r2) = dm_get (remap_map r) \<and> in_flight r2 = in_flight r \<and> m2 = m"
  using assms by (rule insert_take)

theorem insert_take_roundtrip_witness:
  "\<exists>c r1 m1 e r2 m2.
     remap_insert 7 42 3 9 1 0 (with_max_in_flight 1) (metrics_new True) = (Some c, r1, m1)
     \<and> remap_take c r1 m1 = (e, r2, m2) \<and> e \<noteq> None \<and> in_flight r2 = 0 \<and> m2 = metrics_new True"
proof -
  obtain c r1 m1 where i: "remap_insert 7 42 3 9 1 0 (with_max_in_flight 1) (metrics_new True) = (Some c, r1, m1)"
    by (simp add: remap_ops Let_def with_max_in_flight_def dm.len_new)
  obtain e r2 m2 where t: "remap_take c r1 m1 = (e, r2, m2)" by (cases "remap_take c r1 m1")
  have "dm_get (remap_map (with_max_in_flight 1)) x = None" for x
    by (simp add: with_max_in_flight_def dm.get_new)
  from insert_take_roundtrip[OF remap_inv_new this i t] show ?thesis
    using i t by (auto simp: in_flight_def with_max_in_flight_def dm.len_new)
qed

text \<open>For the first \<open>2^31 - 1\<close> insertions into a fresh table, whatever takes and connection
  failures come between, the table never exceeds its limit and the \<open>cid_map_entries\<close> gauge is
  exactly the number of requests in flight.\<close>

theorem cid_gauge_is_size:
  assumes "length (filter is_insert ops) \<le> 2 ^ 31 - 1"
    and "fold run_remap ops (with_max_in_flight limit, metrics_new True) = (r, m)"
  shows "cid_map_entries m = of_nat (in_flight r) \<and> in_flight r \<le> limit"
  using table_ok_run[OF table_ok_start, of ops limit] assms by (simp add: table_ok_def)

theorem cid_gauge_is_size_witness:
  "\<exists>r m. fold run_remap [RInsert 0 5 3 9 1 0, RInsert 0 6 3 9 2 0, RInsert 0 7 3 9 1 0, RFail 1]
       (with_max_in_flight 2, metrics_new True) = (r, m)
     \<and> cid_map_entries m = of_nat (in_flight r) \<and> in_flight r = 1"
proof -
  let ?ops = "[RInsert 0 5 3 9 1 0, RInsert 0 6 3 9 2 0, RInsert 0 7 3 9 1 0, RFail 1]"
  let ?s = "fold run_remap ?ops (with_max_in_flight 2, metrics_new True)"
  have "in_flight (fst ?s) = 1"
    by (simp add: remap_ops Let_def with_max_in_flight_def dm_new_def dm_len_def dm_insert_def
        dm_remove_def dm_retain_def fail_conn_def next_cid_u_def i32_max_def word_sle_eq)
  moreover have "length (filter is_insert ?ops) \<le> 2 ^ 31 - 1" by (simp add: is_insert_def)
  ultimately show ?thesis using cid_gauge_is_size[of ?ops 2 "fst ?s" "snd ?s"]
    by (intro exI[of _ "fst ?s"] exI[of _ "snd ?s"]) (simp del: fold_simps run_remap.simps)
qed

text \<open>C16: When an upstream connection fails, exactly its requests leave the table: the reported
  number is how many there were, requests of other connections keep their routes, and without
  interference the clean-up cannot panic.\<close>

theorem fail_conn_exact:
  assumes "remap_inv r"
  shows "\<exists>r' n. fail_conn checks id id conn r m = Some (of_nat n, r', sub_cid_map_entries (of_nat n) m)
    \<and> n = card {c. \<exists>e. dm_get (remap_map r) c = Some e \<and> re_conn_id e = conn}
    \<and> (\<forall>c. dm_get (remap_map r') c =
         (case dm_get (remap_map r) c of
            Some e \<Rightarrow> if re_conn_id e = conn then None else Some e
          | None \<Rightarrow> None))"
proof -
  from fail_conn_alone[OF assms, of checks conn m] obtain r' n where
    f: "fail_conn checks id id conn r m = Some (of_nat n, r', sub_cid_map_entries (of_nat n) m)"
    "r' = r\<lparr>remap_map := dm_retain (\<lambda>_ e. re_conn_id e \<noteq> conn) (remap_map r)\<rparr>"
    "n + in_flight r' = in_flight r" by blast
  then show ?thesis using fail_conn_count[OF assms f(2,3)] dm_get_retain_conn[of "remap_map r"] assms
    by (auto simp: remap_inv_def)
qed

text \<open>A table with one request of connection 1 and one of connection 2.\<close>

definition demo_table :: "cid_remap \<times> metrics" where
  "demo_table = fold run_remap [RInsert 0 5 3 9 1 0, RInsert 1 6 3 9 2 0] (with_max_in_flight 2, metrics_new True)"

lemma demo_table_map:
  "remap_map (fst demo_table) =
     [(3, \<lparr>re_downstream_tx = 1, re_cid_d = 6, re_api_key = 3, re_api_version = 9, re_started = 0, re_conn_id = 2\<rparr>),
      (2, \<lparr>re_downstream_tx = 0, re_cid_d = 5, re_api_key = 3, re_api_version = 9, re_started = 0, re_conn_id = 1\<rparr>)]"
  by (simp add: demo_table_def remap_ops Let_def with_max_in_flight_def dm_new_def dm_len_def dm_insert_def
      dm_remove_def next_cid_u_def i32_max_def word_sle_eq)

lemma demo_table_inv: "remap_inv (fst demo_table)"
  by (simp add: remap_inv_def dm_inv_def demo_table_map)

theorem fail_conn_exact_witness:
  "\<exists>r'. fail_conn True id id 1 (fst demo_table) (metrics_new True) =
     Some (1, r', sub_cid_map_entries 1 (metrics_new True)) \<and> dm_get (remap_map r') 2 = None
     \<and> dm_get (remap_map r') 3 \<noteq> None"
proof -
  have "{c. \<exists>e. dm_get (remap_map (fst demo_table)) c = Some e \<and> re_conn_id e = 1} = {2}"
    by (auto simp: demo_table_map dm_get_def split: if_splits)
  then show ?thesis
    using fail_conn_exact[OF demo_table_inv, of True 1 "metrics_new True"]
    by (auto simp: demo_table_map dm_get_def)
qed



text \<open>C32: The length check and the insertion are two steps: with \<open>tasks\<close> concurrent inserters the
  number of requests in flight can pass the limit by at most \<open>tasks - 1\<close>, and not at all if the limit
  is zero (the witness is a run
  where two inserters put two requests into a table of limit one).\<close>

theorem concurrent_insert_bound:
  assumes "reach (race_init limit) (race_step tasks) s"
  shows "in_flight (race_remap s) \<le> (if limit = 0 then 0 else (limit - 1) + tasks)"
  using assms by (rule race.level_bound)

lemma race_overshoot:
  "\<exists>s. reach (race_init 1) (race_step 2) s \<and> in_flight (race_remap s) = 2"
proof -
  let ?s0 = "\<lparr>race_remap = with_max_in_flight 1, race_metrics = metrics_new True, race_pending = {}\<rparr>"
  let ?s2 = "?s0\<lparr>race_pending := {0, 1}\<rparr>"
  let ?ins = "\<lambda>tx (r, m). snd (insert_commit tx 5 3 9 1 0 r m)"
  let ?a = "?ins 0 (with_max_in_flight 1, metrics_new True)"
  let ?b = "?ins 1 ?a"
  let ?s4 = "\<lparr>race_remap = fst ?b, race_metrics = snd ?b, race_pending = {}\<rparr>"
  have c: "insert_check (with_max_in_flight 1)"
    by (simp add: insert_check_def with_max_in_flight_def dm.len_new)
  have "reach (race_init 1) (race_step 2) ?s0" by (rule reach_init) (simp add: race_init_def)
  then have "reach (race_init 1) (race_step 2) (?s0\<lparr>race_pending := {0}\<rparr>)"
    using race_check[of 0 2 ?s0] c by (auto intro: reach_step)
  then have "reach (race_init 1) (race_step 2) ?s2"
    using race_check[of 1 2 "?s0\<lparr>race_pending := {0}\<rparr>"] c by (auto intro: reach_step simp: insert_commute)
  then have "reach (race_init 1) (race_step 2) (?s2\<lparr>race_remap := fst ?a, race_metrics := snd ?a, race_pending := {1}\<rparr>)"
    using race_commit[of 0 ?s2 0 5 3 9 1 0 _ "fst ?a" "snd ?a" 2]
    by (elim reach_step) (simp add: insert_Diff_if insert_commit_def alloc_cid_u_def Let_def)
  then have "reach (race_init 1) (race_step 2) ?s4"
    using race_commit[of 1 "?s2\<lparr>race_remap := fst ?a, race_metrics := snd ?a, race_pending := {1}\<rparr>" 1 5 3 9 1 0 _ "fst ?b" "snd ?b" 2]
    by (elim reach_step) (simp add: insert_commit_def alloc_cid_u_def Let_def)
  moreover have "in_flight (race_remap ?s4) = 2"
    by (simp add: insert_commit_def alloc_cid_u_def Let_def in_flight_def with_max_in_flight_def dm_new_def
        dm_len_def dm_insert_def dm_remove_def next_cid_u_def i32_max_def word_sle_eq)
  ultimately show ?thesis by blast
qed

theorem concurrent_insert_bound_witness:
  "\<exists>s. reach (race_init 1) (race_step 2) s \<and> in_flight (race_remap s) = 2 \<and> in_flight (race_remap s) \<le> 2"
  using race_overshoot concurrent_insert_bound[of 1 2] by fastforce

text \<open>If the counter wraps onto an id that is still in flight, the insertion overwrites that
  request's route: the number in flight does not grow while the gauge does, and the id now
  answers to the new request only.\<close>

theorem wrapped_id_overwrites:
  assumes "remap_inv r" and "dm_get (remap_map r) (next_cid_u (next_cid r)) = Some old"
    and "remap_insert tx d k v conn now r m = (Some c, r1, m1)" and "metrics_on m"
  shows "in_flight r1 = in_flight r \<and> cid_map_entries m1 = cid_map_entries m + 1
    \<and> map_option re_cid_d (dm_get (remap_map r1) c) = Some d"
proof -
  note inv = assms(1)[unfolded remap_inv_def]
  from assms(3) have r1: "c = next_cid_u (next_cid r)" "m1 = inc_cid_map_entries m"
    "remap_map r1 = dm_insert c \<lparr>re_downstream_tx = tx, re_cid_d = d, re_api_key = k, re_api_version = v,
       re_started = now, re_conn_id = conn\<rparr> (remap_map r)"
    by (auto simp: remap_insert_Some)
  show ?thesis using assms(2,4) inv
    by (simp add: r1 in_flight_def dm.len_ins_old[OF inv assms(2)] dm.get_ins inc_cid_map_entries_def)
qed

theorem wrapped_id_overwrites_witness:
  "\<exists>c r1 m1. remap_insert 9 99 3 9 1 0 ((fst demo_table)\<lparr>next_cid := 1, remap_limit := 3\<rparr>) (metrics_new True)
     = (Some c, r1, m1) \<and> in_flight r1 = 2 \<and> cid_map_entries m1 = 1"
proof -
  let ?r = "(fst demo_table)\<lparr>next_cid := 1, remap_limit := 3\<rparr>"
  obtain c r1 m1 where i: "remap_insert 9 99 3 9 1 0 ?r (metrics_new True) = (Some c, r1, m1)"
    by (simp add: remap_ops Let_def demo_table_map dm_len_def)
  have "remap_inv ?r" using demo_table_inv by (simp add: remap_inv_def)
  moreover have "\<exists>old. dm_get (remap_map ?r) (next_cid_u (next_cid ?r)) = Some old"
    by (simp add: next_cid_one demo_table_map dm_get_def)
  moreover have "metrics_on (metrics_new True)" by (simp add: metrics_on_def metrics_new_def)
  ultimately have "in_flight r1 = in_flight ?r \<and> cid_map_entries m1 = cid_map_entries (metrics_new True) + 1"
    using wrapped_id_overwrites[OF _ _ i] by blast
  then show ?thesis using i by (auto simp: in_flight_def demo_table_map dm_len_def metrics_new_def)
qed

end
