(* ===== verification/Config.thy ===== *)
theory Config
  imports RustStr
begin

text \<open>
  The configuration of \<open>src/src/config.rs\<close>: the sections as records with their serde
  defaults, the duration syntax, and \<open>validate\<close>. The TOML parser is not part of the
  repository: a parsed document is a record of optional values (\<open>raw_*\<close>), and the \<open>fill_*\<close>
  functions are what the serde attributes say of missing keys and sections. Error messages
  are the constructors of \<open>config_invalid\<close>.
\<close>

section \<open>Durations\<close>

text \<open>A \<open>Duration\<close> is its number of nanoseconds.\<close>

type_synonym duration = nat

definition from_secs :: "nat \<Rightarrow> duration" where "from_secs n = n * 1000000000"
definition from_millis :: "nat \<Rightarrow> duration" where "from_millis n = n * 1000000"
definition from_micros :: "nat \<Rightarrow> duration" where "from_micros n = n * 1000"

datatype duration_error =
    BadMillis string
  | BadMicros string
  | BadDuration string
  | BadDurationValue string
  | MulOverflow \<comment> \<open>the panic of \<open>n * mul\<close> where overflow checks are on\<close>

text \<open>\<open>n * mul\<close> on \<open>u64\<close>: a panic in a build with overflow checks, the wrapped product in one
  without (Rust's debug and release profiles).\<close>

definition mul_u64 :: "bool \<Rightarrow> nat \<Rightarrow> nat \<Rightarrow> duration_error + nat" where
  "mul_u64 checks n k =
     (if n * k \<le> u64_max then Inr (n * k)
      else if checks then Inl MulOverflow else Inr ((n * k) mod (u64_max + 1)))"

definition parse_duration_str :: "bool \<Rightarrow> string \<Rightarrow> duration_error + duration" where
  "parse_duration_str checks s0 =
     (let s = trim s0 in
      case strip_suffix ''ms'' s of
        Some num \<Rightarrow> (case parse_u64 num of Some n \<Rightarrow> Inr (from_millis n) | None \<Rightarrow> Inl (BadMillis s))
      | None \<Rightarrow>
     (case strip_suffix ''us'' s of
        Some num \<Rightarrow> (case parse_u64 num of Some n \<Rightarrow> Inr (from_micros n) | None \<Rightarrow> Inl (BadMicros s))
      | None \<Rightarrow>
     (case (case strip_suffix ''s'' s of Some n \<Rightarrow> Some (n, 1)
            | None \<Rightarrow> (case strip_suffix ''m'' s of Some n \<Rightarrow> Some (n, 60)
            | None \<Rightarrow> (case strip_suffix ''h'' s of Some n \<Rightarrow> Some (n, 3600)
            | None \<Rightarrow> None))) of
        None \<Rightarrow> (case parse_u64 s of Some n \<Rightarrow> Inr (from_secs n) | None \<Rightarrow> Inl (BadDuration s))
      | Some (num_str, k) \<Rightarrow>
          (case parse_u64 num_str of
             Some n \<Rightarrow> (case mul_u64 checks n k of Inr p \<Rightarrow> Inr (from_secs p) | Inl e \<Rightarrow> Inl e)
           | None \<Rightarrow> Inl (BadDurationValue s)))))"

text \<open>What a TOML value can be where a duration is expected; other values are a type error of
  the deserializer.\<close>

datatype toml_value = TStr string | TI64 int | TU64 nat | TOther

datatype de_error = DurationError duration_error | WrongType

definition deserialize_duration :: "bool \<Rightarrow> toml_value \<Rightarrow> de_error + duration" where
  "deserialize_duration checks v =
     (case v of
        TStr s \<Rightarrow> (case parse_duration_str checks s of Inr d \<Rightarrow> Inr d | Inl e \<Rightarrow> Inl (DurationError e))
      | TI64 i \<Rightarrow> Inr (from_secs (nat (max i 0)))
      | TU64 n \<Rightarrow> Inr (from_secs n)
      | TOther \<Rightarrow> Inl WrongType)"

definition deserialize_optional_duration :: "bool \<Rightarrow> toml_value option \<Rightarrow> de_error + duration option" where
  "deserialize_optional_duration checks v =
     (case v of
        None \<Rightarrow> Inr None
      | Some (TStr s) \<Rightarrow> (case parse_duration_str checks s of
            Inr d \<Rightarrow> Inr (Some d) | Inl e \<Rightarrow> Inl (DurationError e))
      | Some (TI64 i) \<Rightarrow> Inr (Some (from_secs (nat (max i 0))))
      | Some (TU64 n) \<Rightarrow> Inr (Some (from_secs n))
      | Some TOther \<Rightarrow> Inl WrongType)"

section \<open>Enumerations\<close>

datatype auth_mechanism = MechNone | Plain | ScramSha256 | ScramSha512 | Gssapi | Mtls

definition is_gssapi :: "auth_mechanism \<Rightarrow> bool" where
  "is_gssapi m \<longleftrightarrow> (case m of Gssapi \<Rightarrow> True | _ \<Rightarrow> False)"

fun show_mechanism :: "auth_mechanism \<Rightarrow> string" where
  "show_mechanism MechNone = ''none''"
| "show_mechanism Plain = ''plain''"
| "show_mechanism ScramSha256 = ''scram-sha256''"
| "show_mechanism ScramSha512 = ''scram-sha512''"
| "show_mechanism Gssapi = ''gssapi''"
| "show_mechanism Mtls = ''mtls''"

datatype pool_mode = Pooled | PerConnection

datatype ha_mode = StatelessReplicas | DnsRoundRobin

fun show_ha_mode :: "ha_mode \<Rightarrow> string" where
  "show_ha_mode StatelessReplicas = ''stateless-replicas''"
| "show_ha_mode DnsRoundRobin = ''dns-round-robin''"

text \<open>The names serde accepts: \<open>rename_all\<close> of the variant names, plus the aliases. In
  kebab case serde writes a digit run without a dash before it, so \<open>ScramSha256\<close> is
  \<open>scram-sha256\<close>.\<close>

definition parse_mechanism :: "string \<Rightarrow> auth_mechanism option" where
  "parse_mechanism s =
     (if s = ''none'' \<or> s = [] then Some MechNone
      else if s = ''plain'' then Some Plain
      else if s = ''scram-sha256'' then Some ScramSha256
      else if s = ''scram-sha512'' then Some ScramSha512
      else if s = ''gssapi'' then Some Gssapi
      else if s = ''mtls'' then Some Mtls else None)"

definition parse_pool_mode :: "string \<Rightarrow> pool_mode option" where
  "parse_pool_mode s =
     (if s = ''pooled'' then Some Pooled else if s = ''per_connection'' then Some PerConnection else None)"

definition parse_ha_mode :: "string \<Rightarrow> ha_mode option" where
  "parse_ha_mode s =
     (if s = ''stateless_replicas'' \<or> s = ''stateless-replicas'' then Some StatelessReplicas
      else if s = ''dns_round_robin'' \<or> s = ''dns-round-robin'' then Some DnsRoundRobin else None)"

section \<open>The sections\<close>

record cluster_config =
  bootstrap_servers :: "string list"

record proxy_section =
  advertise_host :: "string option"
  listen_bind :: string
  max_downstream_connections :: nat
  client_idle_timeout :: "duration option"
  bootstrap_server_mapping :: "string list"

record auth_config =
  mechanism :: auth_mechanism
  username :: "string option"
  password :: "string option"
  kerberos_principal :: "string option"
  kerberos_keytab :: "string option"
  kerberos_kdc :: "string option"
  kerberos_realm :: "string option"
  ca_file :: "string option"
  server_name :: "string option"
  verify :: bool

record pool_config =
  forwarding_mode :: pool_mode
  max_per_broker :: nat
  min_idle :: nat
  idle_timeout :: duration
  acquire_timeout :: duration
  health_check :: duration
  max_in_flight :: nat
  max_rss_bytes :: nat

record api_config =
  api_listen :: string
  default_count :: nat
  metrics_enabled :: bool

record log_config =
  log_dir :: "string option"
  log_level :: string
  max_files :: nat

record proxy_config =
  cfg_cluster :: cluster_config
  cfg_proxy :: proxy_section
  cfg_upstream :: auth_config
  cfg_downstream :: auth_config
  cfg_pool :: pool_config
  cfg_api :: api_config
  cfg_ha :: ha_mode
  cfg_log :: log_config

subsection \<open>Defaults\<close>

definition default_bind :: string where "default_bind = ''0.0.0.0''"
definition default_max_downstream :: nat where "default_max_downstream = 10000"
definition default_true :: bool where "default_true = True"
definition default_pool_mode :: pool_mode where "default_pool_mode = Pooled"
definition default_max_per_broker :: nat where "default_max_per_broker = 16"
definition default_min_idle :: nat where "default_min_idle = 2"
definition default_idle_timeout :: duration where "default_idle_timeout = from_secs 300"
definition default_acquire_timeout :: duration where "default_acquire_timeout = from_secs 5"
definition default_health_check :: duration where "default_health_check = from_secs 30"
definition default_max_in_flight :: nat where "default_max_in_flight = 100000"
definition default_api_listen :: string where "default_api_listen = ''127.0.0.1:9100''"
definition default_debug_count :: nat where "default_debug_count = 5"
definition default_log_level :: string where "default_log_level = ''info''"
definition default_max_log_files :: nat where "default_max_log_files = 7"

text \<open>The hand-written \<open>Default\<close> instances, and the derived ones (every field the default of
  its type: \<open>None\<close>, the empty string, 0, \<open>false\<close>).\<close>

definition pool_config_default :: pool_config where
  "pool_config_default =
     \<lparr>forwarding_mode = default_pool_mode, max_per_broker = default_max_per_broker,
      min_idle = default_min_idle, idle_timeout = default_idle_timeout,
      acquire_timeout = default_acquire_timeout, health_check = default_health_check,
      max_in_flight = default_max_in_flight, max_rss_bytes = 0\<rparr>"

definition api_config_default :: api_config where
  "api_config_default =
     \<lparr>api_listen = default_api_listen, default_count = default_debug_count, metrics_enabled = False\<rparr>"

definition auth_config_default :: auth_config where
  "auth_config_default =
     \<lparr>mechanism = MechNone, username = None, password = None, kerberos_principal = None,
      kerberos_keytab = None, kerberos_kdc = None, kerberos_realm = None, ca_file = None,
      server_name = None, verify = False\<rparr>"

definition log_config_default :: log_config where
  "log_config_default = \<lparr>log_dir = None, log_level = [], max_files = 0\<rparr>"

subsection \<open>Parsed documents and the serde attributes\<close>

record raw_proxy =
  r_advertise_host :: "string option"
  r_listen_bind :: "string option"
  r_max_downstream_connections :: "nat option"
  r_client_idle_timeout :: "toml_value option"
  r_bootstrap_server_mapping :: "string list option"

record raw_auth =
  r_mechanism :: "string option"
  r_username :: "string option"
  r_password :: "string option"
  r_kerberos_principal :: "string option"
  r_kerberos_keytab :: "string option"
  r_kerberos_kdc :: "string option"
  r_kerberos_realm :: "string option"
  r_ca_file :: "string option"
  r_server_name :: "string option"
  r_verify :: "bool option"

record raw_pool =
  r_mode :: "string option"
  r_max_per_broker :: "nat option"
  r_min_idle :: "nat option"
  r_idle_timeout :: "toml_value option"
  r_acquire_timeout :: "toml_value option"
  r_health_check :: "toml_value option"
  r_max_in_flight :: "nat option"
  r_max_rss_bytes :: "nat option"

record raw_api =
  r_listen :: "string option"
  r_default_count :: "nat option"
  r_metrics_enabled :: "bool option"

record raw_log =
  r_log_dir :: "string option"
  r_level :: "string option"
  r_max_files :: "nat option"

text \<open>The two levels of options in \<open>raw_upstream\<close> and \<open>raw_downstream\<close> are the section and its
  \<open>auth\<close> table; \<open>raw_ha\<close> is the section and its \<open>mode\<close>.\<close>

record raw_config =
  raw_cluster :: "string list option option"
  raw_proxy_section :: "raw_proxy option"
  raw_upstream :: "raw_auth option option"
  raw_downstream :: "raw_auth option option"
  raw_pool_section :: "raw_pool option"
  raw_api_section :: "raw_api option"
  raw_ha_section :: "string option option"
  raw_log_section :: "raw_log option"
  raw_unknown :: "string list"

datatype fill_error =
    MissingField string
  | UnknownField string
  | UnknownVariant string
  | BadValue de_error

definition or_default :: "'a option \<Rightarrow> 'a \<Rightarrow> 'a" where
  "or_default x d = (case x of Some v \<Rightarrow> v | None \<Rightarrow> d)"

definition fill_duration :: "bool \<Rightarrow> toml_value option \<Rightarrow> duration \<Rightarrow> fill_error + duration" where
  "fill_duration checks v d =
     (case v of None \<Rightarrow> Inr d
      | Some t \<Rightarrow> (case deserialize_duration checks t of Inr x \<Rightarrow> Inr x | Inl e \<Rightarrow> Inl (BadValue e)))"

definition fill_variant :: "(string \<Rightarrow> 'a option) \<Rightarrow> string option \<Rightarrow> 'a \<Rightarrow> fill_error + 'a" where
  "fill_variant parse v d =
     (case v of None \<Rightarrow> Inr d
      | Some s \<Rightarrow> (case parse s of Some x \<Rightarrow> Inr x | None \<Rightarrow> Inl (UnknownVariant s)))"

definition fill_cluster :: "string list option option \<Rightarrow> fill_error + cluster_config" where
  "fill_cluster r =
     bindE (ok_or (MissingField ''cluster'') r) (\<lambda>c.
     bindE (ok_or (MissingField ''bootstrap_servers'') c) (\<lambda>bs.
     Inr \<lparr>bootstrap_servers = bs\<rparr>))"

definition fill_proxy :: "bool \<Rightarrow> raw_proxy option \<Rightarrow> fill_error + proxy_section" where
  "fill_proxy checks r =
     bindE (ok_or (MissingField ''proxy'') r) (\<lambda>p.
     bindE (map_err BadValue (deserialize_optional_duration checks (r_client_idle_timeout p))) (\<lambda>t.
     Inr \<lparr>advertise_host = r_advertise_host p,
          listen_bind = or_default (r_listen_bind p) default_bind,
          max_downstream_connections = or_default (r_max_downstream_connections p) default_max_downstream,
          client_idle_timeout = t,
          bootstrap_server_mapping = or_default (r_bootstrap_server_mapping p) []\<rparr>))"

definition fill_auth :: "raw_auth option option \<Rightarrow> fill_error + auth_config" where
  "fill_auth r =
     (case r of
        Some (Some a) \<Rightarrow>
          bindE (fill_variant parse_mechanism (r_mechanism a) MechNone) (\<lambda>mech.
          Inr \<lparr>mechanism = mech, username = r_username a, password = r_password a,
               kerberos_principal = r_kerberos_principal a, kerberos_keytab = r_kerberos_keytab a,
               kerberos_kdc = r_kerberos_kdc a, kerberos_realm = r_kerberos_realm a,
               ca_file = r_ca_file a, server_name = r_server_name a,
               verify = or_default (r_verify a) default_true\<rparr>)
      | _ \<Rightarrow> Inr auth_config_default)"

definition fill_pool :: "bool \<Rightarrow> raw_pool option \<Rightarrow> fill_error + pool_config" where
  "fill_pool checks r =
     (case r of
        None \<Rightarrow> Inr pool_config_default
      | Some p \<Rightarrow>
          bindE (fill_variant parse_pool_mode (r_mode p) default_pool_mode) (\<lambda>fm.
          bindE (fill_duration checks (r_idle_timeout p) default_idle_timeout) (\<lambda>it.
          bindE (fill_duration checks (r_acquire_timeout p) default_acquire_timeout) (\<lambda>at.
          bindE (fill_duration checks (r_health_check p) default_health_check) (\<lambda>hc.
          Inr \<lparr>forwarding_mode = fm,
               max_per_broker = or_default (r_max_per_broker p) default_max_per_broker,
               min_idle = or_default (r_min_idle p) default_min_idle,
               idle_timeout = it, acquire_timeout = at, health_check = hc,
               max_in_flight = or_default (r_max_in_flight p) default_max_in_flight,
               max_rss_bytes = or_default (r_max_rss_bytes p) 0\<rparr>)))))"

definition fill_api :: "raw_api option \<Rightarrow> api_config" where
  "fill_api r =
     (case r of
        None \<Rightarrow> api_config_default
      | Some a \<Rightarrow> \<lparr>api_listen = or_default (r_listen a) default_api_listen,
                   default_count = or_default (r_default_count a) default_debug_count,
                   metrics_enabled = or_default (r_metrics_enabled a) False\<rparr>)"

definition fill_ha :: "string option option \<Rightarrow> fill_error + ha_mode" where
  "fill_ha r =
     (case r of
        None \<Rightarrow> Inr StatelessReplicas
      | Some v \<Rightarrow> fill_variant parse_ha_mode v StatelessReplicas)"

definition fill_log :: "raw_log option \<Rightarrow> log_config" where
  "fill_log r =
     (case r of
        None \<Rightarrow> log_config_default
      | Some l \<Rightarrow> \<lparr>log_dir = r_log_dir l,
                   log_level = or_default (r_level l) default_log_level,
                   max_files = or_default (r_max_files l) default_max_log_files\<rparr>)"

definition fill_config :: "bool \<Rightarrow> raw_config \<Rightarrow> fill_error + proxy_config" where
  "fill_config checks r =
     (case raw_unknown r of
        k # _ \<Rightarrow> Inl (UnknownField k)
      | [] \<Rightarrow>
          bindE (fill_cluster (raw_cluster r)) (\<lambda>c.
          bindE (fill_proxy checks (raw_proxy_section r)) (\<lambda>p.
          bindE (fill_auth (raw_upstream r)) (\<lambda>u.
          bindE (fill_auth (raw_downstream r)) (\<lambda>d.
          bindE (fill_pool checks (raw_pool_section r)) (\<lambda>pl.
          bindE (fill_ha (raw_ha_section r)) (\<lambda>h.
          Inr \<lparr>cfg_cluster = c, cfg_proxy = p, cfg_upstream = u, cfg_downstream = d, cfg_pool = pl,
               cfg_api = fill_api (raw_api_section r), cfg_ha = h,
               cfg_log = fill_log (raw_log_section r)\<rparr>)))))))"

section \<open>Validation and loading\<close>

datatype config_invalid =
    BootstrapEmpty
  | MappingEmpty
  | LengthMismatch nat nat
  | MinIdleExceedsMax nat nat
  | BadSegments nat string
  | NoAdvertiseHost nat string

datatype 'e config_error = ReadError string | ParseError 'e | Invalid config_invalid | Resolve string "string option"

definition mapping_parts :: "string \<Rightarrow> string list" where
  "mapping_parts m = map trim (split_char (CHR '','') m)"

text \<open>One iteration of the loop over the mapping entries: \<open>None\<close> goes on to the next entry.\<close>

definition validate_entry :: "string option \<Rightarrow> nat \<Rightarrow> string \<Rightarrow> config_invalid option" where
  "validate_entry adv i m =
     (let parts = mapping_parts m in
      if 1 \<le> length parts \<and> length parts \<le> 3 then
        (let advertise_part = parts ! (length parts - 1);
             host = (case rsplit_once (CHR '':'') advertise_part of Some (h, _) \<Rightarrow> h | None \<Rightarrow> [])
         in if host = [] then
              (if trim (or_default adv []) = [] then Some (NoAdvertiseHost i m) else None)
            else None)
      else Some (BadSegments i m))"

fun validate_entries :: "string option \<Rightarrow> nat \<Rightarrow> string list \<Rightarrow> config_invalid option" where
  "validate_entries adv i [] = None"
| "validate_entries adv i (m # ms) =
     (case validate_entry adv i m of Some e \<Rightarrow> Some e | None \<Rightarrow> validate_entries adv (i + 1) ms)"

definition validate :: "proxy_config \<Rightarrow> config_invalid option" where
  "validate c =
     (let bs = bootstrap_servers (cfg_cluster c);
          bm = bootstrap_server_mapping (cfg_proxy c)
      in if bs = [] then Some BootstrapEmpty
         else if bm = [] then Some MappingEmpty
         else if length bm \<noteq> length bs then Some (LengthMismatch (length bm) (length bs))
         else if min_idle (cfg_pool c) > max_per_broker (cfg_pool c)
           then Some (MinIdleExceedsMax (min_idle (cfg_pool c)) (max_per_broker (cfg_pool c)))
         else validate_entries (advertise_host (cfg_proxy c)) 0 bm)"

text \<open>\<open>toml\<close> is the TOML parser, \<open>read_file\<close> the file system.\<close>

definition config_from_str ::
  "bool \<Rightarrow> (string \<Rightarrow> 'e + raw_config) \<Rightarrow> string \<Rightarrow> ('e + fill_error) config_error + proxy_config" where
  "config_from_str checks toml text =
     bindE (map_err (\<lambda>e. ParseError (Inl e)) (toml text)) (\<lambda>raw.
     bindE (map_err (\<lambda>e. ParseError (Inr e)) (fill_config checks raw)) (\<lambda>cfg.
     (case validate cfg of Some e \<Rightarrow> Inl (Invalid e) | None \<Rightarrow> Inr cfg)))"

definition config_load ::
  "bool \<Rightarrow> (string \<Rightarrow> 'e + raw_config) \<Rightarrow> (string \<Rightarrow> string + string) \<Rightarrow> string
     \<Rightarrow> ('e + fill_error) config_error + proxy_config" where
  "config_load checks toml read_file path =
     bindE (map_err ReadError (read_file path)) (config_from_str checks toml)"

text \<open>\<open>lookup\<close> is \<open>tokio::net::lookup_host\<close>: an I/O error or the addresses found.\<close>

definition parse_addr :: "(string \<Rightarrow> string + 'addr list) \<Rightarrow> string \<Rightarrow> 'e config_error + 'addr" where
  "parse_addr lookup s =
     (case lookup s of
        Inl e \<Rightarrow> Inl (Resolve s (Some e))
      | Inr [] \<Rightarrow> Inl (Resolve s None)
      | Inr (a # _) \<Rightarrow> Inr a)"

section \<open>What the duration syntax accepts\<close>

lemma strip_suffix_show_nat:
  "digit_val a = None \<Longrightarrow> strip_suffix [a, b] (show_nat n @ [b]) = None"
  "digit_val b = None \<Longrightarrow> strip_suffix (xs @ [b]) (show_nat n) = None"
  "strip_suffix (xs @ [b]) (ys @ [c]) = (if b = c then strip_suffix xs ys else None)"
proof -
  show "strip_suffix [a, b] (show_nat n @ [b]) = None" if "digit_val a = None"
  proof -
    have "show_nat n \<noteq> r @ [a]" for r
      using show_nat_digits[of a n] that by auto
    then show ?thesis by (auto simp: strip_suffix_None)
  qed
  show "strip_suffix (xs @ [b]) (show_nat n) = None" if "digit_val b = None"
    using show_nat_digits[of b n] that by (auto simp: strip_suffix_None)
  show "strip_suffix (xs @ [b]) (ys @ [c]) = (if b = c then strip_suffix xs ys else None)"
  proof (cases "b = c")
    case True
    then have "strip_suffix (xs @ [b]) (ys @ [c]) = Some r \<longleftrightarrow> strip_suffix xs ys = Some r" for r
      by (simp add: strip_suffix_Some)
    then have "strip_suffix (xs @ [b]) (ys @ [c]) = strip_suffix xs ys"
      by (metis not_Some_eq)
    then show ?thesis using True by simp
  qed (auto simp: strip_suffix_None)
qed

lemma strip_suffix_Nil [simp]: "strip_suffix [] s = Some s"
  by (simp add: strip_suffix_def)

lemma unit_letters [simp]:
  "digit_val (CHR ''m'') = None" "digit_val (CHR ''u'') = None" "digit_val (CHR ''s'') = None"
  "digit_val (CHR ''h'') = None"
  "\<not> is_whitespace (CHR ''m'')" "\<not> is_whitespace (CHR ''s'')" "\<not> is_whitespace (CHR ''h'')"
  by (simp_all add: digit_val_def is_whitespace_def)

lemma trim_show_nat: "trim (show_nat n) = show_nat n"
  using digit_not_whitespace show_nat_digits by (intro trim_all_ok) blast

lemma parse_u64_show: "n \<le> u64_max \<Longrightarrow> parse_u64 (show_nat n) = Some n"
  by (rule dec64.parsed_shown)

lemma duration_millis:
  "n \<le> u64_max \<Longrightarrow> parse_duration_str ck (show_nat n @ ''ms'') = Inr (from_millis n)"
  by (simp add: parse_duration_str_def trim_show_nat_append parse_u64_show)

lemma suffix_facts:
  "strip_suffix ''ms'' (show_nat n @ ''us'') = None"
  "strip_suffix ''ms'' (show_nat n @ ''s'') = None"
  "strip_suffix ''us'' (show_nat n @ ''s'') = None"
  "strip_suffix ''ms'' (show_nat n @ ''m'') = None" "strip_suffix ''us'' (show_nat n @ ''m'') = None"
  "strip_suffix ''s'' (show_nat n @ ''m'') = None"
  "strip_suffix ''ms'' (show_nat n @ ''h'') = None" "strip_suffix ''us'' (show_nat n @ ''h'') = None"
  "strip_suffix ''s'' (show_nat n @ ''h'') = None" "strip_suffix ''m'' (show_nat n @ ''h'') = None"
  "strip_suffix ''ms'' (show_nat n) = None" "strip_suffix ''us'' (show_nat n) = None"
  "strip_suffix ''s'' (show_nat n) = None" "strip_suffix ''m'' (show_nat n) = None"
  "strip_suffix ''h'' (show_nat n) = None"
  using strip_suffix_show_nat(3)[of "''m''" "CHR ''s''" "show_nat n @ ''u''" "CHR ''s''"]
    strip_suffix_show_nat(3)[of "''m''" "CHR ''s''" "show_nat n" "CHR ''m''"]
    strip_suffix_show_nat(3)[of "''u''" "CHR ''s''" "show_nat n" "CHR ''m''"]
    strip_suffix_show_nat(3)[of "[]" "CHR ''s''" "show_nat n" "CHR ''m''"]
    strip_suffix_show_nat(3)[of "''m''" "CHR ''s''" "show_nat n" "CHR ''h''"]
    strip_suffix_show_nat(3)[of "''u''" "CHR ''s''" "show_nat n" "CHR ''h''"]
    strip_suffix_show_nat(3)[of "[]" "CHR ''s''" "show_nat n" "CHR ''h''"]
    strip_suffix_show_nat(3)[of "[]" "CHR ''m''" "show_nat n" "CHR ''h''"]
    strip_suffix_show_nat(3)[of "[]" "CHR ''m''" "show_nat n" "CHR ''u''"]
    strip_suffix_show_nat(2)[of "CHR ''s''" "''m''" n] strip_suffix_show_nat(2)[of "CHR ''s''" "''u''" n]
    strip_suffix_show_nat(2)[of "CHR ''s''" "[]" n] strip_suffix_show_nat(2)[of "CHR ''m''" "[]" n]
    strip_suffix_show_nat(2)[of "CHR ''h''" "[]" n]
    strip_suffix_show_nat(1)[of "CHR ''m''" "CHR ''s''" n] strip_suffix_show_nat(1)[of "CHR ''u''" "CHR ''s''" n]
  by simp_all

lemma duration_micros:
  "n \<le> u64_max \<Longrightarrow> parse_duration_str ck (show_nat n @ ''us'') = Inr (from_micros n)"
  by (simp add: parse_duration_str_def trim_show_nat_append parse_u64_show suffix_facts)

lemma duration_bare:
  "n \<le> u64_max \<Longrightarrow> parse_duration_str ck (show_nat n) = Inr (from_secs n)"
  by (simp add: parse_duration_str_def trim_show_nat parse_u64_show suffix_facts)

lemma duration_unit:
  assumes "n \<le> u64_max" and "(u, k) \<in> {(CHR ''s'', 1), (CHR ''m'', 60), (CHR ''h'', 3600)}"
  shows "parse_duration_str ck (show_nat n @ [u]) =
    (case mul_u64 ck n k of Inr p \<Rightarrow> Inr (from_secs p) | Inl e \<Rightarrow> Inl e)"
  using assms
  by (auto simp: parse_duration_str_def trim_show_nat_append parse_u64_show suffix_facts)

text \<open>The other direction: whatever the parser accepts is a decimal number with one of the six
  suffixes, scaled by it.\<close>

definition duration_scale :: "string \<Rightarrow> nat option" where
  "duration_scale u =
     (if u = ''ms'' then Some 1000000 else if u = ''us'' then Some 1000
      else if u = ''s'' \<or> u = [] then Some 1000000000 else if u = ''m'' then Some 60000000000
      else if u = ''h'' then Some 3600000000000 else None)"

lemma duration_scaleI:
  "trim s = num @ u \<Longrightarrow> parse_u64 num = Some n \<Longrightarrow> duration_scale u = Some k \<Longrightarrow> d = n * k \<Longrightarrow>
    \<exists>num u n k. trim s = num @ u \<and> parse_u64 num = Some n \<and> duration_scale u = Some k \<and> d = n * k"
  by blast

lemma parse_duration_sound:
  assumes ok: "parse_duration_str True s = Inr d"
  shows "\<exists>num u n k. trim s = num @ u \<and> parse_u64 num = Some n \<and> duration_scale u = Some k \<and> d = n * k"
proof -
  let ?t = "trim s"
  note unfolds = parse_duration_str_def Let_def mul_u64_def from_millis_def from_micros_def
    from_secs_def duration_scale_def
  consider (ms) num where "strip_suffix ''ms'' ?t = Some num"
    | (us) num where "strip_suffix ''ms'' ?t = None" "strip_suffix ''us'' ?t = Some num"
    | (s) num where "strip_suffix ''ms'' ?t = None" "strip_suffix ''us'' ?t = None"
        "strip_suffix ''s'' ?t = Some num"
    | (m) num where "strip_suffix ''ms'' ?t = None" "strip_suffix ''us'' ?t = None"
        "strip_suffix ''s'' ?t = None" "strip_suffix ''m'' ?t = Some num"
    | (h) num where "strip_suffix ''ms'' ?t = None" "strip_suffix ''us'' ?t = None"
        "strip_suffix ''s'' ?t = None" "strip_suffix ''m'' ?t = None" "strip_suffix ''h'' ?t = Some num"
    | (bare) "strip_suffix ''ms'' ?t = None" "strip_suffix ''us'' ?t = None"
        "strip_suffix ''s'' ?t = None" "strip_suffix ''m'' ?t = None" "strip_suffix ''h'' ?t = None"
    by (meson not_Some_eq)
  then show ?thesis
  proof cases
    case ms
    then show ?thesis using ok
      by (intro duration_scaleI[of s num "''ms''" "the (parse_u64 num)" 1000000]) (auto simp: unfolds strip_suffix_Some split: option.splits)
  next
    case us
    then show ?thesis using ok
      by (intro duration_scaleI[of s num "''us''" "the (parse_u64 num)" 1000]) (auto simp: unfolds strip_suffix_Some split: option.splits)
  next
    case s
    then show ?thesis using ok
      by (intro duration_scaleI[of s num "''s''" "the (parse_u64 num)" 1000000000])
        (auto simp: unfolds strip_suffix_Some split: option.splits if_splits)
  next
    case m
    then show ?thesis using ok
      by (intro duration_scaleI[of s num "''m''" "the (parse_u64 num)" 60000000000])
        (auto simp: unfolds strip_suffix_Some split: option.splits if_splits)
  next
    case h
    then show ?thesis using ok
      by (intro duration_scaleI[of s num "''h''" "the (parse_u64 num)" 3600000000000])
        (auto simp: unfolds strip_suffix_Some split: option.splits if_splits)
  next
    case bare
    then show ?thesis using ok
      by (intro duration_scaleI[of s ?t "[]" "the (parse_u64 ?t)" 1000000000]) (auto simp: unfolds split: option.splits)
  qed
qed

section \<open>What validation accepts\<close>

text \<open>An entry is well formed when it has one to three comma-separated parts and its last part
  (the advertised address) names a host, or a fallback host is configured.\<close>

definition advertised_host :: "string \<Rightarrow> string" where
  "advertised_host m =
     (case rsplit_once (CHR '':'') (last (mapping_parts m)) of Some (h, _) \<Rightarrow> h | None \<Rightarrow> [])"

definition entry_wf :: "string option \<Rightarrow> string \<Rightarrow> bool" where
  "entry_wf adv m \<longleftrightarrow>
     length (mapping_parts m) \<le> 3 \<and> (advertised_host m \<noteq> [] \<or> trim (or_default adv []) \<noteq> [])"

lemma mapping_parts_not_Nil [simp]: "mapping_parts m \<noteq> []"
  by (simp add: mapping_parts_def)

lemma length_mapping_parts: "length (mapping_parts m) = Suc (count_list m (CHR '',''))"
  by (simp add: mapping_parts_def length_split_char)

lemma validate_entry_None_iff: "validate_entry adv i m = None \<longleftrightarrow> entry_wf adv m"
  by (auto simp: validate_entry_def entry_wf_def advertised_host_def Let_def last_conv_nth
      Suc_le_eq split: option.splits)

lemma validate_entries_None_iff: "validate_entries adv i ms = None \<longleftrightarrow> (\<forall>m \<in> set ms. entry_wf adv m)"
proof (induction ms arbitrary: i)
  case (Cons m ms)
  then show ?case using validate_entry_None_iff[of adv i m] by (cases "validate_entry adv i m") auto
qed simp

lemma validate_entries_Some:
  "validate_entries adv i ms = Some e \<Longrightarrow>
    \<exists>k < length ms. validate_entry adv (i + k) (ms ! k) = Some e \<and> (\<forall>j < k. entry_wf adv (ms ! j))"
proof (induction ms arbitrary: i)
  case (Cons m ms)
  show ?case
  proof (cases "validate_entry adv i m")
    case (Some e')
    then show ?thesis using Cons.prems by (intro exI[of _ 0]) simp
  next
    case None
    then obtain k where k: "k < length ms" "validate_entry adv (i + 1 + k) (ms ! k) = Some e"
      "\<forall>j < k. entry_wf adv (ms ! j)"
      using Cons.prems Cons.IH[of "i + 1"] by auto
    then have "\<forall>j < Suc k. entry_wf adv ((m # ms) ! j)"
      using None by (auto simp: validate_entry_None_iff less_Suc_eq_0_disj)
    then show ?thesis using k by (intro exI[of _ "Suc k"]) simp
  qed
qed simp

lemma validate_None_iff:
  "validate c = None \<longleftrightarrow>
     bootstrap_servers (cfg_cluster c) \<noteq> [] \<and>
     length (bootstrap_server_mapping (cfg_proxy c)) = length (bootstrap_servers (cfg_cluster c)) \<and>
     min_idle (cfg_pool c) \<le> max_per_broker (cfg_pool c) \<and>
     (\<forall>m \<in> set (bootstrap_server_mapping (cfg_proxy c)). entry_wf (advertise_host (cfg_proxy c)) m)"
  by (auto simp: validate_def Let_def validate_entries_None_iff not_less)

lemma config_from_str_validated:
  "config_from_str ck toml text = Inr cfg \<Longrightarrow> validate cfg = None"
  by (auto simp: config_from_str_def bindE_eq_Inr split: option.splits)


section \<open>Properties\<close>

text \<open>A duration the parser accepts (with checked arithmetic) is a decimal number and one of the
  suffixes \<open>ms\<close>, \<open>us\<close>, \<open>s\<close>, \<open>m\<close>, \<open>h\<close> or none, and its value is the number times the unit.\<close>

theorem duration_sound:
  assumes "parse_duration_str True s = Inr d"
  shows "\<exists>num u n k. trim s = num @ u \<and> parse_u64 num = Some n \<and> duration_scale u = Some k \<and> d = n * k"
  using assms by (rule parse_duration_sound)

theorem duration_sound_witness:
  "\<exists>num u n k. trim (show_nat 500 @ ''ms'') = num @ u \<and> parse_u64 num = Some n \<and> duration_scale u = Some k
     \<and> 500000000 = n * k"
  using duration_sound[of "show_nat 500 @ ''ms''" "from_millis 500"] duration_millis[of 500 True]
  by (simp add: from_millis_def u64_max_def)

text \<open>The syntax is complete up to overflow: a shown number with a unit is read as that many
  units; hours whose seconds leave 64 bits make a build with checked arithmetic panic (an error of
  the model) and wrap around in one without.\<close>

theorem duration_complete:
  assumes "n \<le> u64_max"
  shows "parse_duration_str ck (show_nat n) = Inr (from_secs n)
    \<and> parse_duration_str ck (show_nat n @ ''ms'') = Inr (from_millis n)
    \<and> parse_duration_str ck (show_nat n @ ''us'') = Inr (from_micros n)
    \<and> parse_duration_str ck (show_nat n @ ''s'') = Inr (from_secs n)
    \<and> (n * 3600 \<le> u64_max \<longrightarrow> parse_duration_str ck (show_nat n @ ''h'') = Inr (from_secs (n * 3600)))
    \<and> (u64_max < n * 3600 \<longrightarrow>
        parse_duration_str False (show_nat n @ ''h'') = Inr (from_secs (n * 3600 mod (u64_max + 1)))
        \<and> (\<exists>e. parse_duration_str True (show_nat n @ ''h'') = Inl e))"
  using duration_bare[OF assms] duration_millis[OF assms] duration_micros[OF assms]
    duration_unit[OF assms, of "CHR ''s''" 1] duration_unit[OF assms, of "CHR ''h''" 3600] assms
  by (auto simp: mul_u64_def)

theorem duration_complete_witness:
  "parse_duration_str True (show_nat 2 @ ''h'') = Inr (from_secs 7200)"
  using duration_complete[of 2 True] by (simp add: u64_max_def)

text \<open>C26: Validation accepts exactly the configurations with at least one bootstrap server, as many
  mapping entries as servers, a minimum of idle connections within the maximum, and entries of one
  to three parts whose advertised host is given or has a fallback.\<close>

theorem validate_exact:
  "validate c = None \<longleftrightarrow>
     bootstrap_servers (cfg_cluster c) \<noteq> [] \<and>
     length (bootstrap_server_mapping (cfg_proxy c)) = length (bootstrap_servers (cfg_cluster c)) \<and>
     min_idle (cfg_pool c) \<le> max_per_broker (cfg_pool c) \<and>
     (\<forall>m \<in> set (bootstrap_server_mapping (cfg_proxy c)).
        count_list m (CHR '','') < 3 \<and>
        (advertised_host m \<noteq> [] \<or> trim (or_default (advertise_host (cfg_proxy c)) []) \<noteq> []))"
  by (simp add: validate_None_iff entry_wf_def length_mapping_parts Suc_le_eq)

theorem validate_exact_witness:
  "validate \<lparr>cfg_cluster = \<lparr>bootstrap_servers = [''b:1'']\<rparr>,
      cfg_proxy = \<lparr>advertise_host = None, listen_bind = default_bind, max_downstream_connections = 10,
                   client_idle_timeout = None, bootstrap_server_mapping = [''p:2'']\<rparr>,
      cfg_upstream = auth_config_default, cfg_downstream = auth_config_default, cfg_pool = pool_config_default,
      cfg_api = api_config_default, cfg_ha = StatelessReplicas, cfg_log = log_config_default\<rparr> = None"
  by (subst validate_exact)
    (simp add: pool_config_default_def default_min_idle_def default_max_per_broker_def advertised_host_def
      mapping_parts_def trim_def is_whitespace_def)

end
