(* ===== verification/Upstream.thy ===== *)
theory Upstream
  imports Config
begin

text \<open>
  Upstream authentication, \<open>src/src/upstream.rs\<close>: what \<open>from_config\<close> builds from the
  \<open>auth\<close> section, and how \<open>connect_framed\<close> and \<open>apply_to_client_builder\<close> hand it to the
  \<open>kafka_client\<close> crate. The crate's credential and builder values are the type parameters
  \<open>'kc\<close>, \<open>'sc\<close>, \<open>'b\<close> and \<open>'cb\<close>; its functions are the fields of \<open>kafka_client_api\<close>.
\<close>

datatype sasl_mechanism = SaslPlain | SaslScramSha256 | SaslScramSha512

datatype security_protocol = SecPlaintext | SecSaslPlaintext

text \<open>\<open>'kc\<close>: Kerberos credentials, \<open>'sc\<close>: SASL credentials, \<open>'b\<close>: the framed-connection
  builder, \<open>'cb\<close>: the client builder.\<close>

record ('kc, 'sc, 'b, 'cb, 'addr) kafka_client_api =
  kc_new :: "string \<Rightarrow> 'kc"
  kc_with_keytab :: "string \<Rightarrow> 'kc \<Rightarrow> 'kc"
  kc_with_realm :: "string \<Rightarrow> 'kc \<Rightarrow> 'kc"
  kc_with_broker_hostname :: "string \<Rightarrow> 'kc \<Rightarrow> 'kc"
  sc_new :: "sasl_mechanism \<Rightarrow> string \<Rightarrow> string \<Rightarrow> 'sc"
  sc_username :: "'sc \<Rightarrow> string"
  sc_password :: "'sc \<Rightarrow> string"
  b_new :: "'addr \<Rightarrow> security_protocol \<Rightarrow> 'b"
  b_with_client_id :: "string \<Rightarrow> 'b \<Rightarrow> 'b"
  b_with_sasl :: "sasl_mechanism \<Rightarrow> 'sc \<Rightarrow> 'b \<Rightarrow> 'b"
  b_with_kerberos :: "'kc \<Rightarrow> 'b \<Rightarrow> 'b"
  b_with_kdc :: "string \<Rightarrow> u16 \<Rightarrow> 'b \<Rightarrow> 'b"
  b_with_broker_hostname :: "string \<Rightarrow> 'b \<Rightarrow> 'b"
  cb_with_plaintext :: "'cb \<Rightarrow> 'cb"
  cb_with_sasl :: "sasl_mechanism \<Rightarrow> string \<Rightarrow> string \<Rightarrow> 'cb \<Rightarrow> 'cb"
  cb_with_kerberos :: "'kc \<Rightarrow> 'cb \<Rightarrow> 'cb"
  cb_with_kdc :: "string \<Rightarrow> u16 \<Rightarrow> 'cb \<Rightarrow> 'cb"
  cb_with_client_id :: "string \<Rightarrow> 'cb \<Rightarrow> 'cb"

datatype ('kc, 'sc) auth_inner =
    APlaintext
  | ASasl sasl_mechanism 'sc
  | AGssapi 'kc string u16

datatype 'ke upstream_error =
    Missing string
  | UnsupportedMechanism string
  | InvalidKdc string
  | Connect 'ke

definition user_pass :: "auth_config \<Rightarrow> 'ke upstream_error + string \<times> string" where
  "user_pass a =
     bindE (ok_or (Missing ''username'') (username a)) (\<lambda>u.
     bindE (ok_or (Missing ''password'') (password a)) (\<lambda>p.
     Inr (u, p)))"

definition parse_kdc :: "auth_config \<Rightarrow> 'ke upstream_error + string \<times> u16" where
  "parse_kdc a =
     bindE (ok_or (Missing ''kerberos_kdc'') (kerberos_kdc a)) (\<lambda>kdc.
     bindE (ok_or (InvalidKdc kdc) (rsplit_once (CHR '':'') kdc)) (\<lambda>(h, p).
     bindE (ok_or (InvalidKdc kdc) (parse_u16 p)) (\<lambda>port.
     Inr (h, of_nat port))))"

definition from_config ::
  "('kc, 'sc, 'b, 'cb, 'addr) kafka_client_api \<Rightarrow> auth_config
     \<Rightarrow> 'ke upstream_error + ('kc, 'sc) auth_inner" where
  "from_config K a =
     (case mechanism a of
        MechNone \<Rightarrow> Inr APlaintext
      | Gssapi \<Rightarrow>
          bindE (ok_or (Missing ''kerberos_principal'') (kerberos_principal a)) (\<lambda>principal.
          bindE (ok_or (Missing ''kerberos_keytab'') (kerberos_keytab a)) (\<lambda>keytab.
          let creds = kc_with_keytab K keytab (kc_new K principal);
              creds = (case kerberos_realm a of Some realm \<Rightarrow> kc_with_realm K realm creds | None \<Rightarrow> creds)
          in bindE (parse_kdc a) (\<lambda>(kdc_host, kdc_port). Inr (AGssapi creds kdc_host kdc_port))))
      | Plain \<Rightarrow> bindE (user_pass a) (\<lambda>(u, p). Inr (ASasl SaslPlain (sc_new K SaslPlain u p)))
      | ScramSha256 \<Rightarrow>
          bindE (user_pass a) (\<lambda>(u, p). Inr (ASasl SaslScramSha256 (sc_new K SaslScramSha256 u p)))
      | ScramSha512 \<Rightarrow>
          bindE (user_pass a) (\<lambda>(u, p). Inr (ASasl SaslScramSha512 (sc_new K SaslScramSha512 u p)))
      | Mtls \<Rightarrow> Inl (UnsupportedMechanism ''mtls''))"

definition security_protocol_of :: "('kc, 'sc) auth_inner \<Rightarrow> security_protocol" where
  "security_protocol_of a =
     (case a of APlaintext \<Rightarrow> SecPlaintext | ASasl _ _ \<Rightarrow> SecSaslPlaintext
      | AGssapi _ _ _ \<Rightarrow> SecSaslPlaintext)"

definition connect_builder ::
  "('kc, 'sc, 'b, 'cb, 'addr) kafka_client_api \<Rightarrow> ('kc, 'sc) auth_inner \<Rightarrow> 'addr \<Rightarrow> string \<Rightarrow> 'b" where
  "connect_builder K a addr broker_host =
     (let builder = b_with_client_id K ''kafka-proxy'' (b_new K addr (security_protocol_of a)) in
      case a of
        APlaintext \<Rightarrow> builder
      | ASasl mech credentials \<Rightarrow> b_with_sasl K mech credentials builder
      | AGssapi creds kdc_host kdc_port \<Rightarrow>
          b_with_broker_hostname K broker_host
            (b_with_kdc K kdc_host kdc_port
              (b_with_kerberos K (kc_with_broker_hostname K broker_host creds) builder)))"

text \<open>\<open>build_framed\<close> runs the handshake; the negotiated versions it also returns are dropped.\<close>

definition connect_framed ::
  "('kc, 'sc, 'b, 'cb, 'addr) kafka_client_api \<Rightarrow> ('b \<Rightarrow> 'ke + 'framed \<times> 'v)
     \<Rightarrow> ('kc, 'sc) auth_inner \<Rightarrow> 'addr \<Rightarrow> string \<Rightarrow> 'ke upstream_error + 'framed" where
  "connect_framed K build_framed a addr broker_host =
     bindE (map_err Connect (build_framed (connect_builder K a addr broker_host)))
       (\<lambda>(framed, _). Inr framed)"

definition apply_to_client_builder ::
  "('kc, 'sc, 'b, 'cb, 'addr) kafka_client_api \<Rightarrow> ('kc, 'sc) auth_inner \<Rightarrow> 'cb \<Rightarrow> 'cb" where
  "apply_to_client_builder K a builder =
     (case a of
        APlaintext \<Rightarrow> cb_with_plaintext K builder
      | ASasl mech credentials \<Rightarrow>
          cb_with_sasl K mech (sc_username K credentials) (sc_password K credentials) builder
      | AGssapi creds kdc_host kdc_port \<Rightarrow>
          cb_with_client_id K ''kafka-proxy-bootstrap''
            (cb_with_kdc K kdc_host kdc_port (cb_with_kerberos K creds builder)))"

section \<open>What a configuration needs\<close>

lemma user_pass_Inr: "user_pass a = Inr (u, p) \<longleftrightarrow> username a = Some u \<and> password a = Some p"
  by (auto simp: user_pass_def bindE_eq_Inr)

lemma parse_kdc_Inr:
  "parse_kdc a = Inr (h, w) \<longleftrightarrow>
     (\<exists>p n. kerberos_kdc a = Some (h @ CHR '':'' # p) \<and> CHR '':'' \<notin> set p \<and>
        parse_u16 p = Some n \<and> w = of_nat n)"
  by (auto simp: parse_kdc_def bindE_eq_Inr rsplit_once_Some)

text \<open>The keys a mechanism requires, in the order the code asks for them.\<close>

definition first_missing :: "auth_config \<Rightarrow> string option" where
  "first_missing a =
     (case mechanism a of
        Gssapi \<Rightarrow>
          if kerberos_principal a = None then Some ''kerberos_principal''
          else if kerberos_keytab a = None then Some ''kerberos_keytab''
          else if kerberos_kdc a = None then Some ''kerberos_kdc'' else None
      | MechNone \<Rightarrow> None
      | Mtls \<Rightarrow> None
      | _ \<Rightarrow>
          if username a = None then Some ''username''
          else if password a = None then Some ''password'' else None)"

lemma from_config_Missing: "from_config K a = Inl (Missing k) \<longleftrightarrow> first_missing a = Some k"
  by (cases "mechanism a")
    (auto simp: from_config_def first_missing_def bindE_eq_Inl bindE_eq_Inr user_pass_def parse_kdc_def
      Let_def split: option.splits)


section \<open>Properties\<close>

text \<open>Building the upstream authentication reports the first missing key of its mechanism, in the
  order the code reads them, and reports none when there is none.\<close>

theorem missing_key_reported:
  "from_config K a = Inl (Missing k) \<longleftrightarrow> first_missing a = Some k"
  by (rule from_config_Missing)

end
