(* ===== verification/Rewrite.thy ===== *)
theory Rewrite
  imports RustStr
begin

text \<open>
  Response interception, \<open>src/src/rewrite.rs\<close>: the map from node ids to advertised
  addresses, the three rewriters (Metadata, DescribeCluster, FindCoordinator), the unsigned
  varint of the flexible response header, and the header parsers. The \<open>kafka_client\<close> message
  codec is a parameter: a record of its decoder, its two encoders and the version test. A
  message is its list of brokers (or coordinators), the fields the rewriters read and write,
  and an uninterpreted rest.
\<close>

section \<open>Message types\<close>

definition API_KEY_METADATA :: i16 where "API_KEY_METADATA = 3"
definition API_KEY_DESCRIBE_CLUSTER :: i16 where "API_KEY_DESCRIBE_CLUSTER = 60"
definition API_KEY_FIND_COORDINATOR :: i16 where "API_KEY_FIND_COORDINATOR = 10"

text \<open>\<open>RewriteMap\<close>: node id to advertised host and downstream port.\<close>

type_synonym rewrite_map = "i32 \<rightharpoonup> string \<times> u16"

definition rewrite_map_new :: "(i32 \<times> string \<times> u16) list \<Rightarrow> rewrite_map" where
  "rewrite_map_new node_ports = map_of node_ports"

record md_broker =
  md_node_id :: i32
  md_host :: string
  md_port :: i32
  md_rack :: "string option"

record 'r metadata_response =
  md_brokers :: "md_broker list"
  md_rest :: 'r

record dc_broker =
  dc_broker_id :: i32
  dc_host :: string
  dc_port :: i32
  dc_rack :: "string option"
  dc_is_fenced :: bool

record 'r describe_cluster_response =
  dc_brokers :: "dc_broker list"
  dc_rest :: 'r

record fc_coordinator =
  co_key :: string
  co_node_id :: i32
  co_host :: string
  co_port :: i32
  co_error_code :: i16
  co_error_message :: "string option"

record 'r find_coordinator_response =
  fc_node_id :: i32
  fc_host :: string
  fc_port :: i32
  fc_coordinators :: "fc_coordinator list"
  fc_rest :: 'r

text \<open>The codec of one message type. Decoding reads a whole response frame (header included)
  and returns the correlation id and the message; encoding appends the body's bytes, or fails.\<close>

record 'm codec =
  decode_frame :: "bytes \<Rightarrow> i16 \<Rightarrow> (i32 \<times> 'm) option"
  is_flexible_version :: "i16 \<Rightarrow> bool"
  encode :: "'m \<Rightarrow> i16 \<Rightarrow> bytes option"
  flexible_encode :: "'m \<Rightarrow> i16 \<Rightarrow> bytes option"

record ('r1, 'r2, 'r3) kafka_protocol =
  metadata_codec :: "'r1 metadata_response codec"
  describe_cluster_codec :: "'r2 describe_cluster_response codec"
  find_coordinator_codec :: "'r3 find_coordinator_response codec"

section \<open>Unsigned varint\<close>

function encode_unsigned_varint :: "bytes \<Rightarrow> u32 \<Rightarrow> bytes" where
  "encode_unsigned_varint buf value =
     (if 128 \<le> value then encode_unsigned_varint (buf @ [ucast value OR 128]) (drop_bit 7 value)
      else buf @ [ucast value])"
  by pat_completeness auto
termination
proof (relation "measure (\<lambda>(buf, v). unat v)")
  fix buf :: bytes and v :: u32
  assume "128 \<le> v"
  then have "0 < unat v" by (simp add: word_le_nat_alt)
  then show "((buf @ [ucast v OR 128], drop_bit 7 v), buf, v) \<in> measure (\<lambda>(buf, v). unat v)"
    by (simp add: drop_bit_eq_div unat_div_distrib)
qed simp

declare encode_unsigned_varint.simps [simp del]

section \<open>The rewriters\<close>

text \<open>The loops over the brokers: an entry whose id is in the map gets the advertised host and
  port; the flag says whether any did.\<close>

fun rewrite_md_brokers :: "rewrite_map \<Rightarrow> md_broker list \<Rightarrow> md_broker list \<times> bool" where
  "rewrite_md_brokers m [] = ([], False)"
| "rewrite_md_brokers m (b # bs) =
     (let (bs', ch) = rewrite_md_brokers m bs in
      case m (md_node_id b) of
        Some (host, port) \<Rightarrow> (b\<lparr>md_host := host, md_port := ucast port\<rparr> # bs', True)
      | None \<Rightarrow> (b # bs', ch))"

fun rewrite_dc_brokers :: "rewrite_map \<Rightarrow> dc_broker list \<Rightarrow> dc_broker list \<times> bool" where
  "rewrite_dc_brokers m [] = ([], False)"
| "rewrite_dc_brokers m (b # bs) =
     (let (bs', ch) = rewrite_dc_brokers m bs in
      case m (dc_broker_id b) of
        Some (host, port) \<Rightarrow> (b\<lparr>dc_host := host, dc_port := ucast port\<rparr> # bs', True)
      | None \<Rightarrow> (b # bs', ch))"

fun rewrite_coordinators :: "rewrite_map \<Rightarrow> fc_coordinator list \<Rightarrow> fc_coordinator list \<times> bool" where
  "rewrite_coordinators m [] = ([], False)"
| "rewrite_coordinators m (c # cs) =
     (let (cs', ch) = rewrite_coordinators m cs in
      case m (co_node_id c) of
        Some (host, port) \<Rightarrow> (c\<lparr>co_host := host, co_port := ucast port\<rparr> # cs', True)
      | None \<Rightarrow> (c # cs', ch))"

text \<open>The tail of all three rewriters: the response header, then the body with the encoder of
  the version; an encoding error gives up the rewrite.\<close>

definition encode_response :: "'m codec \<Rightarrow> i16 \<Rightarrow> i32 \<Rightarrow> 'm \<Rightarrow> bytes option" where
  "encode_response C version cid resp =
     (let use_flexible = is_flexible_version C version;
          buf = put_i32 cid;
          buf = (if use_flexible then encode_unsigned_varint buf 0 else buf)
      in case (if use_flexible then flexible_encode C resp version else encode C resp version) of
           None \<Rightarrow> None
         | Some body \<Rightarrow> Some (buf @ body))"

definition rewrite_metadata_response ::
  "'r metadata_response codec \<Rightarrow> i16 \<Rightarrow> bytes \<Rightarrow> rewrite_map \<Rightarrow> bytes option" where
  "rewrite_metadata_response C version raw m =
     (case decode_frame C raw version of
        None \<Rightarrow> None
      | Some (cid, resp) \<Rightarrow>
          (let (bs, changed) = rewrite_md_brokers m (md_brokers resp) in
           if \<not> changed then None
           else encode_response C version cid (resp\<lparr>md_brokers := bs\<rparr>)))"

definition rewrite_describe_cluster_response ::
  "'r describe_cluster_response codec \<Rightarrow> i16 \<Rightarrow> bytes \<Rightarrow> rewrite_map \<Rightarrow> bytes option" where
  "rewrite_describe_cluster_response C version raw m =
     (case decode_frame C raw version of
        None \<Rightarrow> None
      | Some (cid, resp) \<Rightarrow>
          (let (bs, changed) = rewrite_dc_brokers m (dc_brokers resp) in
           if \<not> changed then None
           else encode_response C version cid (resp\<lparr>dc_brokers := bs\<rparr>)))"

text \<open>Versions are signed 16-bit numbers: \<open>version <= 3\<close> compares them as such.\<close>

definition rewrite_find_coordinator_response ::
  "'r find_coordinator_response codec \<Rightarrow> i16 \<Rightarrow> bytes \<Rightarrow> rewrite_map \<Rightarrow> bytes option" where
  "rewrite_find_coordinator_response C version raw m =
     (case decode_frame C raw version of
        None \<Rightarrow> None
      | Some (cid, resp) \<Rightarrow>
          (let (resp', changed) =
             (if version \<le>s 3 then
                (case m (fc_node_id resp) of
                   Some (host, port) \<Rightarrow> (resp\<lparr>fc_host := host, fc_port := ucast port\<rparr>, True)
                 | None \<Rightarrow> (resp, False))
              else
                (let (cs, ch) = rewrite_coordinators m (fc_coordinators resp)
                 in (resp\<lparr>fc_coordinators := cs\<rparr>, ch)))
           in if \<not> changed then None else encode_response C version cid resp'))"

definition rewrite_response ::
  "('r1, 'r2, 'r3) kafka_protocol \<Rightarrow> i16 \<Rightarrow> i16 \<Rightarrow> bytes \<Rightarrow> rewrite_map \<Rightarrow> bytes option" where
  "rewrite_response P api_key version raw m =
     (if api_key = API_KEY_METADATA then rewrite_metadata_response (metadata_codec P) version raw m
      else if api_key = API_KEY_DESCRIBE_CLUSTER
        then rewrite_describe_cluster_response (describe_cluster_codec P) version raw m
      else if api_key = API_KEY_FIND_COORDINATOR
        then rewrite_find_coordinator_response (find_coordinator_codec P) version raw m
      else None)"

section \<open>Header parsers\<close>

definition parse_request_header :: "bytes \<Rightarrow> (i16 \<times> i16 \<times> i32) option" where
  "parse_request_header raw =
     (if length raw < 8 then None
      else Option.bind (get_i16 raw) (\<lambda>(api_key, cur).
           Option.bind (get_i16 cur) (\<lambda>(api_version, cur).
           Option.bind (get_i32 cur) (\<lambda>(correlation_id, _).
           Some (api_key, api_version, correlation_id)))))"

definition parse_response_cid :: "bytes \<Rightarrow> i32 option" where
  "parse_response_cid raw =
     (if length raw < 4 then None else map_option fst (get_i32 (take 4 raw)))"

definition needs_rewrite :: "i16 \<Rightarrow> bool" where
  "needs_rewrite api_key \<longleftrightarrow>
     api_key = API_KEY_METADATA \<or> api_key = API_KEY_DESCRIBE_CLUSTER \<or> api_key = API_KEY_FIND_COORDINATOR"

lemmas api_keys = API_KEY_METADATA_def API_KEY_DESCRIBE_CLUSTER_def API_KEY_FIND_COORDINATOR_def

section \<open>The varint is a prefix code of at most five bytes\<close>

lemma encode_unsigned_varint_append: "encode_unsigned_varint (a @ b) v = a @ encode_unsigned_varint b v"
proof (induction b v rule: encode_unsigned_varint.induct)
  case (1 b v)
  then show ?case by (subst (1 2) encode_unsigned_varint.simps) simp
qed

lemma encode_unsigned_varint_rec:
  "encode_unsigned_varint [] v =
     (if 128 \<le> v then (ucast v OR 128) # encode_unsigned_varint [] (drop_bit 7 v) else [ucast v])"
  using encode_unsigned_varint_append[of "[ucast v OR 128]" "[]"]
  by (subst encode_unsigned_varint.simps) simp

lemma encode_unsigned_varint_zero: "encode_unsigned_varint buf 0 = buf @ [0]"
  by (subst encode_unsigned_varint.simps) simp

text \<open>The reader of the format: seven bits a byte, least significant first, the high bit set on
  every byte but the last.\<close>

fun decode_unsigned_varint :: "bytes \<Rightarrow> (nat \<times> bytes) option" where
  "decode_unsigned_varint [] = None"
| "decode_unsigned_varint (b # bs) =
     (if b < 128 then Some (unat b, bs)
      else (case decode_unsigned_varint bs of
              None \<Rightarrow> None
            | Some (n, rest) \<Rightarrow> Some (unat (b AND 127) + 128 * n, rest)))"

lemma low_seven_bits: "unat ((ucast (v :: u32) OR 128 :: u8) AND 127) = unat v mod 128"
proof -
  have "(127 :: u8) = mask 7" by (simp add: mask_eq_exp_minus_1)
  then have "(ucast v OR 128 :: u8) AND 127 = take_bit 7 (ucast v OR 128)"
    by (simp only: take_bit_eq_mask)
  also have "\<dots> = take_bit 7 (ucast v)" by simp
  finally have "unat ((ucast v OR 128 :: u8) AND 127) = take_bit 7 (unat (ucast v :: u8))"
    by (simp add: unsigned_take_bit_eq)
  also have "unat (ucast v :: u8) = take_bit 8 (unat v)"
    by (simp add: unsigned_ucast_eq)
  finally show ?thesis by (simp add: take_bit_eq_mod mod_mod_cancel)
qed

lemma continuation_bit: "\<not> (ucast (v :: u32) OR 128 :: u8) < 128"
  using le_word_or1[of 128 "ucast v :: u8"] by simp

lemma last_byte: "(v :: u32) < 128 \<Longrightarrow> (ucast v :: u8) < 128 \<and> unat (ucast v :: u8) = unat v"
  by (simp add: unsigned_ucast_eq take_bit_eq_mod word_less_nat_alt)

lemma unat_drop_seven: "unat (drop_bit 7 v) = unat (v :: u32) div 128"
  by (simp add: drop_bit_eq_div unat_div_distrib)

lemma decode_encode_varint:
  "decode_unsigned_varint (encode_unsigned_varint [] v @ rest) = Some (unat v, rest)"
proof (induction "unat v" arbitrary: v rule: less_induct)
  case less
  show ?case
  proof (cases "128 \<le> v")
    case False
    then show ?thesis using last_byte[of v] by (subst encode_unsigned_varint_rec) simp
  next
    case True
    note unat_drop_seven[of v]
    moreover have "0 < unat v" using True by (simp add: word_le_nat_alt)
    ultimately have "decode_unsigned_varint (encode_unsigned_varint [] (drop_bit 7 v) @ rest)
        = Some (unat v div 128, rest)"
      using less[of "drop_bit 7 v"] by simp
    then show ?thesis using True continuation_bit[of v]
      by (subst encode_unsigned_varint_rec) (simp add: low_seven_bits)
  qed
qed

lemma length_encode_varint_le:
  "unat v < 128 ^ Suc k \<Longrightarrow> length (encode_unsigned_varint [] v) \<le> Suc k"
proof (induction k arbitrary: v)
  case 0
  then show ?case by (subst encode_unsigned_varint_rec) (simp add: word_le_nat_alt)
next
  case (Suc k)
  then have "unat (drop_bit 7 v) < 128 ^ Suc k"
    by (simp only: unat_drop_seven power_Suc less_mult_imp_div_less mult.commute)
  then have "length (encode_unsigned_varint [] (drop_bit 7 v)) \<le> Suc k" by (rule Suc.IH)
  then show ?case by (subst encode_unsigned_varint_rec) simp
qed

lemma length_encode_varint: "1 \<le> length (encode_unsigned_varint [] v) \<and> length (encode_unsigned_varint [] v) \<le> 5"
proof
  show "1 \<le> length (encode_unsigned_varint [] v)" by (subst encode_unsigned_varint_rec) simp
  have "unat v < 2 ^ LENGTH(32)" by (rule unsigned_less)
  then have "unat v < 128 ^ Suc 4" by simp
  then show "length (encode_unsigned_varint [] v) \<le> 5" using length_encode_varint_le[of v 4] by simp
qed

section \<open>One interface for the three broker loops\<close>

text \<open>The three loops differ in the record they update. What they share: an entry has an id, a
  host and a port, the update sets host and port and nothing else, and the loop visits every
  entry once.\<close>

locale broker_rewriter =
  fixes loop :: "rewrite_map \<Rightarrow> 'b list \<Rightarrow> 'b list \<times> bool"
    and rid :: "'b \<Rightarrow> i32"
    and rhost :: "'b \<Rightarrow> string"
    and rport :: "'b \<Rightarrow> i32"
    and upd :: "string \<Rightarrow> i32 \<Rightarrow> 'b \<Rightarrow> 'b"
  assumes loop_Nil: "loop m [] = ([], False)"
    and loop_hit: "m (rid b) = Some (h, p) \<Longrightarrow> loop m (b # bs) = (upd h (ucast p) b # fst (loop m bs), True)"
    and loop_miss: "m (rid b) = None \<Longrightarrow> loop m (b # bs) = (b # fst (loop m bs), snd (loop m bs))"
    and upd_id: "rid (upd h q b) = rid b"
    and upd_host: "rhost (upd h q b) = h"
    and upd_port: "rport (upd h q b) = q"
    and upd_upd: "upd h q (upd h' q' b) = upd h q b"
begin

lemma loop_fst:
  "fst (loop m bs) = map (\<lambda>b. case m (rid b) of Some (h, p) \<Rightarrow> upd h (ucast p) b | None \<Rightarrow> b) bs"
proof (induction bs)
  case (Cons b bs)
  then show ?case by (cases "m (rid b)") (auto simp: loop_hit loop_miss)
qed (simp add: loop_Nil)

lemma loop_snd: "snd (loop m bs) \<longleftrightarrow> (\<exists>b \<in> set bs. rid b \<in> dom m)"
proof (induction bs)
  case (Cons b bs)
  then show ?case by (cases "m (rid b)") (auto simp: loop_hit loop_miss)
qed (simp add: loop_Nil)

lemma loop_ids: "map rid (fst (loop m bs)) = map rid bs"
  by (auto simp: loop_fst upd_id split: option.splits)

lemma loop_mapped:
  "b \<in> set (fst (loop m bs)) \<Longrightarrow> m (rid b) = Some (h, p) \<Longrightarrow> rhost b = h \<and> rport b = ucast p"
  by (auto simp: loop_fst upd_id upd_host upd_port split: option.splits)

lemma loop_unmapped:
  "b \<in> set (fst (loop m bs)) \<Longrightarrow> m (rid b) = None \<Longrightarrow> b \<in> set bs"
  by (auto simp: loop_fst upd_id split: option.splits)

lemma loop_idem: "fst (loop m (fst (loop m bs))) = fst (loop m bs)"
  by (auto simp: loop_fst upd_id upd_upd split: option.splits)

lemma loop_unchanged: "\<not> snd (loop m bs) \<Longrightarrow> fst (loop m bs) = bs"
  by (induction bs) (auto simp: loop_fst loop_snd dom_def split: option.splits)

end

interpretation md: broker_rewriter rewrite_md_brokers md_node_id md_host md_port
    "\<lambda>h q b. b\<lparr>md_host := h, md_port := q\<rparr>"
  by unfold_locales (auto simp: case_prod_beta)

interpretation dc: broker_rewriter rewrite_dc_brokers dc_broker_id dc_host dc_port
    "\<lambda>h q b. b\<lparr>dc_host := h, dc_port := q\<rparr>"
  by unfold_locales (auto simp: case_prod_beta)

interpretation co: broker_rewriter rewrite_coordinators co_node_id co_host co_port
    "\<lambda>h q b. b\<lparr>co_host := h, co_port := q\<rparr>"
  by unfold_locales (auto simp: case_prod_beta)

section \<open>Rewritten frames\<close>

text \<open>What the code relies on of a codec: the correlation id it returns is the frame's first
  field, and a body it encodes, behind the response header of the version (the correlation id,
  and on flexible versions an empty list of tagged fields), decodes to the same message. The
  second is asked of one message at one version: fields a version lacks do not round-trip.\<close>

definition codec_cid :: "'m codec \<Rightarrow> bool" where
  "codec_cid C \<longleftrightarrow>
     (\<forall>raw v cid r. decode_frame C raw v = Some (cid, r) \<longrightarrow> parse_response_cid raw = Some cid)"

definition codec_roundtrip :: "'m codec \<Rightarrow> i16 \<Rightarrow> 'm \<Rightarrow> bool" where
  "codec_roundtrip C v r \<longleftrightarrow>
     (\<forall>cid body.
        (is_flexible_version C v \<and> flexible_encode C r v = Some body \<longrightarrow>
           decode_frame C (put_i32 cid @ 0 # body) v = Some (cid, r)) \<and>
        (\<not> is_flexible_version C v \<and> encode C r v = Some body \<longrightarrow>
           decode_frame C (put_i32 cid @ body) v = Some (cid, r)))"

lemma encode_response_prefix:
  "encode_response C v cid r = Some out \<Longrightarrow> \<exists>body. out = put_i32 cid @ body"
  by (auto simp: encode_response_def Let_def encode_unsigned_varint_zero split: option.splits if_splits)

lemma encode_response_decodes:
  "codec_roundtrip C v r \<Longrightarrow> encode_response C v cid r = Some out \<Longrightarrow> decode_frame C out v = Some (cid, r)"
  by (auto simp: encode_response_def Let_def encode_unsigned_varint_zero codec_roundtrip_def
      split: option.splits if_splits)

lemma parse_response_cid_put [simp, codec_simps]: "parse_response_cid (put_i32 cid @ rest) = Some cid"
  using get_put_i32[of cid "[]"] by (simp add: parse_response_cid_def)

lemma parse_response_cid_None_iff: "parse_response_cid raw = None \<longleftrightarrow> length raw < 4"
  by (auto simp: parse_response_cid_def get_i32_None_iff)

lemma parse_response_cid_Some:
  "parse_response_cid raw = Some cid \<longleftrightarrow> 4 \<le> length raw \<and> take 4 raw = put_i32 cid"
proof (cases "4 \<le> length raw")
  case True
  then obtain w where w: "get_i32 (take 4 raw) = Some (w, [])"
    using get_i32_exists[of "take 4 raw"] by auto
  then have "take 4 raw = put_i32 w" using put_get_i32[OF w] by simp
  then show ?thesis using w True by (auto simp: parse_response_cid_def f32.put_inject)
qed (simp add: parse_response_cid_def)

lemma parse_request_header_Some:
  "parse_request_header raw = Some (k, v, cid) \<longleftrightarrow>
     (\<exists>rest. raw = put_i16 k @ put_i16 v @ put_i32 cid @ rest)"
proof
  assume "parse_request_header raw = Some (k, v, cid)"
  then show "\<exists>rest. raw = put_i16 k @ put_i16 v @ put_i32 cid @ rest"
    by (auto simp: parse_request_header_def bind_eq_Some_conv f16.get_eq_iff f32.get_eq_iff
        split: if_splits)
next
  assume "\<exists>rest. raw = put_i16 k @ put_i16 v @ put_i32 cid @ rest"
  then show "parse_request_header raw = Some (k, v, cid)"
    by (auto simp: parse_request_header_def)
qed

lemma parse_request_header_None_iff: "parse_request_header raw = None \<longleftrightarrow> length raw < 8"
proof
  assume none: "parse_request_header raw = None"
  show "length raw < 8"
  proof (rule ccontr)
    assume long: "\<not> length raw < 8"
    then have l: "2 \<le> length raw" "2 \<le> length (drop 2 raw)" "4 \<le> length (drop 2 (drop 2 raw))"
      by simp_all
    from get_i16_exists[OF l(1)] obtain k where k: "get_i16 raw = Some (k, drop 2 raw)" ..
    from get_i16_exists[OF l(2)] obtain v
      where v: "get_i16 (drop 2 raw) = Some (v, drop 2 (drop 2 raw))" ..
    from get_i32_exists[OF l(3)] obtain c
      where c: "get_i32 (drop 2 (drop 2 raw)) = Some (c, drop 4 (drop 2 (drop 2 raw)))" ..
    show False using none long k v c by (simp add: parse_request_header_def del: drop_drop)
  qed
qed (simp add: parse_request_header_def)

lemma rewrite_response_needs: "\<not> needs_rewrite k \<Longrightarrow> rewrite_response P k v raw m = None"
  by (simp add: rewrite_response_def needs_rewrite_def)


section \<open>Properties\<close>

text \<open>C29: The unsigned varint of any 32-bit value is one to five bytes, and reading it back from the
  front of a buffer gives the value and the rest.\<close>

theorem varint_roundtrip:
  "decode_unsigned_varint (encode_unsigned_varint [] v @ rest) = Some (unat v, rest)
   \<and> 1 \<le> length (encode_unsigned_varint [] v) \<and> length (encode_unsigned_varint [] v) \<le> 5"
  using decode_encode_varint[of v rest] length_encode_varint[of v] by blast

text \<open>The request header parser reads the key, the version and the correlation id that a frame
  starts with, and refuses exactly the frames shorter than eight bytes.\<close>

theorem request_header_exact:
  "(parse_request_header raw = Some (k, v, cid) \<longleftrightarrow> (\<exists>rest. raw = put_i16 k @ put_i16 v @ put_i32 cid @ rest))
   \<and> (parse_request_header raw = None \<longleftrightarrow> length raw < 8)"
  using parse_request_header_Some parse_request_header_None_iff by blast

end
