(* ===== verification/Pool.thy ===== *)
theory Pool
  imports CidRemap Upstream Rewrite
begin

text \<open>
  The per-broker connection pool and its two connection tasks, \<open>BrokerPool\<close>, \<open>write_loop\<close>,
  \<open>read_loop\<close> and \<open>route_response\<close> in \<open>src/src/pool.rs\<close>. Between two awaits a task runs alone:
  each such section is one function on the pool; \<open>acquire\<close> is their composition over an
  environment that says what the network and the other tasks do at the awaits. The upstream
  handshake and the sockets are outcomes given to the functions. The table of requests and the
  metrics, which all pools share, are part of the pool's record.
\<close>

section \<open>State\<close>

definition as_secs_f64 :: "nat \<Rightarrow> rat" where
  "as_secs_f64 ns = of_nat ns / 1000000000"

record pooled_conn =
  pc_write_tx :: channel
  pc_alive :: bool
  pc_last_used :: instant
  pc_conn_id :: conn_id

record pool_limits =
  max_per_broker :: nat
  min_idle :: nat
  idle_timeout :: nat
  acquire_timeout :: nat
  pl_max_in_flight :: nat

text \<open>\<open>tokio::sync::Notify\<close>: a notification goes to a registered waiter, or is stored as a
  single permit when nobody waits.\<close>

record notify =
  n_waiting :: nat
  n_notified :: nat
  n_permit :: bool

record broker_pool =
  bp_limits :: pool_limits
  bp_idle :: "pooled_conn list"
  bp_count :: nat
  bp_notify :: notify
  bp_next_tx :: channel
  bp_remap :: cid_remap
  bp_metrics :: metrics

record acquired =
  acq_write_tx :: channel
  acq_conn_id :: conn_id

datatype 'e pool_error = PoolUpstream 'e | AcquireTimeout

definition broker_pool_new :: "pool_limits \<Rightarrow> cid_remap \<Rightarrow> metrics \<Rightarrow> broker_pool" where
  "broker_pool_new limits remap m =
     \<lparr>bp_limits = limits, bp_idle = [], bp_count = 0,
      bp_notify = \<lparr>n_waiting = 0, n_notified = 0, n_permit = False\<rparr>,
      bp_next_tx = 0, bp_remap = remap, bp_metrics = m\<rparr>"

definition on_metrics :: "(metrics \<Rightarrow> metrics) \<Rightarrow> broker_pool \<Rightarrow> broker_pool" where
  "on_metrics f p = p\<lparr>bp_metrics := f (bp_metrics p)\<rparr>"

definition notify_one :: "notify \<Rightarrow> notify" where
  "notify_one n = (if 0 < n_waiting n then n\<lparr>n_waiting := n_waiting n - 1, n_notified := n_notified n + 1\<rparr>
                   else n\<lparr>n_permit := True\<rparr>)"

section \<open>Acquire\<close>

text \<open>Step 1: pop the front of the idle queue; a popped connection that is not alive is dropped.
  \<open>elapsed\<close> is \<open>started.elapsed()\<close> in nanoseconds.\<close>

definition acquire_idle :: "nat \<Rightarrow> broker_pool \<Rightarrow> acquired option \<times> broker_pool" where
  "acquire_idle elapsed p =
     (case bp_idle p of
        [] \<Rightarrow> (None, p)
      | conn # rest \<Rightarrow>
          (let p = p\<lparr>bp_idle := rest\<rparr> in
           if pc_alive conn then
             (Some \<lparr>acq_write_tx = pc_write_tx conn, acq_conn_id = pc_conn_id conn\<rparr>,
              on_metrics (observe_acquire (as_secs_f64 elapsed) \<circ> inc_pool_hits) p)
           else (None, p)))"

text \<open>Step 2: reserve a slot under the lock of the counter.\<close>

definition acquire_reserve :: "nat \<Rightarrow> broker_pool \<Rightarrow> bool \<times> broker_pool" where
  "acquire_reserve elapsed p =
     (if bp_count p < max_per_broker (bp_limits p) then
        (True, on_metrics (observe_acquire (as_secs_f64 elapsed) \<circ> inc_pool_misses)
                 (p\<lparr>bp_count := bp_count p + 1\<rparr>))
      else (False, p))"

definition create_conn ::
  "'e + unit \<Rightarrow> nat \<Rightarrow> broker_pool \<Rightarrow> ('e pool_error + channel \<times> conn_id) \<times> broker_pool" where
  "create_conn connect elapsed p =
     (case connect of
        Inl e \<Rightarrow> (Inl (PoolUpstream e), p)
      | Inr _ \<Rightarrow>
          (let p = on_metrics (observe_handshake (as_secs_f64 elapsed)) p;
               tx = bp_next_tx p;
               (conn, remap) = alloc_conn_id (bp_remap p)
           in (Inr (tx, conn), p\<lparr>bp_next_tx := tx + 1, bp_remap := remap\<rparr>)))"

text \<open>\<open>*c -= 1\<close> on a \<open>usize\<close>: without overflow checks zero wraps to \<open>2^64 - 1\<close>.\<close>

definition dec_usize :: "nat \<Rightarrow> nat" where
  "dec_usize c = (if c = 0 then 2 ^ 64 - 1 else c - 1)"

text \<open>The rest of step 2, after the handshake: on failure the slot is given back.\<close>

definition acquire_create ::
  "'e + unit \<Rightarrow> nat \<Rightarrow> broker_pool \<Rightarrow> ('e pool_error + acquired) \<times> broker_pool" where
  "acquire_create connect elapsed p =
     (case create_conn connect elapsed p of
        (Inr (tx, conn), p) \<Rightarrow>
          (Inr \<lparr>acq_write_tx = tx, acq_conn_id = conn\<rparr>, on_metrics inc_upstream_connections p)
      | (Inl e, p) \<Rightarrow>
          (Inl e, on_metrics inc_auth_failures (p\<lparr>bp_count := dec_usize (bp_count p)\<rparr>)))"

text \<open>Step 3: wait. A stored permit is taken at once (\<open>True\<close>); otherwise the task registers.\<close>

definition acquire_enqueue :: "broker_pool \<Rightarrow> bool \<times> broker_pool" where
  "acquire_enqueue p =
     (let p = on_metrics inc_pool_waiters p; n = bp_notify p in
      if n_permit n then (True, p\<lparr>bp_notify := n\<lparr>n_permit := False\<rparr>\<rparr>)
      else (False, p\<lparr>bp_notify := n\<lparr>n_waiting := n_waiting n + 1\<rparr>\<rparr>))"

definition acquire_woken :: "nat \<Rightarrow> broker_pool \<Rightarrow> broker_pool" where
  "acquire_woken elapsed p = on_metrics (observe_acquire (as_secs_f64 elapsed) \<circ> dec_pool_waiters) p"

definition take_notification :: "broker_pool \<Rightarrow> broker_pool" where
  "take_notification p = p\<lparr>bp_notify := (bp_notify p)\<lparr>n_notified := n_notified (bp_notify p) - 1\<rparr>\<rparr>"

definition acquire_timed_out :: "broker_pool \<Rightarrow> broker_pool" where
  "acquire_timed_out p =
     on_metrics dec_pool_waiters
       (p\<lparr>bp_notify := (bp_notify p)\<lparr>n_waiting := n_waiting (bp_notify p) - 1\<rparr>\<rparr>)"

text \<open>One round of the loop against its environment: what other tasks do before the counter is
  locked, during the handshake and during the wait, the handshake's outcome, and whether a
  notification arrives before the timeout.\<close>

record 'e acquire_env =
  ae_elapsed :: nat
  ae_gap_count :: "broker_pool \<Rightarrow> broker_pool"
  ae_connect :: "'e + unit"
  ae_handshake :: nat
  ae_gap_handshake :: "broker_pool \<Rightarrow> broker_pool"
  ae_notified :: bool
  ae_gap_wait :: "broker_pool \<Rightarrow> broker_pool"

definition acquire_round ::
  "'e acquire_env \<Rightarrow> broker_pool \<Rightarrow> ('e pool_error + acquired) option \<times> broker_pool" where
  "acquire_round env p =
     (case acquire_idle (ae_elapsed env) p of
        (Some a, p) \<Rightarrow> (Some (Inr a), p)
      | (None, p) \<Rightarrow>
          (case acquire_reserve (ae_elapsed env) (ae_gap_count env p) of
             (True, p) \<Rightarrow>
               (case acquire_create (ae_connect env) (ae_handshake env) (ae_gap_handshake env p) of
                  (r, p) \<Rightarrow> (Some r, p))
           | (False, p) \<Rightarrow>
               (case acquire_enqueue p of
                  (True, p) \<Rightarrow> (None, acquire_woken (ae_elapsed env) p)
                | (False, p) \<Rightarrow>
                    (let p = ae_gap_wait env p in
                     if ae_notified env
                     then (None, acquire_woken (ae_elapsed env) (take_notification p))
                     else (Some (Inl AcquireTimeout), acquire_timed_out p)))))"

text \<open>The loop over a finite environment: \<open>None\<close> means it is still waiting at the end.\<close>

fun acquire ::
  "'e acquire_env list \<Rightarrow> broker_pool \<Rightarrow> ('e pool_error + acquired) option \<times> broker_pool" where
  "acquire [] p = (None, p)"
| "acquire (env # envs) p =
     (case acquire_round env p of
        (Some r, p) \<Rightarrow> (Some r, p)
      | (None, p) \<Rightarrow> acquire envs p)"

section \<open>Release, warm-up, reaper\<close>

definition release :: "instant \<Rightarrow> conn_id \<Rightarrow> channel \<Rightarrow> broker_pool \<Rightarrow> broker_pool" where
  "release now conn tx p =
     (let pc = \<lparr>pc_write_tx = tx, pc_alive = True, pc_last_used = now, pc_conn_id = conn\<rparr>;
          p = (if length (bp_idle p) < max_per_broker (bp_limits p)
               then p\<lparr>bp_idle := bp_idle p @ [pc]\<rparr> else p)
      in p\<lparr>bp_notify := notify_one (bp_notify p)\<rparr>)"

definition idle_count :: "broker_pool \<Rightarrow> nat" where
  "idle_count p = length (bp_idle p)"

text \<open>\<open>connects i\<close> is the outcome of the \<open>i\<close>-th handshake, \<open>done_at i\<close> its duration and the
  instant it ends.\<close>

fun warmup_loop :: "(nat \<Rightarrow> 'e + unit) \<Rightarrow> (nat \<Rightarrow> nat \<times> instant) \<Rightarrow> nat list \<Rightarrow> broker_pool \<Rightarrow> broker_pool" where
  "warmup_loop connects done_at [] p = p"
| "warmup_loop connects done_at (i # js) p =
     (case create_conn (connects i) (fst (done_at i)) p of
        (Inr (tx, conn), p) \<Rightarrow>
          (let p = on_metrics inc_upstream_connections p;
               pc = \<lparr>pc_write_tx = tx, pc_alive = True, pc_last_used = snd (done_at i), pc_conn_id = conn\<rparr>
           in warmup_loop connects done_at js (p\<lparr>bp_idle := bp_idle p @ [pc]\<rparr>))
      | (Inl e, p) \<Rightarrow> p)"

definition warmup :: "(nat \<Rightarrow> 'e + unit) \<Rightarrow> (nat \<Rightarrow> nat \<times> instant) \<Rightarrow> broker_pool \<Rightarrow> broker_pool" where
  "warmup connects done_at p =
     (let target = min_idle (bp_limits p) in
      if target = 0 then p else warmup_loop connects done_at [0..<target] p)"

definition keep_conn :: "instant \<Rightarrow> nat \<Rightarrow> pooled_conn \<Rightarrow> bool" where
  "keep_conn now timeout conn \<longleftrightarrow>
     (let expired = timeout \<le> now - pc_last_used conn in \<not> (expired \<or> \<not> pc_alive conn))"

definition reaper_tick :: "instant \<Rightarrow> broker_pool \<Rightarrow> broker_pool" where
  "reaper_tick now p =
     (let before = length (bp_idle p);
          p = p\<lparr>bp_idle := filter (keep_conn now (idle_timeout (bp_limits p))) (bp_idle p)\<rparr>;
          removed = before - length (bp_idle p);
          p = on_metrics ((dec_upstream_connections \<circ> inc_pool_evictions) ^^ removed) p
      in if 0 < removed
         then p\<lparr>bp_count := bp_count p - removed, bp_notify := notify_one (bp_notify p)\<rparr>
         else p)"

section \<open>Requests\<close>

definition register_request ::
  "channel \<Rightarrow> i32 \<Rightarrow> i16 \<Rightarrow> i16 \<Rightarrow> conn_id \<Rightarrow> instant \<Rightarrow> broker_pool \<Rightarrow> i32 option \<times> broker_pool" where
  "register_request tx cid_d api_key api_version conn now p =
     (case remap_insert tx cid_d api_key api_version conn now (bp_remap p) (bp_metrics p) of
        (c, r, m) \<Rightarrow> (c, p\<lparr>bp_remap := r, bp_metrics := m\<rparr>))"

definition cancel_request :: "i32 \<Rightarrow> broker_pool \<Rightarrow> broker_pool" where
  "cancel_request cid_u p =
     (case remap_take cid_u (bp_remap p) (bp_metrics p) of
        (e, r, m) \<Rightarrow>
          (let p = p\<lparr>bp_remap := r, bp_metrics := m\<rparr> in
           if e \<noteq> None then on_metrics dec_requests_in_flight p else p))"

section \<open>The tasks of an upstream connection\<close>

text \<open>The write loop as a step per \<open>select!\<close> outcome: a request from the channel with the result
  of \<open>sink.send\<close>, the closed channel, the flush timer with the result of \<open>flush\<close>, a response
  frame with whether the read task still listens, a read error, end of stream. \<open>wl_sent\<close> is what
  went into the sink, \<open>wl_flushed\<close> how much of it is flushed, \<open>wl_fwd\<close> what went to the read
  task. The result is \<open>None\<close> when the loop breaks.\<close>

datatype wl_event =
    WlRequest bytes bool
  | WlClosed
  | WlTick bool
  | WlFrame bytes bool
  | WlReadError
  | WlEof

record wl_state =
  wl_sent :: "bytes list"
  wl_flushed :: nat
  wl_needs_flush :: bool
  wl_fwd :: "bytes list"
  wl_metrics :: metrics
  wl_running :: bool

fun write_loop_step :: "wl_event \<Rightarrow> wl_state \<Rightarrow> wl_state" where
  "write_loop_step (WlRequest frame send_ok) s =
     (if \<not> send_ok then s\<lparr>wl_running := False\<rparr>
      else s\<lparr>wl_sent := wl_sent s @ [frame], wl_needs_flush := True\<rparr>)"
| "write_loop_step WlClosed s = s\<lparr>wl_flushed := length (wl_sent s), wl_running := False\<rparr>"
| "write_loop_step (WlTick flush_ok) s =
     (if wl_needs_flush s then
        (if \<not> flush_ok then s\<lparr>wl_running := False\<rparr>
         else s\<lparr>wl_flushed := length (wl_sent s), wl_needs_flush := False\<rparr>)
      else s)"
| "write_loop_step (WlFrame data read_ok) s =
     (let s = s\<lparr>wl_metrics := add_bytes_upstream (of_nat (length data)) (inc_frames_upstream (wl_metrics s))\<rparr>
      in if \<not> read_ok then s\<lparr>wl_running := False\<rparr>
         else s\<lparr>wl_fwd := wl_fwd s @ [data]\<rparr>)"
| "write_loop_step WlReadError s = s\<lparr>wl_running := False\<rparr>"
| "write_loop_step WlEof s = s\<lparr>wl_running := False\<rparr>"

fun write_loop_run :: "wl_event list \<Rightarrow> wl_state \<Rightarrow> wl_state" where
  "write_loop_run [] s = s"
| "write_loop_run (e # es) s =
     (if wl_running s then write_loop_run es (write_loop_step e s) else s)"

text \<open>After the loop: the connection's requests leave the table, each of them leaves the
  in-flight gauge, and the connection leaves the connection gauge. The decrements are the loop
  \<open>for _ in 0..removed\<close>: all together they subtract \<open>removed\<close>.\<close>

definition sub_requests_in_flight :: "u64 \<Rightarrow> metrics \<Rightarrow> metrics" where
  "sub_requests_in_flight n m = (dec_requests_in_flight ^^ unat n) m"

definition write_loop_exit ::
  "bool \<Rightarrow> (cid_remap \<Rightarrow> cid_remap) \<Rightarrow> (cid_remap \<Rightarrow> cid_remap) \<Rightarrow> conn_id \<Rightarrow> broker_pool \<Rightarrow> broker_pool option" where
  "write_loop_exit checks gap1 gap2 conn p =
     (case fail_conn checks gap1 gap2 conn (bp_remap p) (bp_metrics p) of
        None \<Rightarrow> None
      | Some (removed, r, m) \<Rightarrow>
          Some (on_metrics (inc_pool_evictions \<circ> dec_upstream_connections \<circ>
                  (if 0 < removed then sub_requests_in_flight removed else id))
                (p\<lparr>bp_remap := r, bp_metrics := m\<rparr>)))"

definition route_response ::
  "('r1, 'r2, 'r3) kafka_protocol \<Rightarrow> bytes \<Rightarrow> route_entry \<Rightarrow> rewrite_map \<Rightarrow> bytes" where
  "route_response P data entry m =
     (let base = (case rewrite_response P (re_api_key entry) (re_api_version entry) data m of
                    Some rewritten \<Rightarrow> rewritten
                  | None \<Rightarrow> data)
      in put_i32 (re_cid_d entry) @ drop 4 base)"

text \<open>The reply channels of the downstream connections: bounded queues that may be closed.
  \<open>try_send\<close> fails on a full or closed channel.\<close>

record chan =
  ch_queue :: "bytes list"
  ch_capacity :: nat
  ch_open :: bool

definition try_send :: "channel \<Rightarrow> bytes \<Rightarrow> (channel \<Rightarrow> chan) \<Rightarrow> bool \<times> (channel \<Rightarrow> chan)" where
  "try_send tx frame chans =
     (let c = chans tx in
      if ch_open c \<and> length (ch_queue c) < ch_capacity c
      then (True, chans(tx := c\<lparr>ch_queue := ch_queue c @ [frame]\<rparr>))
      else (False, chans))"

record reader_state =
  rd_remap :: cid_remap
  rd_metrics :: metrics
  rd_chans :: "channel \<Rightarrow> chan"

definition read_loop_step ::
  "('r1, 'r2, 'r3) kafka_protocol \<Rightarrow> rewrite_map \<Rightarrow> instant \<Rightarrow> bytes \<Rightarrow> reader_state \<Rightarrow> reader_state" where
  "read_loop_step P rw now data s =
     (case parse_response_cid data of
        None \<Rightarrow> s
      | Some cid_u \<Rightarrow>
          (case remap_take cid_u (rd_remap s) (rd_metrics s) of
             (None, r, m) \<Rightarrow> s\<lparr>rd_remap := r, rd_metrics := m\<rparr>
           | (Some entry, r, m) \<Rightarrow>
               (let m = dec_requests_in_flight m;
                    m = observe_request (as_secs_f64 (now - re_started entry)) m;
                    out = route_response P data entry rw;
                    (_, chans) = try_send (re_downstream_tx entry) out (rd_chans s)
                in \<lparr>rd_remap = r, rd_metrics = m, rd_chans = chans\<rparr>)))"

definition read_loop ::
  "('r1, 'r2, 'r3) kafka_protocol \<Rightarrow> rewrite_map \<Rightarrow> (instant \<times> bytes) list \<Rightarrow> reader_state \<Rightarrow> reader_state" where
  "read_loop P rw frames s = fold (\<lambda>(now, data). read_loop_step P rw now data) frames s"

lemma on_metrics_frame [simp, frame_simps]:
  "bp_limits (on_metrics f p) = bp_limits p" "bp_idle (on_metrics f p) = bp_idle p"
  "bp_count (on_metrics f p) = bp_count p" "bp_notify (on_metrics f p) = bp_notify p"
  "bp_remap (on_metrics f p) = bp_remap p" "bp_next_tx (on_metrics f p) = bp_next_tx p"
  "bp_metrics (on_metrics f p) = f (bp_metrics p)"
  by (simp_all add: on_metrics_def)

definition all_alive :: "broker_pool \<Rightarrow> bool" where
  "all_alive p \<longleftrightarrow> (\<forall>c \<in> set (bp_idle p). pc_alive c)"

section \<open>Routing a response\<close>

text \<open>What routing relies on of the codec: the correlation id is a header the body does not
  depend on.\<close>

definition codec_header :: "'m codec \<Rightarrow> bool" where
  "codec_header C \<longleftrightarrow>
     (\<forall>c d rest v c' r. decode_frame C (put_i32 c @ rest) v = Some (c', r) \<longrightarrow>
        c' = c \<and> decode_frame C (put_i32 d @ rest) v = Some (d, r))"

definition encodable :: "'m codec \<Rightarrow> i16 \<Rightarrow> 'm \<Rightarrow> bool" where
  "encodable C v r \<longleftrightarrow> (if is_flexible_version C v then flexible_encode C r v else encode C r v) \<noteq> None"

lemma encode_response_Some:
  assumes "encodable C v r" and "codec_roundtrip C v r"
  shows "\<exists>body. encode_response C v cid r = Some (put_i32 cid @ body) \<and>
    (\<forall>d. decode_frame C (put_i32 d @ body) v = Some (d, r))"
proof (cases "is_flexible_version C v")
  case True
  then obtain b where b: "flexible_encode C r v = Some b" using assms(1) by (auto simp: encodable_def)
  then show ?thesis using True assms(2)
    by (intro exI[of _ "0 # b"]) (simp add: encode_response_def Let_def encode_unsigned_varint_zero codec_roundtrip_def)
next
  case False
  then obtain b where b: "encode C r v = Some b" using assms(1) by (auto simp: encodable_def)
  then show ?thesis using False assms(2)
    by (intro exI[of _ b]) (simp add: encode_response_def Let_def codec_roundtrip_def)
qed

text \<open>Routing in general: if the rewriter of the request's key turns the frame into the encoding of
  \<open>r'\<close>, or leaves a frame that already says \<open>r'\<close> alone, the routed frame says \<open>r'\<close> to the client.\<close>

lemma route_response_decodes:
  assumes hdr: "codec_header C" and rt: "codec_roundtrip C v r'" and enc: "encodable C v r'"
    and len: "4 \<le> length data"
    and dec: "decode_frame C data v = Some (cid_u, r)"
    and rw: "rewrite_response P (re_api_key e) (re_api_version e) data m =
      (if changed then encode_response C v cid_u r' else None)"
    and same: "\<not> changed \<longrightarrow> r' = r"
  shows "decode_frame C (route_response P data e m) v = Some (re_cid_d e, r')"
proof (cases changed)
  case True
  obtain body where "encode_response C v cid_u r' = Some (put_i32 cid_u @ body)"
    "decode_frame C (put_i32 (re_cid_d e) @ body) v = Some (re_cid_d e, r')"
    using encode_response_Some[OF enc rt, of cid_u] by blast
  then show ?thesis using True rw by (simp add: route_response_def)
next
  case False
  obtain c where "get_i32 data = Some (c, drop 4 data)" using get_i32_exists[OF len] by blast
  then have "data = put_i32 c @ drop 4 data" by (rule put_get_i32)
  then have "decode_frame C (put_i32 (re_cid_d e) @ drop 4 data) v = Some (re_cid_d e, r)"
    using hdr dec unfolding codec_header_def by metis
  then show ?thesis using False rw same by (simp add: route_response_def)
qed

lemma route_response_cid: "parse_response_cid (route_response P data e m) = Some (re_cid_d e)"
  by (simp add: route_response_def Let_def)

text \<open>A codec of two Metadata messages, for the witnesses: a broker at its real address and the same
  broker at the advertised one.\<close>

definition demo_md :: "string \<Rightarrow> i32 \<Rightarrow> unit metadata_response" where
  "demo_md host port = \<lparr>md_brokers = [\<lparr>md_node_id = 1, md_host = host, md_port = port, md_rack = None\<rparr>], md_rest = ()\<rparr>"

definition demo_codec :: "unit metadata_response codec" where
  "demo_codec =
     (let enc = (\<lambda>r (v :: i16). if r = demo_md ''real'' 9092 then Some [1]
                      else if r = demo_md ''proxy'' 19092 then Some [2 :: u8] else None)
      in \<lparr>decode_frame = (\<lambda>raw v. Option.bind (get_i32 raw) (\<lambda>(cid, body).
              if body = [1] then Some (cid, demo_md ''real'' 9092)
              else if body = [2] then Some (cid, demo_md ''proxy'' 19092) else None)),
          is_flexible_version = (\<lambda>_. False), encode = enc, flexible_encode = enc\<rparr>)"

definition demo_protocol :: "(unit, unit, unit) kafka_protocol" where
  "demo_protocol =
     \<lparr>metadata_codec = demo_codec,
      describe_cluster_codec = \<lparr>decode_frame = \<lambda>_ _. None, is_flexible_version = \<lambda>_. False,
                                encode = \<lambda>_ _. None, flexible_encode = \<lambda>_ _. None\<rparr>,
      find_coordinator_codec = \<lparr>decode_frame = \<lambda>_ _. None, is_flexible_version = \<lambda>_. False,
                                encode = \<lambda>_ _. None, flexible_encode = \<lambda>_ _. None\<rparr>\<rparr>"

definition demo_rewrite :: rewrite_map where "demo_rewrite = [1 \<mapsto> (''proxy'', 19092)]"

definition demo_entry :: route_entry where
  "demo_entry = \<lparr>re_downstream_tx = 0, re_cid_d = 42, re_api_key = 3, re_api_version = 9, re_started = 0, re_conn_id = 1\<rparr>"

lemma demo_codec_header: "codec_header demo_codec"
  by (auto simp: codec_header_def demo_codec_def Let_def split: if_splits)

lemma demo_codec_roundtrip: "codec_roundtrip demo_codec v r"
  by (auto simp: codec_roundtrip_def demo_codec_def Let_def split: if_splits)

lemma demo_rewritten: "fst (rewrite_md_brokers demo_rewrite (md_brokers (demo_md ''real'' 9092)))
    = md_brokers (demo_md ''proxy'' 19092)"
  by (simp add: demo_rewrite_def demo_md_def)

section \<open>Write loop\<close>

definition wl_start :: "metrics \<Rightarrow> wl_state" where
  "wl_start m = \<lparr>wl_sent = [], wl_flushed = 0, wl_needs_flush = False, wl_fwd = [], wl_metrics = m, wl_running = True\<rparr>"

fun wl_request :: "wl_event \<Rightarrow> bytes list" where
  "wl_request (WlRequest f _) = [f]"
| "wl_request _ = []"

fun wl_response :: "wl_event \<Rightarrow> bytes list" where
  "wl_response (WlFrame f _) = [f]"
| "wl_response _ = []"

definition wl_exec :: "wl_event \<Rightarrow> wl_state \<Rightarrow> wl_state" where
  "wl_exec e s = (if wl_running s then write_loop_step e s else s)"

lemma write_loop_run_fold: "write_loop_run es s = fold wl_exec es s"
proof (induction es arbitrary: s)
  case (Cons e es)
  have stop: "fold wl_exec es s = s" if "\<not> wl_running s"
    using that by (induction es) (simp_all add: wl_exec_def)
  have "wl_exec e s = (if wl_running s then write_loop_step e s else s)" by (rule wl_exec_def)
  then show ?case using Cons stop by simp
qed simp

interpretation wl_up: fifo_task wl_exec wl_sent wl_running wl_request "(=)"
proof
  show "\<exists>xs ys os. wl_request e = xs @ ys \<and> wl_sent (wl_exec e s) = wl_sent s @ os \<and> list_all2 (=) xs os \<and>
      (wl_running (wl_exec e s) \<longrightarrow> ys = [])" if "wl_running s" for s e
    using that by (cases e) (auto simp: wl_exec_def Let_def)
qed (simp add: wl_exec_def)

interpretation wl_down: fifo_task wl_exec wl_fwd wl_running wl_response "(=)"
proof
  show "\<exists>xs ys os. wl_response e = xs @ ys \<and> wl_fwd (wl_exec e s) = wl_fwd s @ os \<and> list_all2 (=) xs os \<and>
      (wl_running (wl_exec e s) \<longrightarrow> ys = [])" if "wl_running s" for s e
    using that by (cases e) (auto simp: wl_exec_def Let_def)
qed (simp add: wl_exec_def)

definition wl_ok :: "wl_state \<Rightarrow> bool" where
  "wl_ok s \<longleftrightarrow> wl_flushed s \<le> length (wl_sent s)
     \<and> (wl_running s \<and> \<not> wl_needs_flush s \<longrightarrow> wl_flushed s = length (wl_sent s))"

lemma wl_ok_step: "wl_ok s \<Longrightarrow> wl_running s \<Longrightarrow> wl_ok (write_loop_step e s)"
  by (cases e) (auto simp: wl_ok_def Let_def)

lemma wl_ok_run: "wl_ok s \<Longrightarrow> wl_ok (write_loop_run es s)"
  by (induction es arbitrary: s) (auto intro: wl_ok_step)

lemma dec_in_flight_iter:
  "requests_in_flight ((dec_requests_in_flight ^^ k) m) =
     (if metrics_on m then requests_in_flight m - of_nat k else requests_in_flight m)
   \<and> metrics_on ((dec_requests_in_flight ^^ k) m) = metrics_on m
   \<and> cid_map_entries ((dec_requests_in_flight ^^ k) m) = cid_map_entries m"
  by (induction k) (auto simp: dec_requests_in_flight_def metrics_on_def)

lemma reaper_gauge:
  "upstream_connections (((dec_upstream_connections \<circ> inc_pool_evictions) ^^ k) m) = upstream_connections m - of_nat k"
  by (induction k) (simp_all add: dec_upstream_connections_def inc_pool_evictions_def)

lemma exit_gauge:
  "upstream_connections ((inc_pool_evictions \<circ> dec_upstream_connections \<circ> f) m) = upstream_connections (f m) - 1"
  by (simp add: dec_upstream_connections_def inc_pool_evictions_def)

lemma dec_in_flight_upstream:
  "upstream_connections ((dec_requests_in_flight ^^ k) m) = upstream_connections m"
  by (induction k) (simp_all add: dec_requests_in_flight_def)

lemma fail_conn_upstream:
  "fail_conn b f g c r m = Some (n, r', m') \<Longrightarrow> upstream_connections m' = upstream_connections m"
  by (auto simp: fail_conn_def Let_def sub_cid_map_entries_def split: if_splits)

lemma read_loop_step_delivers:
  assumes "remap_inv (rd_remap s)" and "parse_response_cid data = Some c"
    and "dm_get (remap_map (rd_remap s)) c = Some e"
  shows "let s' = read_loop_step P rw now data s; tx = re_downstream_tx e; ch = rd_chans s tx in
    ch_queue (rd_chans s' tx) =
      (if ch_open ch \<and> length (ch_queue ch) < ch_capacity ch
       then ch_queue ch @ [route_response P data e rw] else ch_queue ch)
    \<and> (\<forall>other. other \<noteq> tx \<longrightarrow> rd_chans s' other = rd_chans s other)
    \<and> dm_get (remap_map (rd_remap s')) = (dm_get (remap_map (rd_remap s)))(c := None)
    \<and> Suc (in_flight (rd_remap s')) = in_flight (rd_remap s)"
proof -
  note inv = assms(1)[unfolded remap_inv_def]
  show ?thesis
    using assms(2,3) dm.len_rem_Some[OF inv assms(3)]
    by (auto simp: read_loop_step_def remap_take_def Let_def try_send_def dm.get_rem[OF inv] in_flight_def
        split: prod.splits)
qed

text \<open>An environment in which nobody interferes and no notification comes.\<close>

definition quiet :: "'e acquire_env \<Rightarrow> bool" where
  "quiet env \<longleftrightarrow> ae_gap_count env = id \<and> ae_gap_handshake env = id \<and> ae_gap_wait env = id \<and> \<not> ae_notified env"

lemmas acquire_steps = acquire_idle_def acquire_reserve_def acquire_enqueue_def acquire_woken_def
  acquire_timed_out_def acquire_create_def create_conn_def alloc_conn_id_def

lemmas waiter_metrics = inc_pool_hits_def inc_pool_misses_def inc_pool_waiters_def dec_pool_waiters_def
  inc_auth_failures_def inc_upstream_connections_def observe_acquire_def observe_handshake_def metrics_on_def

lemma quiet_round:
  assumes "quiet env" and "acquire_round env p = (res, p')"
  shows "pool_waiters (bp_metrics p') = pool_waiters (bp_metrics p) \<and> bp_limits p' = bp_limits p
    \<and> (res = Some (Inl AcquireTimeout) \<longrightarrow> max_per_broker (bp_limits p) \<le> bp_count p)
    \<and> (res = None \<longrightarrow> n_permit (bp_notify p) \<and> \<not> n_permit (bp_notify p') \<and> bp_count p' = bp_count p)"
  using assms
  by (auto simp: quiet_def acquire_round_def acquire_steps waiter_metrics Let_def
      split: list.splits if_splits sum.splits prod.splits)

section \<open>Properties\<close>

text \<open>C6: A Metadata response that comes back through the pool decodes, at the client, under the
  client's own correlation id, to the broker's message with exactly the mapped brokers at their
  advertised address and every other broker as it was.\<close>

theorem routed_metadata_advertised:
  assumes "codec_header (metadata_codec P)" and "re_api_key e = API_KEY_METADATA"
    and "4 \<le> length data"
    and "decode_frame (metadata_codec P) data (re_api_version e) = Some (cid_u, resp)"
    and "resp' = resp\<lparr>md_brokers := fst (rewrite_md_brokers m (md_brokers resp))\<rparr>"
    and "codec_roundtrip (metadata_codec P) (re_api_version e) resp'"
    and "encodable (metadata_codec P) (re_api_version e) resp'"
  shows "decode_frame (metadata_codec P) (route_response P data e m) (re_api_version e) = Some (re_cid_d e, resp')
    \<and> map md_node_id (md_brokers resp') = map md_node_id (md_brokers resp)
    \<and> (\<forall>b \<in> set (md_brokers resp'). case m (md_node_id b) of
          Some (host, port) \<Rightarrow> md_host b = host \<and> md_port b = ucast port
        | None \<Rightarrow> b \<in> set (md_brokers resp))"
proof (intro conjI ballI)
  let ?ch = "snd (rewrite_md_brokers m (md_brokers resp))"
  have "rewrite_response P (re_api_key e) (re_api_version e) data m =
      (if ?ch then encode_response (metadata_codec P) (re_api_version e) cid_u resp' else None)"
    using assms(2,4,5) by (simp add: rewrite_response_def rewrite_metadata_response_def case_prod_beta)
  moreover have "\<not> ?ch \<longrightarrow> resp' = resp" using assms(5) md.loop_unchanged[of m "md_brokers resp"] by auto
  ultimately show "decode_frame (metadata_codec P) (route_response P data e m) (re_api_version e) = Some (re_cid_d e, resp')"
    using assms by (intro route_response_decodes)
  show "map md_node_id (md_brokers resp') = map md_node_id (md_brokers resp)"
    using md.loop_ids by (simp add: assms(5))
  fix b assume "b \<in> set (md_brokers resp')"
  then have b: "b \<in> set (fst (rewrite_md_brokers m (md_brokers resp)))" by (simp add: assms(5))
  show "case m (md_node_id b) of Some (host, port) \<Rightarrow> md_host b = host \<and> md_port b = ucast port
      | None \<Rightarrow> b \<in> set (md_brokers resp)"
    using md.loop_mapped[OF b] md.loop_unmapped[OF b] by (auto split: option.splits)
qed

theorem routed_metadata_advertised_witness:
  "decode_frame demo_codec (route_response demo_protocol (put_i32 555 @ [1]) demo_entry demo_rewrite) 9
     = Some (42, demo_md ''proxy'' 19092)"
proof -
  let ?real = "demo_md ''real'' 9092"
  have "decode_frame (metadata_codec demo_protocol) (put_i32 555 @ [1]) (re_api_version demo_entry) = Some (555, ?real)"
    by (simp add: demo_protocol_def demo_codec_def Let_def)
  moreover have "encodable (metadata_codec demo_protocol) (re_api_version demo_entry) (demo_md ''proxy'' 19092)"
    by (simp add: encodable_def demo_protocol_def demo_codec_def Let_def)
  moreover have "demo_md ''proxy'' 19092 = ?real\<lparr>md_brokers := fst (rewrite_md_brokers demo_rewrite (md_brokers ?real))\<rparr>"
    by (simp add: demo_rewritten)
  moreover have "codec_header (metadata_codec demo_protocol)" "\<And>r v. codec_roundtrip (metadata_codec demo_protocol) v r"
    by (simp_all add: demo_protocol_def demo_codec_header demo_codec_roundtrip)
  ultimately show ?thesis
    using routed_metadata_advertised[of demo_protocol demo_entry "put_i32 555 @ [1]" 555 ?real
        "demo_md ''proxy'' 19092" demo_rewrite]
    by (simp add: demo_entry_def API_KEY_METADATA_def demo_protocol_def)
qed

text \<open>A response whose id is in the table reaches exactly the channel that registered the
  request, as its route says, and its entry leaves the table; no other channel and no other entry
  changes. If that channel is full or closed the response is dropped, with the same bookkeeping.\<close>

theorem read_loop_delivers:
  assumes "remap_inv (rd_remap s)" and "parse_response_cid data = Some c"
    and "dm_get (remap_map (rd_remap s)) c = Some e"
  shows "let s' = read_loop_step P rw now data s; tx = re_downstream_tx e; ch = rd_chans s tx in
    ch_queue (rd_chans s' tx) =
      (if ch_open ch \<and> length (ch_queue ch) < ch_capacity ch
       then ch_queue ch @ [route_response P data e rw] else ch_queue ch)
    \<and> (\<forall>other. other \<noteq> tx \<longrightarrow> rd_chans s' other = rd_chans s other)
    \<and> dm_get (remap_map (rd_remap s')) = (dm_get (remap_map (rd_remap s)))(c := None)
    \<and> Suc (in_flight (rd_remap s')) = in_flight (rd_remap s)"
  using assms by (rule read_loop_step_delivers)

definition demo_reader :: reader_state where
  "demo_reader = \<lparr>rd_remap = fst demo_table, rd_metrics = snd demo_table,
     rd_chans = \<lambda>_. \<lparr>ch_queue = [], ch_capacity = 256, ch_open = True\<rparr>\<rparr>"

theorem read_loop_delivers_witness:
  "ch_queue (rd_chans (read_loop_step demo_protocol demo_rewrite 7 (put_i32 3 @ [9, 9]) demo_reader) 1) = [put_i32 6 @ [9, 9]]"
proof -
  let ?e = "\<lparr>re_downstream_tx = 1, re_cid_d = 6, re_api_key = 3, re_api_version = 9, re_started = 0, re_conn_id = 2\<rparr>"
  have "dm_get (remap_map (rd_remap demo_reader)) 3 = Some ?e"
    by (simp add: demo_reader_def demo_table_map dm_get_def)
  moreover have "remap_inv (rd_remap demo_reader)" by (simp add: demo_reader_def demo_table_inv)
  moreover have "route_response demo_protocol (put_i32 3 @ [9, 9]) ?e demo_rewrite = put_i32 6 @ [9, 9]"
    by (simp add: route_response_def rewrite_response_def rewrite_metadata_response_def api_keys
        demo_protocol_def demo_codec_def Let_def)
  ultimately show ?thesis
    using read_loop_delivers[of demo_reader "put_i32 3 @ [9, 9]" 3 ?e demo_protocol demo_rewrite 7]
    by (simp add: Let_def demo_reader_def)
qed

text \<open>C19: The write loop is a FIFO in both directions: what it has sent upstream, and what it has
  passed to the read task, is a prefix of what it was given, complete as long as it runs, and
  once the flush flag is clear everything sent has been flushed.\<close>

theorem write_loop_fifo:
  assumes "s = write_loop_run es (wl_start m)"
  shows "(\<exists>lost. concat (map wl_request es) = wl_sent s @ lost \<and> (wl_running s \<longrightarrow> lost = []))
    \<and> (\<exists>lost. concat (map wl_response es) = wl_fwd s @ lost \<and> (wl_running s \<longrightarrow> lost = []))
    \<and> (wl_running s \<and> \<not> wl_needs_flush s \<longrightarrow> wl_flushed s = length (wl_sent s))"
proof -
  have "wl_ok s" using wl_ok_run[of "wl_start m" es] assms by (simp add: wl_ok_def wl_start_def)
  moreover have "wl_running (wl_start m)" by (simp add: wl_start_def)
  ultimately show ?thesis
    using wl_up.in_order[of "wl_start m" es] wl_down.in_order[of "wl_start m" es]
    by (auto simp: wl_ok_def wl_start_def assms write_loop_run_fold list.rel_eq)
qed

theorem write_loop_fifo_witness:
  "\<exists>lost. concat (map wl_request [WlRequest [1] True, WlTick True, WlRequest [2] True, WlEof, WlRequest [3] True]) = [[1], [2]] @ lost"
  using write_loop_fifo[OF refl, of "[WlRequest [1] True, WlTick True, WlRequest [2] True, WlEof, WlRequest [3] True]" m]
  by (simp add: wl_start_def)

text \<open>When the write loop ends, without interference, the connection's requests leave the table
  and both gauges by exactly their number, and the connection gauge goes down by one.\<close>

theorem write_loop_exit_exact:
  assumes "remap_inv (bp_remap p)" and "metrics_on (bp_metrics p)" and "in_flight (bp_remap p) < 2 ^ 64"
  shows "\<exists>p' k. write_loop_exit checks id id conn p = Some p'
    \<and> k = card {c. \<exists>e. dm_get (remap_map (bp_remap p)) c = Some e \<and> re_conn_id e = conn}
    \<and> requests_in_flight (bp_metrics p') = requests_in_flight (bp_metrics p) - of_nat k
    \<and> cid_map_entries (bp_metrics p') = cid_map_entries (bp_metrics p) - of_nat k
    \<and> upstream_connections (bp_metrics p') = upstream_connections (bp_metrics p) - 1"
proof -
  let ?K = "{c. \<exists>e. dm_get (remap_map (bp_remap p)) c = Some e \<and> re_conn_id e = conn}"
  let ?k = "card ?K"
  from fail_conn_alone[OF assms(1), of checks conn "bp_metrics p"] obtain r' n where
    f: "fail_conn checks id id conn (bp_remap p) (bp_metrics p) = Some (of_nat n, r', sub_cid_map_entries (of_nat n) (bp_metrics p))"
    "r' = (bp_remap p)\<lparr>remap_map := dm_retain (\<lambda>_ e. re_conn_id e \<noteq> conn) (remap_map (bp_remap p))\<rparr>"
    "n + in_flight r' = in_flight (bp_remap p)" by blast
  have n: "n = ?k" using fail_conn_count[OF assms(1) f(2,3)] .
  have u: "unat (of_nat n :: u64) = n" using f(3) assms(3) by (simp add: unat_of_nat take_bit_nat_eq_self)
  let ?g = "if (0 :: u64) < of_nat n then sub_requests_in_flight (of_nat n) else id"
  let ?m = "sub_cid_map_entries (of_nat n) (bp_metrics p)"
  have on: "metrics_on ?m" and ci: "cid_map_entries ?m = cid_map_entries (bp_metrics p) - of_nat n"
    and ri: "requests_in_flight ?m = requests_in_flight (bp_metrics p)"
    using assms(2) by (simp_all add: sub_cid_map_entries_def metrics_on_def)
  have z: "\<not> (0 :: u64) < of_nat n \<Longrightarrow> (of_nat n :: u64) = 0" by (simp add: word_gt_0)
  have g: "requests_in_flight (?g ?m) = requests_in_flight (bp_metrics p) - of_nat n"
    "cid_map_entries (?g ?m) = cid_map_entries (bp_metrics p) - of_nat n"
    "upstream_connections (?g ?m) = upstream_connections (bp_metrics p)"
    using dec_in_flight_iter[of n ?m] dec_in_flight_upstream[of n ?m] on ci ri u fail_conn_upstream[OF f(1)]
    z
    by (auto simp: sub_requests_in_flight_def)
  let ?p = "on_metrics (inc_pool_evictions \<circ> dec_upstream_connections \<circ> ?g) (p\<lparr>bp_remap := r', bp_metrics := ?m\<rparr>)"
  have "write_loop_exit checks id id conn p = Some ?p" by (simp add: write_loop_exit_def f(1))
  moreover have "bp_metrics ?p = inc_pool_evictions (dec_upstream_connections (?g ?m))" by simp
  ultimately show ?thesis
    using g n by (intro exI[of _ ?p] exI[of _ n]) (simp add: inc_pool_evictions_def dec_upstream_connections_def)
qed

text \<open>A released connection is what the next acquire of an otherwise empty pool returns, with no
  handshake and no change of the counter.\<close>

theorem release_then_acquire:
  assumes "bp_idle p = []" and "0 < max_per_broker (bp_limits p)"
  shows "\<exists>p'. acquire (env # envs) (release now conn tx p) =
      (Some (Inr \<lparr>acq_write_tx = tx, acq_conn_id = conn\<rparr>), p')
    \<and> bp_idle p' = [] \<and> bp_count p' = bp_count p"
  using assms by (simp add: acquire_round_def acquire_idle_def release_def Let_def)

definition demo_pool :: broker_pool where
  "demo_pool = broker_pool_new \<lparr>max_per_broker = 1, min_idle = 0, idle_timeout = 10, acquire_timeout = 5,
     pl_max_in_flight = 8\<rparr> (with_max_in_flight 8) (metrics_new True)"

theorem write_loop_exit_exact_witness:
  "\<exists>p'. write_loop_exit True id id 2 (demo_pool\<lparr>bp_remap := fst demo_table, bp_metrics := metrics_new True\<rparr>) = Some p'
     \<and> upstream_connections (bp_metrics p') = upstream_connections (metrics_new True) - 1"
proof -
  let ?p = "demo_pool\<lparr>bp_remap := fst demo_table, bp_metrics := metrics_new True\<rparr>"
  have "remap_inv (bp_remap ?p)" by (simp add: demo_table_inv)
  moreover have "metrics_on (bp_metrics ?p)" by (simp add: metrics_on_def metrics_new_def)
  moreover have "in_flight (bp_remap ?p) < 2 ^ 64" by (simp add: in_flight_def demo_table_map dm_len_def)
  ultimately show ?thesis using write_loop_exit_exact[of ?p True 2] by auto
qed

theorem release_then_acquire_witness:
  "\<exists>p'. acquire [undefined] (release 3 4 5 demo_pool) = (Some (Inr \<lparr>acq_write_tx = 5, acq_conn_id = 4\<rparr>), p')"
  using release_then_acquire[of demo_pool undefined "[]" 3 4 5] by (auto simp: demo_pool_def broker_pool_new_def)

text \<open>When nobody interferes and the handshake fails, \<open>acquire\<close> returns that error and the counter
  is what it was; but the freed slot wakes no waiter: the notification state is unchanged.\<close>

theorem failed_handshake_restores:
  assumes "bp_idle p = []" and "bp_count p < max_per_broker (bp_limits p)"
    and "ae_gap_count env = id" and "ae_gap_handshake env = id" and "ae_connect env = Inl e"
  shows "\<exists>p'. acquire (env # envs) p = (Some (Inl (PoolUpstream e)), p')
    \<and> bp_count p' = bp_count p \<and> bp_notify p' = bp_notify p \<and> bp_idle p' = []"
  using assms
  by (simp add: acquire_round_def acquire_idle_def acquire_reserve_def acquire_create_def create_conn_def dec_usize_def)

definition demo_env :: "string + unit \<Rightarrow> bool \<Rightarrow> string acquire_env" where
  "demo_env r notified = \<lparr>ae_elapsed = 0, ae_gap_count = id, ae_connect = r, ae_handshake = 0, ae_gap_handshake = id,
     ae_notified = notified, ae_gap_wait = id\<rparr>"

theorem failed_handshake_restores_witness:
  "\<exists>p'. acquire [demo_env (Inl ''refused'') False] demo_pool = (Some (Inl (PoolUpstream ''refused'')), p') \<and> bp_count p' = 0"
  using failed_handshake_restores[of demo_pool "demo_env (Inl ''refused'') False" "''refused''" "[]"]
  by (auto simp: demo_pool_def broker_pool_new_def demo_env_def)

text \<open>The acquire timeout bounds one wait, not the call: on a full pool with nothing idle, a task
  that is woken \<open>k\<close> times is still waiting after \<open>k\<close> rounds, whatever \<open>k\<close>.\<close>

theorem acquire_timeout_restarts:
  assumes "bp_idle p = []" and "max_per_broker (bp_limits p) \<le> bp_count p"
    and "ae_gap_count env = id" and "ae_gap_wait env = id" and "ae_notified env"
  shows "fst (acquire (replicate k env) p) = None"
  using assms(1,2)
proof (induction k arbitrary: p)
  case (Suc k)
  have "\<exists>q. acquire_round env p = (None, q) \<and> bp_idle q = [] \<and> bp_limits q = bp_limits p \<and> bp_count q = bp_count p"
    using Suc.prems assms(3-5)
    by (auto simp: acquire_round_def acquire_idle_def acquire_reserve_def acquire_enqueue_def acquire_woken_def
        take_notification_def Let_def)
  then obtain q where q: "acquire_round env p = (None, q)" "bp_idle q = []" "bp_limits q = bp_limits p"
    "bp_count q = bp_count p" by blast
  then show ?case using Suc.IH[of q] Suc.prems by simp
qed simp

theorem acquire_timeout_restarts_witness:
  "fst (acquire (replicate 1000 (demo_env (Inr ()) True)) (demo_pool\<lparr>bp_count := 1\<rparr>)) = None"
  by (rule acquire_timeout_restarts) (simp_all add: demo_pool_def broker_pool_new_def demo_env_def)

lemma reaper_tick_unfold:
  assumes "removed = length (bp_idle p) - length (filter (keep_conn now (idle_timeout (bp_limits p))) (bp_idle p))"
  shows "reaper_tick now p =
    (let q = on_metrics ((dec_upstream_connections \<circ> inc_pool_evictions) ^^ removed)
               (p\<lparr>bp_idle := filter (keep_conn now (idle_timeout (bp_limits p))) (bp_idle p)\<rparr>)
     in if 0 < removed then q\<lparr>bp_count := bp_count q - removed, bp_notify := notify_one (bp_notify q)\<rparr> else q)"
  unfolding assms reaper_tick_def Let_def by simp

text \<open>C31: A tick of the reaper keeps, in order, exactly the idle connections used less than
  \<open>idle_timeout\<close> ago, takes the number of the others off the counter (not below zero) and off the
  connection gauge, and notifies a waiter if there was any.\<close>

theorem reaper_exact:
  assumes "all_alive p" and "p' = reaper_tick now p"
    and "removed = length (filter (\<lambda>c. idle_timeout (bp_limits p) \<le> now - pc_last_used c) (bp_idle p))"
  shows "bp_idle p' = filter (\<lambda>c. now - pc_last_used c < idle_timeout (bp_limits p)) (bp_idle p)
    \<and> bp_count p' = bp_count p - removed
    \<and> upstream_connections (bp_metrics p') = upstream_connections (bp_metrics p) - of_nat removed
    \<and> bp_notify p' = (if removed = 0 then bp_notify p else notify_one (bp_notify p))"
proof -
  let ?F = "filter (keep_conn now (idle_timeout (bp_limits p))) (bp_idle p)"
  have F: "?F = filter (\<lambda>c. now - pc_last_used c < idle_timeout (bp_limits p)) (bp_idle p)"
    using assms(1) by (intro filter_cong) (auto simp: keep_conn_def all_alive_def not_le)
  have "length ?F + removed = length (bp_idle p)"
    using sum_length_filter_compl[of "\<lambda>c. now - pc_last_used c < idle_timeout (bp_limits p)" "bp_idle p"]
    by (simp add: F assms(3) not_less)
  then have r: "removed = length (bp_idle p) - length ?F" by linarith
  have "bp_idle p' = ?F" "bp_count p' = bp_count p - removed"
    "bp_metrics p' = ((dec_upstream_connections \<circ> inc_pool_evictions) ^^ removed) (bp_metrics p)"
    "bp_notify p' = (if removed = 0 then bp_notify p else notify_one (bp_notify p))"
    unfolding assms(2) reaper_tick_unfold[OF r] by (cases "removed = 0"; simp add: Let_def)+
  then show ?thesis using reaper_gauge F by simp
qed

definition demo_idle_pool :: broker_pool where
  "demo_idle_pool = demo_pool\<lparr>bp_idle := [\<lparr>pc_write_tx = 0, pc_alive = True, pc_last_used = 0, pc_conn_id = 1\<rparr>,
     \<lparr>pc_write_tx = 1, pc_alive = True, pc_last_used = 9, pc_conn_id = 2\<rparr>], bp_count := 2\<rparr>"

theorem reaper_exact_witness:
  "map pc_conn_id (bp_idle (reaper_tick 12 demo_idle_pool)) = [2] \<and> bp_count (reaper_tick 12 demo_idle_pool) = 1"
  using reaper_exact[of demo_idle_pool _ 12, OF _ refl refl]
  by (simp add: all_alive_def demo_idle_pool_def demo_pool_def broker_pool_new_def)

text \<open>A reaped connection is counted out twice: by the reaper and again when its write loop ends,
  so the connection gauge falls by two for one connection.\<close>

theorem reaped_twice:
  assumes "bp_idle p = [c]" and "pc_alive c" and "idle_timeout (bp_limits p) \<le> now - pc_last_used c"
    and "write_loop_exit checks id id (pc_conn_id c) (reaper_tick now p) = Some p'"
  shows "upstream_connections (bp_metrics p') = upstream_connections (bp_metrics p) - 2"
proof -
  let ?q = "reaper_tick now p"
  have q: "upstream_connections (bp_metrics ?q) = upstream_connections (bp_metrics p) - 1"
    using reaper_exact[of p ?q now, OF _ refl refl] assms(1-3) by (simp add: all_alive_def)
  obtain n r m where f: "fail_conn checks id id (pc_conn_id c) (bp_remap ?q) (bp_metrics ?q) = Some (n, r, m)"
    using assms(4) by (auto simp: write_loop_exit_def split: option.splits)
  then have "upstream_connections (bp_metrics p') = upstream_connections m - 1"
    using assms(4) dec_in_flight_upstream[of "unat n" m]
    by (auto simp: write_loop_exit_def sub_requests_in_flight_def inc_pool_evictions_def dec_upstream_connections_def)
  then show ?thesis using q fail_conn_upstream[OF f] by simp
qed

theorem reaped_twice_witness:
  "\<exists>p'. write_loop_exit True id id 1 (reaper_tick 12 (demo_idle_pool\<lparr>bp_idle := take 1 (bp_idle demo_idle_pool)\<rparr>)) = Some p'
     \<and> upstream_connections (bp_metrics p') = - 2"
proof -
  let ?p = "demo_idle_pool\<lparr>bp_idle := take 1 (bp_idle demo_idle_pool)\<rparr>"
  obtain p' where p': "write_loop_exit True id id 1 (reaper_tick 12 ?p) = Some p'"
    by (simp add: write_loop_exit_def fail_conn_def Let_def reaper_tick_def demo_idle_pool_def demo_pool_def
        broker_pool_new_def with_max_in_flight_def dm_new_def dm_len_def dm_retain_def)
  have "upstream_connections (bp_metrics ?p) = 0"
    by (simp add: demo_idle_pool_def demo_pool_def broker_pool_new_def metrics_new_def)
  then show ?thesis using reaped_twice[of ?p "hd (bp_idle demo_idle_pool)" 12 True p'] p'
    by (simp add: demo_idle_pool_def demo_pool_def broker_pool_new_def)
qed

text \<open>C18: Without interference \<open>acquire\<close> returns: after at most two rounds (the first can use up a
  stored wake-up) it has a connection, the error of the handshake, or the timeout, the last only
  if the counter is at its maximum; and it leaves the waiters gauge as it was.\<close>

theorem acquire_returns:
  assumes "quiet e1" and "quiet e2"
  shows "\<exists>res p'. acquire (e1 # e2 # es) p = (Some res, p')
    \<and> pool_waiters (bp_metrics p') = pool_waiters (bp_metrics p)
    \<and> (res = Inl AcquireTimeout \<longrightarrow> max_per_broker (bp_limits p) \<le> bp_count p)"
proof -
  obtain r1 p1 where r1: "acquire_round e1 p = (r1, p1)" by (cases "acquire_round e1 p")
  note q1 = quiet_round[OF assms(1) r1]
  show ?thesis
  proof (cases r1)
    case None
    obtain r2 p2 where r2: "acquire_round e2 p1 = (r2, p2)" by (cases "acquire_round e2 p1")
    note q2 = quiet_round[OF assms(2) r2]
    have "r2 \<noteq> None" using q1 q2 None by blast
    then show ?thesis using None r1 r2 q1 q2 by auto
  qed (use r1 q1 in auto)
qed

theorem acquire_returns_witness:
  "\<exists>res p'. acquire [demo_env (Inr ()) False, demo_env (Inr ()) False] demo_pool = (Some res, p') \<and> res \<noteq> Inl AcquireTimeout"
proof -
  have "quiet (demo_env (Inr ()) False)" by (simp add: quiet_def demo_env_def)
  from acquire_returns[OF this this, of "[]" demo_pool] show ?thesis
    by (auto simp: demo_pool_def broker_pool_new_def)
qed

end
