(* ===== verification/Relay.thy ===== *)
theory Relay
  imports Pool
begin

text \<open>
  The two relays of \<open>src/src/relay.rs\<close>. \<open>Relay\<close> (per-connection mode): two tasks that share the
  table of pending correlation ids, one step per \<open>select!\<close> outcome. \<open>PooledRelay\<close>: a step per
  downstream frame, which leases a connection from the pool, registers the request and replaces
  the correlation id in the frame. The sockets are the outcomes of the steps; frames written are
  collected in lists. The last definition is the timing of one wait of the per-connection task.
\<close>

section \<open>Per-connection relay\<close>

definition MAX_PENDING :: nat where "MAX_PENDING = 1024"

text \<open>The outcomes of the downstream task's \<open>select!\<close>: a frame with the result of the upstream
  \<open>send\<close>, a read error, end of stream, the idle timeout, the flush timer with its result.\<close>

datatype d2u_event =
    D2uFrame bytes bool
  | D2uError
  | D2uEof
  | D2uIdle
  | D2uTick bool

datatype u2d_event =
    U2dFrame bytes bool
  | U2dEnd
  | U2dTick bool

record relay_state =
  rl_pending :: "(i32, i16 \<times> i16) dashmap"
  rl_up :: "bytes list"
  rl_up_flushed :: nat
  rl_up_needs_flush :: bool
  rl_d2u_running :: bool
  rl_down :: "bytes list"
  rl_down_flushed :: nat
  rl_down_needs_flush :: bool
  rl_u2d_running :: bool
  rl_metrics :: metrics

definition relay_start :: "metrics \<Rightarrow> relay_state" where
  "relay_start m =
     \<lparr>rl_pending = dm_new, rl_up = [], rl_up_flushed = 0, rl_up_needs_flush = False, rl_d2u_running = True,
      rl_down = [], rl_down_flushed = 0, rl_down_needs_flush = False, rl_u2d_running = True, rl_metrics = m\<rparr>"

definition record_pending :: "bytes \<Rightarrow> (i32, i16 \<times> i16) dashmap \<Rightarrow> (i32, i16 \<times> i16) dashmap" where
  "record_pending data pending =
     (case parse_request_header data of
        Some (api_key, api_version, cid) \<Rightarrow>
          (if needs_rewrite api_key then
             (if MAX_PENDING \<le> dm_len pending then pending
              else dm_insert cid (api_key, api_version) pending)
           else pending)
      | None \<Rightarrow> pending)"

definition close_up :: "relay_state \<Rightarrow> relay_state" where
  "close_up s = s\<lparr>rl_up_flushed := length (rl_up s), rl_d2u_running := False\<rparr>"

fun d2u_step :: "d2u_event \<Rightarrow> relay_state \<Rightarrow> relay_state" where
  "d2u_step (D2uFrame data send_ok) s =
     (let s = s\<lparr>rl_metrics := add_bytes_downstream (of_nat (length data)) (inc_frames_downstream (rl_metrics s)),
                rl_pending := record_pending data (rl_pending s)\<rparr>
      in if \<not> send_ok then s\<lparr>rl_d2u_running := False\<rparr>
         else s\<lparr>rl_up := rl_up s @ [data], rl_up_needs_flush := True\<rparr>)"
| "d2u_step D2uError s = close_up s"
| "d2u_step D2uEof s = close_up s"
| "d2u_step D2uIdle s = close_up s"
| "d2u_step (D2uTick flush_ok) s =
     (if rl_up_needs_flush s then
        (if \<not> flush_ok then s\<lparr>rl_d2u_running := False\<rparr>
         else s\<lparr>rl_up_flushed := length (rl_up s), rl_up_needs_flush := False\<rparr>)
      else s)"

text \<open>What the upstream task writes downstream for a response, and the pending table after it.\<close>

definition u2d_frame ::
  "('r1, 'r2, 'r3) kafka_protocol \<Rightarrow> rewrite_map \<Rightarrow> bytes \<Rightarrow> (i32, i16 \<times> i16) dashmap
     \<Rightarrow> bytes \<times> (i32, i16 \<times> i16) dashmap" where
  "u2d_frame P rw data pending =
     (let (entry, pending) =
        (case parse_response_cid data of
           Some c \<Rightarrow> (dm_get pending c, dm_remove c pending)
         | None \<Rightarrow> (None, pending))
      in (case entry of
            Some (api_key, version) \<Rightarrow>
              (case rewrite_response P api_key version data rw of Some out \<Rightarrow> out | None \<Rightarrow> data)
          | None \<Rightarrow> data, pending))"

fun u2d_step ::
  "('r1, 'r2, 'r3) kafka_protocol \<Rightarrow> rewrite_map \<Rightarrow> u2d_event \<Rightarrow> relay_state \<Rightarrow> relay_state" where
  "u2d_step P rw (U2dFrame data send_ok) s =
     (let (out, pending) = u2d_frame P rw data (rl_pending s);
          s = s\<lparr>rl_metrics := add_bytes_upstream (of_nat (length data)) (inc_frames_upstream (rl_metrics s)),
                rl_pending := pending\<rparr>
      in if \<not> send_ok then s\<lparr>rl_u2d_running := False\<rparr>
         else s\<lparr>rl_down := rl_down s @ [out], rl_down_needs_flush := True\<rparr>)"
| "u2d_step P rw U2dEnd s = s\<lparr>rl_down_flushed := length (rl_down s), rl_u2d_running := False\<rparr>"
| "u2d_step P rw (U2dTick flush_ok) s =
     (if rl_down_needs_flush s then
        (if \<not> flush_ok then s\<lparr>rl_u2d_running := False\<rparr>
         else s\<lparr>rl_down_flushed := length (rl_down s), rl_down_needs_flush := False\<rparr>)
      else s)"

text \<open>The two tasks interleave; each stops for good when its loop returns.\<close>

datatype relay_event = Down (projDown: d2u_event) | Up (projUp: u2d_event)

fun relay_exec ::
  "('r1, 'r2, 'r3) kafka_protocol \<Rightarrow> rewrite_map \<Rightarrow> relay_event \<Rightarrow> relay_state \<Rightarrow> relay_state" where
  "relay_exec P rw (Down e) s = (if rl_d2u_running s then d2u_step e s else s)"
| "relay_exec P rw (Up e) s = (if rl_u2d_running s then u2d_step P rw e s else s)"

definition relay_run ::
  "('r1, 'r2, 'r3) kafka_protocol \<Rightarrow> rewrite_map \<Rightarrow> relay_event list \<Rightarrow> relay_state \<Rightarrow> relay_state" where
  "relay_run P rw es s = fold (relay_exec P rw) es s"

text \<open>\<open>run_inner\<close>: connect upstream, count the connection, run both tasks, and count it out when
  the guard is dropped.\<close>

definition run_inner ::
  "('r1, 'r2, 'r3) kafka_protocol \<Rightarrow> rewrite_map \<Rightarrow> 'e + unit \<Rightarrow> relay_event list \<Rightarrow> metrics
     \<Rightarrow> ('e + relay_state) \<times> metrics" where
  "run_inner P rw connect es m =
     (case connect of
        Inl e \<Rightarrow> (Inl e, m)
      | Inr _ \<Rightarrow>
          (let s = relay_run P rw es (relay_start (inc_upstream_connections m))
           in (Inr s, dec_upstream_connections (rl_metrics s))))"

text \<open>One task's waits in time, when the client sends nothing: each round arms a fresh idle timeout
  of \<open>d\<close> nanoseconds and waits for it or for the next tick of the flush timer, whichever comes
  first; a tick starts the next round. \<open>fuel\<close> bounds the rounds; the result is the instant the
  timeout fires, if it does within them.\<close>

definition PER_CONN_FLUSH_NS :: nat where "PER_CONN_FLUSH_NS = 5 * 1000000"

fun idle_fires :: "nat \<Rightarrow> nat \<Rightarrow> instant \<Rightarrow> instant \<Rightarrow> instant option" where
  "idle_fires 0 d start next_tick = None"
| "idle_fires (Suc fuel) d start next_tick =
     (if next_tick < start + d
      then idle_fires fuel d next_tick (next_tick + PER_CONN_FLUSH_NS)
      else Some (start + d))"

section \<open>Pooled relay\<close>

definition LEASE_DURATION :: nat where "LEASE_DURATION = 200 * 1000000"

record pooled_relay =
  pr_pool :: broker_pool
  pr_resp_tx :: channel
  pr_lease :: "acquired option"
  pr_deadline :: instant
  pr_sent :: "(channel \<times> bytes) list"
  pr_running :: bool

datatype pr_event =
    PrFrame bytes
  | PrError
  | PrEof
  | PrIdle

definition release_lease :: "instant \<Rightarrow> pooled_relay \<Rightarrow> pooled_relay" where
  "release_lease now s =
     (case pr_lease s of
        Some a \<Rightarrow> s\<lparr>pr_pool := release now (acq_conn_id a) (acq_write_tx a) (pr_pool s), pr_lease := None\<rparr>
      | None \<Rightarrow> s)"

definition lease_expired :: "instant \<Rightarrow> pooled_relay \<Rightarrow> bool" where
  "lease_expired now s \<longleftrightarrow> pr_lease s = None \<or> pr_deadline s \<le> now"

text \<open>The rest of the handler once a connection is leased: register, count, replace bytes 4 to 8 of
  the frame, send.\<close>

definition upstream_frame :: "i32 \<Rightarrow> bytes \<Rightarrow> bytes" where
  "upstream_frame cid_u data = take 4 data @ put_i32 cid_u @ drop 8 data"

definition forward_request ::
  "instant \<Rightarrow> bool \<Rightarrow> bytes \<Rightarrow> i16 \<times> i16 \<times> i32 \<Rightarrow> acquired \<Rightarrow> pooled_relay \<Rightarrow> pooled_relay" where
  "forward_request now send_ok data hdr a s =
     (case hdr of (api_key, api_version, cid_d) \<Rightarrow>
       (case register_request (pr_resp_tx s) cid_d api_key api_version (acq_conn_id a) now (pr_pool s) of
          (None, p) \<Rightarrow> (release_lease now (s\<lparr>pr_pool := p\<rparr>))\<lparr>pr_running := False\<rparr>
        | (Some cid_u, p) \<Rightarrow>
            (let s = s\<lparr>pr_pool := on_metrics inc_requests_in_flight p\<rparr> in
             if send_ok
             then s\<lparr>pr_sent := pr_sent s @ [(acq_write_tx a, upstream_frame cid_u data)]\<rparr>
             else s\<lparr>pr_pool := cancel_request cid_u (pr_pool s), pr_lease := None, pr_running := False\<rparr>)))"

text \<open>The handler of one downstream event at instant \<open>now\<close>; \<open>envs\<close> and \<open>later\<close> are the
  environment of \<open>acquire\<close> and the instant it returns, \<open>send_ok\<close> the result of the send.
  \<open>None\<close>: still waiting for a connection.\<close>

definition with_lease ::
  "'e acquire_env list \<Rightarrow> instant \<Rightarrow> instant \<Rightarrow> pooled_relay \<Rightarrow> (pooled_relay \<times> acquired option) option" where
  "with_lease envs now later s =
     (if lease_expired now s then
        (let s = release_lease now s in
         case acquire envs (pr_pool s) of
           (None, p) \<Rightarrow> None
         | (Some (Inr a), p) \<Rightarrow>
             Some (s\<lparr>pr_pool := p, pr_lease := Some a, pr_deadline := later + LEASE_DURATION\<rparr>, Some a)
         | (Some (Inl e), p) \<Rightarrow> Some (s\<lparr>pr_pool := p, pr_running := False\<rparr>, None))
      else Some (s, pr_lease s))"

fun pooled_step ::
  "'e acquire_env list \<Rightarrow> instant \<Rightarrow> instant \<Rightarrow> bool \<Rightarrow> pr_event \<Rightarrow> pooled_relay \<Rightarrow> pooled_relay option" where
  "pooled_step envs now later send_ok (PrFrame data) s =
     (let s = s\<lparr>pr_pool := on_metrics (add_bytes_downstream (of_nat (length data)) \<circ> inc_frames_downstream) (pr_pool s)\<rparr>
      in case parse_request_header data of
           None \<Rightarrow> Some s
         | Some hdr \<Rightarrow>
             (case with_lease envs now later s of
                None \<Rightarrow> None
              | Some (s, None) \<Rightarrow> Some s
              | Some (s, Some a) \<Rightarrow> Some (forward_request later send_ok data hdr a s)))"
| "pooled_step envs now later send_ok PrError s = Some ((release_lease now s)\<lparr>pr_running := False\<rparr>)"
| "pooled_step envs now later send_ok PrEof s = Some ((release_lease now s)\<lparr>pr_running := False\<rparr>)"
| "pooled_step envs now later send_ok PrIdle s = Some ((release_lease now s)\<lparr>pr_running := False\<rparr>)"

section \<open>Lemmas\<close>

lemma record_pending_len: "dm_len p \<le> MAX_PENDING \<Longrightarrow> dm_len (record_pending data p) \<le> MAX_PENDING"
  by (auto simp: record_pending_def intro: order_trans[OF dm_len_le(1)] split: option.splits)

lemma record_pending_inv [simp]: "dm_inv p \<Longrightarrow> dm_inv (record_pending data p)"
  by (auto simp: record_pending_def dm.inv_ins split: option.splits)

lemma u2d_frame_pending: "snd (u2d_frame P rw data p) =
    (case parse_response_cid data of Some c \<Rightarrow> dm_remove c p | None \<Rightarrow> p)"
  by (simp add: u2d_frame_def split: option.splits)

definition relay_inv :: "relay_state \<Rightarrow> bool" where
  "relay_inv s \<longleftrightarrow> dm_inv (rl_pending s) \<and> dm_len (rl_pending s) \<le> MAX_PENDING"

lemma relay_inv_exec: "relay_inv s \<Longrightarrow> relay_inv (relay_exec P rw e s)"
proof (cases e)
  case (Down d)
  assume "relay_inv s"
  then show ?thesis using Down record_pending_len[of "rl_pending s"]
    by (cases d) (auto simp: relay_inv_def close_up_def Let_def)
next
  case (Up u)
  assume "relay_inv s"
  then have "relay_inv (s\<lparr>rl_pending := snd (u2d_frame P rw data (rl_pending s))\<rparr>)" for data
    using order_trans[OF dm_len_le(2)]
    by (auto simp: relay_inv_def u2d_frame_pending dm.inv_rem split: option.splits)
  with \<open>relay_inv s\<close> show ?thesis using Up
    by (cases u) (auto simp: relay_inv_def Let_def case_prod_beta)
qed

interpretation relay: invariant_system "\<lambda>s. \<exists>m. s = relay_start m" "\<lambda>s t. \<exists>e. t = relay_exec P rw e s" relay_inv
proof
  show "relay_inv s" if "\<exists>m. s = relay_start m" for s
    using that by (auto simp: relay_inv_def relay_start_def dm.inv_new dm.len_new)
qed (auto intro: relay_inv_exec)

lemma relay_run_reach:
  "reach (\<lambda>s. \<exists>m. s = relay_start m) (\<lambda>s t. \<exists>e. t = relay_exec P rw e s) s \<Longrightarrow>
   reach (\<lambda>s. \<exists>m. s = relay_start m) (\<lambda>s t. \<exists>e. t = relay_exec P rw e s) (relay_run P rw es s)"
proof (induction es arbitrary: s)
  case (Cons e es)
  have "reach (\<lambda>s. \<exists>m. s = relay_start m) (\<lambda>s t. \<exists>e. t = relay_exec P rw e s) (relay_exec P rw e s)"
    by (rule reach_step[OF Cons.prems]) blast
  then show ?case using Cons.IH by (simp add: relay_run_def)
qed (simp add: relay_run_def)

lemma take_eight: "parse_request_header data = Some (k, v, c) \<Longrightarrow>
    take 4 data = put_i16 k @ put_i16 v \<and> data = put_i16 k @ put_i16 v @ put_i32 c @ drop 8 data"
  by (auto simp: parse_request_header_Some put_i16_def put_i32_def)

lemma upstream_frame_header:
  "parse_request_header data = Some (k, v, c) \<Longrightarrow> parse_request_header (upstream_frame u data) = Some (k, v, u)"
  using take_eight[of data k v c] by (auto simp: parse_request_header_Some upstream_frame_def)

lemma upstream_frame_rest:
  "parse_request_header data = Some (k, v, c) \<Longrightarrow>
     length (upstream_frame u data) = length data \<and> drop 8 (upstream_frame u data) = drop 8 data"
  using take_eight[of data k v c] parse_request_header_None_iff[of data]
  by (auto simp: upstream_frame_def put_i16_def put_i32_def)

lemma relay_run_Cons [simp]: "relay_run P rw (e # es) s = relay_run P rw es (relay_exec P rw e s)"
  "relay_run P rw [] s = s"
  by (simp_all add: relay_run_def)

text \<open>The steps of one task leave the other task's side alone.\<close>

lemma u2d_step_frame [simp, frame_simps]:
  "rl_up (u2d_step P rw u s) = rl_up s" "rl_d2u_running (u2d_step P rw u s) = rl_d2u_running s"
  by (cases u; simp add: Let_def case_prod_beta)+

lemma d2u_step_frame [simp, frame_simps]:
  "rl_down (d2u_step d s) = rl_down s" "rl_u2d_running (d2u_step d s) = rl_u2d_running s"
  by (cases d; simp add: Let_def close_up_def)+

fun down_item :: "relay_event \<Rightarrow> bytes list" where
  "down_item (Down (D2uFrame data _)) = [data]"
| "down_item _ = []"

fun up_item :: "relay_event \<Rightarrow> bytes list" where
  "up_item (Up (U2dFrame data _)) = [data]"
| "up_item _ = []"

lemma d2u_handles: "\<exists>xs ys os. down_item (Down d) = xs @ ys \<and> rl_up (d2u_step d s) = rl_up s @ os
    \<and> list_all2 (=) xs os \<and> (rl_d2u_running (d2u_step d s) \<longrightarrow> ys = [])"
  by (cases d) (auto simp: Let_def close_up_def)

interpretation requests: fifo_task "relay_exec P rw" rl_up rl_d2u_running down_item "(=)"
proof
  show "rl_up (relay_exec P rw e s) = rl_up s \<and> \<not> rl_d2u_running (relay_exec P rw e s)"
    if "\<not> rl_d2u_running s" for s e
    using that by (cases e) simp_all
  show "\<exists>xs ys os. down_item e = xs @ ys \<and> rl_up (relay_exec P rw e s) = rl_up s @ os \<and> list_all2 (=) xs os \<and>
      (rl_d2u_running (relay_exec P rw e s) \<longrightarrow> ys = [])" if "rl_d2u_running s" for s e
    using that d2u_handles by (cases e) simp_all
qed

text \<open>A response as it leaves the relay: unchanged, or what one of the rewriters made of it.\<close>

definition relayed :: "('r1, 'r2, 'r3) kafka_protocol \<Rightarrow> rewrite_map \<Rightarrow> bytes \<Rightarrow> bytes \<Rightarrow> bool" where
  "relayed P rw data out \<longleftrightarrow> out = data \<or> (\<exists>k v. rewrite_response P k v data rw = Some out)"

lemma u2d_frame_relayed: "relayed P rw data (fst (u2d_frame P rw data p))"
  by (auto simp: relayed_def u2d_frame_def Let_def split: option.splits prod.splits)

lemma u2d_handles: "\<exists>xs ys os. up_item (Up u) = xs @ ys \<and> rl_down (u2d_step P rw u s) = rl_down s @ os
    \<and> list_all2 (relayed P rw) xs os \<and> (rl_u2d_running (u2d_step P rw u s) \<longrightarrow> ys = [])"
proof (cases u)
  case (U2dFrame data send_ok)
  then show ?thesis using u2d_frame_relayed[of P rw data]
    by (intro exI[of _ "if send_ok then [data] else []"] exI[of _ "if send_ok then [] else [data]"]
        exI[of _ "if send_ok then [fst (u2d_frame P rw data (rl_pending s))] else []"])
      (simp add: Let_def case_prod_beta)
qed (simp_all)

interpretation responses: fifo_task "relay_exec P rw" rl_down rl_u2d_running up_item "relayed P rw"
proof
  show "rl_down (relay_exec P rw e s) = rl_down s \<and> \<not> rl_u2d_running (relay_exec P rw e s)"
    if "\<not> rl_u2d_running s" for s e
    using that by (cases e) simp_all
  show "\<exists>xs ys os. up_item e = xs @ ys \<and> rl_down (relay_exec P rw e s) = rl_down s @ os
      \<and> list_all2 (relayed P rw) xs os \<and> (rl_u2d_running (relay_exec P rw e s) \<longrightarrow> ys = [])"
    if "rl_u2d_running s" for s e
    using that u2d_handles by (cases e) simp_all
qed

lemma rewrite_response_cid:
  assumes "codec_cid (metadata_codec P)" "codec_cid (describe_cluster_codec P)" "codec_cid (find_coordinator_codec P)"
    and "rewrite_response P k v data rw = Some out"
  shows "parse_response_cid out = parse_response_cid data"
proof -
  have "\<exists>cid. parse_response_cid data = Some cid \<and> parse_response_cid out = Some cid"
    using assms
    by (auto simp: rewrite_response_def rewrite_metadata_response_def rewrite_describe_cluster_response_def
        rewrite_find_coordinator_response_def codec_cid_def Let_def split: if_splits option.splits prod.splits
        dest!: encode_response_prefix; fastforce)
  then show ?thesis by auto
qed

lemma record_pending_other:
  assumes "dm_inv p" and "case parse_request_header data of Some (k, v, c') \<Rightarrow> c' = c \<longrightarrow> \<not> needs_rewrite k | None \<Rightarrow> True"
  shows "dm_get (record_pending data p) c = dm_get p c"
  using assms by (auto simp: record_pending_def dm.get_ins split: option.splits if_splits)

text \<open>Events that do not concern a correlation id: no rewritable request with it, no response to it.\<close>

fun spares :: "i32 \<Rightarrow> relay_event \<Rightarrow> bool" where
  "spares c (Down (D2uFrame data _)) \<longleftrightarrow>
     (case parse_request_header data of Some (k, v, c') \<Rightarrow> c' = c \<longrightarrow> \<not> needs_rewrite k | None \<Rightarrow> True)"
| "spares c (Up (U2dFrame data _)) \<longleftrightarrow> parse_response_cid data \<noteq> Some c"
| "spares c _ \<longleftrightarrow> True"

lemma spared_step:
  assumes "relay_inv s" and "spares c e"
  shows "dm_get (rl_pending (relay_exec P rw e s)) c = dm_get (rl_pending s) c"
proof (cases e)
  case (Down d)
  show ?thesis
  proof (cases d)
    case (D2uFrame data ok)
    then have "dm_get (record_pending data (rl_pending s)) c = dm_get (rl_pending s) c"
      using assms Down by (intro record_pending_other) (simp_all add: relay_inv_def)
    then show ?thesis using D2uFrame Down by (simp add: Let_def)
  qed (simp_all add: Down close_up_def)
next
  case (Up u)
  then show ?thesis using assms
    by (cases u) (auto simp: relay_inv_def Let_def case_prod_beta u2d_frame_pending dm.get_rem split: option.splits)
qed

lemma spared_run:
  "relay_inv s \<Longrightarrow> \<forall>e \<in> set es. spares c e \<Longrightarrow>
     dm_get (rl_pending (relay_run P rw es s)) c = dm_get (rl_pending s) c \<and> relay_inv (relay_run P rw es s)"
proof (induction es arbitrary: s)
  case (Cons e es)
  then show ?case using Cons.IH[of "relay_exec P rw e s"] relay_inv_exec[of s P rw e] spared_step[of s c e P rw]
    by simp
qed simp

lemma recorded:
  "dm_inv p \<Longrightarrow> dm_len p < MAX_PENDING \<Longrightarrow> parse_request_header req = Some (k, v, c) \<Longrightarrow> needs_rewrite k \<Longrightarrow>
     dm_get (record_pending req p) c = Some (k, v)"
  by (simp add: record_pending_def dm.get_ins)

section \<open>Properties\<close>

text \<open>C11: In per-connection mode requests reach the broker verbatim and in order, whatever the other
  direction does: the frames sent are a prefix of the client's frames, and all of them while the
  task runs.\<close>

theorem requests_verbatim:
  assumes "s = relay_run P rw es (relay_start m)"
  shows "\<exists>lost. concat (map down_item es) = rl_up s @ lost \<and> (rl_d2u_running s \<longrightarrow> lost = [])"
  using requests.in_order[of "relay_start m" es P rw] assms
  by (auto simp: relay_run_def relay_start_def list.rel_eq)

theorem requests_verbatim_witness:
  "\<exists>lost. concat (map down_item [Down (D2uFrame [1] True), Up U2dEnd, Down (D2uFrame [2, 3] True), Down D2uEof]) =
     [[1], [2, 3]] @ lost"
  using requests_verbatim[OF refl, of "[Down (D2uFrame [1] True), Up U2dEnd, Down (D2uFrame [2, 3] True), Down D2uEof]"
      demo_protocol demo_rewrite m]
  by (simp add: relay_start_def Let_def close_up_def)

text \<open>C10: Responses reach the client in the order the broker sent them, one for one, each with the
  correlation id it came with: a response is relayed verbatim or as the rewriter's output.\<close>

theorem responses_in_order:
  assumes "codec_cid (metadata_codec P)" "codec_cid (describe_cluster_codec P)" "codec_cid (find_coordinator_codec P)"
    and "s = relay_run P rw es (relay_start m)"
  shows "\<exists>got lost. concat (map up_item es) = got @ lost \<and> list_all2 (relayed P rw) got (rl_down s)
    \<and> map parse_response_cid (rl_down s) = map parse_response_cid got \<and> (rl_u2d_running s \<longrightarrow> lost = [])"
proof -
  have "rl_u2d_running (relay_start m)" and "rl_down (relay_start m) = []" by (simp_all add: relay_start_def)
  then obtain got lost where g: "concat (map up_item es) = got @ lost" "list_all2 (relayed P rw) got (rl_down s)"
    "rl_u2d_running s \<longrightarrow> lost = []"
    using responses.in_order[of "relay_start m" es P rw] assms(4) by (auto simp: relay_run_def)
  have "parse_response_cid out = parse_response_cid data" if "relayed P rw data out" for data out
    using that rewrite_response_cid[OF assms(1-3)] by (auto simp: relayed_def)
  then have "list_all2 (\<lambda>d out. parse_response_cid out = parse_response_cid d) got (rl_down s)"
    using g(2) by (rule list_all2_mono[rotated])
  then have "map parse_response_cid (rl_down s) = map parse_response_cid got"
    by (induction rule: list_all2_induct) simp_all
  then show ?thesis using g by blast
qed

lemma demo_codec_cids: "codec_cid (metadata_codec demo_protocol)" "codec_cid (describe_cluster_codec demo_protocol)"
  "codec_cid (find_coordinator_codec demo_protocol)"
  by (auto simp: codec_cid_def demo_protocol_def demo_codec_def Let_def bind_eq_Some_conv f32.get_eq_iff split: if_splits)

theorem responses_in_order_witness:
  "\<exists>got lost. concat (map up_item [Up (U2dFrame (put_i32 5 @ [1]) True), Down D2uEof, Up (U2dFrame (put_i32 6 @ [1]) True)])
     = got @ lost \<and> map parse_response_cid got = [Some 5, Some 6]"
proof -
  let ?es = "[Up (U2dFrame (put_i32 5 @ [1]) True), Down D2uEof, Up (U2dFrame (put_i32 6 @ [1]) True)]"
  let ?s = "relay_run demo_protocol demo_rewrite ?es (relay_start (metrics_new True))"
  have "rl_down ?s = [put_i32 5 @ [1], put_i32 6 @ [1]]"
    by (simp add: relay_start_def Let_def close_up_def u2d_frame_def dm.get_new dm_get_def dm_remove_def dm_new_def)
  then have "map parse_response_cid (rl_down ?s) = [Some 5, Some 6]" by simp
  then show ?thesis using responses_in_order[OF demo_codec_cids refl, of ?es demo_rewrite "metrics_new True"] by metis
qed

text \<open>C30: The table of pending requests never holds more than 1024 entries, under every interleaving
  of the two tasks.\<close>

theorem pending_bounded: "dm_len (rl_pending (relay_run P rw es (relay_start m))) \<le> 1024"
proof -
  have "reach (\<lambda>s. \<exists>m. s = relay_start m) (\<lambda>s t. \<exists>e. t = relay_exec P rw e s) (relay_start m)"
    by (rule reach_init) blast
  from relay.reach_inv[OF relay_run_reach[OF this]] show ?thesis by (simp add: relay_inv_def MAX_PENDING_def)
qed

text \<open>C7: End to end in per-connection mode: after a request that needs rewriting is forwarded and
  recorded, and whatever happens on other correlation ids, the response to it is written
  downstream as the rewriter of the request's key and version makes it.\<close>

theorem relay_rewrites_response:
  assumes "relay_inv s" and "rl_d2u_running s" and "dm_len (rl_pending s) < MAX_PENDING"
    and "parse_request_header req = Some (k, v, c)" and "needs_rewrite k"
    and "\<forall>e \<in> set es. spares c e"
    and "s' = relay_run P rw es (d2u_step (D2uFrame req True) s)" and "rl_u2d_running s'"
    and "parse_response_cid resp = Some c"
  shows "rl_down (relay_exec P rw (Up (U2dFrame resp True)) s') =
    rl_down s' @ [case rewrite_response P k v resp rw of Some out \<Rightarrow> out | None \<Rightarrow> resp]"
proof -
  let ?t = "d2u_step (D2uFrame req True) s"
  have inv: "relay_inv ?t" using relay_inv_exec[OF assms(1), of P rw "Down (D2uFrame req True)"] assms(2) by simp
  have "dm_get (rl_pending ?t) c = Some (k, v)"
    using recorded[OF _ assms(3,4,5)] assms(1) by (simp add: relay_inv_def Let_def)
  then have "dm_get (rl_pending s') c = Some (k, v)"
    using spared_run[OF inv assms(6), of P rw] assms(7) by simp
  then show ?thesis using assms(8,9) by (simp add: u2d_frame_def Let_def)
qed

definition demo_request :: bytes where
  "demo_request = put_i16 3 @ put_i16 9 @ put_i32 77 @ [0]"

theorem relay_rewrites_response_witness:
  "rl_down (relay_exec demo_protocol demo_rewrite (Up (U2dFrame (put_i32 77 @ [1]) True))
       (relay_run demo_protocol demo_rewrite [Down (D2uTick True), Up (U2dFrame (put_i32 5 @ [1]) True)]
          (d2u_step (D2uFrame demo_request True) (relay_start (metrics_new True))))) =
     [put_i32 5 @ [1], put_i32 77 @ [2]]"
proof -
  let ?s = "relay_start (metrics_new True)"
  let ?es = "[Down (D2uTick True), Up (U2dFrame (put_i32 5 @ [1]) True)]"
  let ?s' = "relay_run demo_protocol demo_rewrite ?es (d2u_step (D2uFrame demo_request True) ?s)"
  have h: "parse_request_header demo_request = Some (3, 9, 77)"
    unfolding parse_request_header_Some demo_request_def by blast
  have rw: "rewrite_response demo_protocol 3 9 (put_i32 77 @ [1]) demo_rewrite = Some (put_i32 77 @ [2])"
    using demo_rewritten
    by (simp add: rewrite_response_def rewrite_metadata_response_def api_keys demo_protocol_def demo_codec_def
        encode_response_def Let_def case_prod_beta demo_md_def demo_rewrite_def)
  have s': "rl_down ?s' = [put_i32 5 @ [1]]" "rl_u2d_running ?s'"
    by (simp_all add: relay_start_def Let_def u2d_frame_def record_pending_def h needs_rewrite_def api_keys
        dm_get_def dm_insert_def dm_remove_def dm_new_def dm_len_def MAX_PENDING_def)
  have inv: "relay_inv ?s" by (rule relay.inv_init) blast
  have "rl_down (relay_exec demo_protocol demo_rewrite (Up (U2dFrame (put_i32 77 @ [1]) True)) ?s') =
      rl_down ?s' @ [case rewrite_response demo_protocol 3 9 (put_i32 77 @ [1]) demo_rewrite of
        Some out \<Rightarrow> out | None \<Rightarrow> put_i32 77 @ [1]]"
    by (rule relay_rewrites_response[OF inv _ _ h _ _ refl s'(2)])
      (simp_all add: relay_start_def dm.len_new MAX_PENDING_def needs_rewrite_def api_keys)
  then show ?thesis using s'(1) rw by simp
qed

text \<open>C36: When 1024 rewritable requests are outstanding, the next one is forwarded but not recorded:
  its response, which carries the brokers' real addresses, reaches the client unrewritten.\<close>

theorem overflow_leaks_addresses:
  assumes "MAX_PENDING \<le> dm_len (rl_pending s)" and "dm_get (rl_pending s) c = None"
    and "rl_d2u_running s" and "rl_u2d_running s"
    and "parse_request_header req = Some (k, v, c)" and "parse_response_cid resp = Some c"
  shows "let t = relay_run P rw [Down (D2uFrame req True), Up (U2dFrame resp True)] s in
    rl_up t = rl_up s @ [req] \<and> rl_down t = rl_down s @ [resp]"
  using assms by (simp add: record_pending_def u2d_frame_def Let_def)

definition full_pending :: "(i32, i16 \<times> i16) dashmap" where
  "full_pending = map (\<lambda>i. (word_of_nat i, (3, 9))) [0..<1024]"

theorem overflow_leaks_addresses_witness:
  "rl_down (relay_run demo_protocol demo_rewrite
       [Down (D2uFrame (put_i16 3 @ put_i16 9 @ put_i32 5000) True), Up (U2dFrame (put_i32 5000 @ [1]) True)]
       ((relay_start (metrics_new True))\<lparr>rl_pending := full_pending\<rparr>)) = [put_i32 5000 @ [1]]"
proof -
  let ?s = "(relay_start (metrics_new True))\<lparr>rl_pending := full_pending\<rparr>"
  let ?req = "put_i16 3 @ put_i16 9 @ put_i32 5000"
  have h: "parse_request_header ?req = Some (3, 9, 5000)"
    unfolding parse_request_header_Some by (rule exI[of _ "[]"]) simp
  have "(5000 :: i32) \<noteq> word_of_nat i" if "i < 1024" for i
  proof
    assume "(5000 :: i32) = word_of_nat i"
    then have "unat (5000 :: i32) = unat (word_of_nat i :: i32)" by simp
    then show False using that by (simp add: unat_of_nat take_bit_nat_eq_self)
  qed
  then have "dm_get (rl_pending ?s) 5000 = None"
    by (auto simp: dm_get_def full_pending_def map_of_eq_None_iff)
  moreover have "MAX_PENDING \<le> dm_len (rl_pending ?s)" by (simp add: MAX_PENDING_def dm_len_def full_pending_def)
  ultimately show ?thesis
    using overflow_leaks_addresses[of ?s 5000 ?req 3 9 "put_i32 5000 @ [1]" demo_protocol demo_rewrite] h
    by (simp add: Let_def relay_start_def del: relay_run_Cons)
qed

text \<open>C37: The idle timeout of a silent per-connection client never fires if it is longer than the
  flush interval: every flush tick, which comes every 5 ms whether or not there is anything to
  flush, starts the wait anew.\<close>

theorem idle_timeout_never_fires:
  assumes "PER_CONN_FLUSH_NS < d" and "next_tick \<le> start + PER_CONN_FLUSH_NS"
  shows "idle_fires fuel d start next_tick = None"
  using assms(2)
proof (induction fuel arbitrary: start next_tick)
  case (Suc fuel)
  then show ?case using assms(1) Suc.IH[of "next_tick + PER_CONN_FLUSH_NS" next_tick] by simp
qed simp

theorem idle_timeout_never_fires_witness: "idle_fires 100000 (from_secs 60) 0 0 = None"
  by (rule idle_timeout_never_fires) (simp_all add: PER_CONN_FLUSH_NS_def from_secs_def)

text \<open>A per-connection relay leaves the connection gauge as it found it, however it ends.\<close>

theorem relay_gauge_balanced:
  "upstream_connections (snd (run_inner P rw connect es m)) = upstream_connections m"
proof -
  have step: "upstream_connections (rl_metrics (relay_exec P rw e s)) = upstream_connections (rl_metrics s)" for e s
  proof (cases e)
    case (Down d)
    then show ?thesis
      by (cases d) (auto simp: Let_def close_up_def add_bytes_downstream_def inc_frames_downstream_def)
  next
    case (Up u)
    then show ?thesis
      by (cases u) (auto simp: Let_def case_prod_beta add_bytes_upstream_def inc_frames_upstream_def)
  qed
  have "upstream_connections (rl_metrics (relay_run P rw es s)) = upstream_connections (rl_metrics s)" for s
    by (induction es arbitrary: s) (simp_all add: step)
  then show ?thesis
    by (simp add: run_inner_def Let_def relay_start_def inc_upstream_connections_def dec_upstream_connections_def
        split: sum.splits)
qed

text \<open>C5: A pooled request that is sent successfully under a live lease, with the table below its limit,
  keeps its key, version, length and body; only its correlation id becomes the pool's. If nothing
  else happens in between and the relay's reply channel is open and has room, the response the
  broker gives to that id comes back on it under the client's id, as the rewriter of the request's
  key makes it.\<close>

theorem pooled_end_to_end:
  assumes "parse_request_header data = Some (k, v, cid_d)"
    and "pr_lease s = Some a" and "\<not> lease_expired now s"
    and "remap_inv (bp_remap (pr_pool s))"
    and "in_flight (bp_remap (pr_pool s)) < remap_limit (bp_remap (pr_pool s))"
    and "pooled_step envs now later True (PrFrame data) s = Some s'"
    and "rd_remap r = bp_remap (pr_pool s')"
    and "ch_open (rd_chans r (pr_resp_tx s))"
    and "length (ch_queue (rd_chans r (pr_resp_tx s))) < ch_capacity (rd_chans r (pr_resp_tx s))"
  shows "\<exists>u frame. pr_sent s' = pr_sent s @ [(acq_write_tx a, frame)]
    \<and> parse_request_header frame = Some (k, v, u) \<and> length frame = length data \<and> drop 8 frame = drop 8 data
    \<and> (\<forall>body. let resp = put_i32 u @ body in
        ch_queue (rd_chans (read_loop_step P rw t resp r) (pr_resp_tx s)) =
          ch_queue (rd_chans r (pr_resp_tx s)) @
            [put_i32 cid_d @ drop 4 (case rewrite_response P k v resp rw of Some out \<Rightarrow> out | None \<Rightarrow> resp)])"
proof -
  let ?u = "next_cid_u (next_cid (bp_remap (pr_pool s)))"
  let ?e = "\<lparr>re_downstream_tx = pr_resp_tx s, re_cid_d = cid_d, re_api_key = k, re_api_version = v,
    re_started = later, re_conn_id = acq_conn_id a\<rparr>"
  have inv: "dm_inv (remap_map (bp_remap (pr_pool s)))" using assms(4) by (simp add: remap_inv_def)
  let ?p = "on_metrics (add_bytes_downstream (of_nat (length data)) \<circ> inc_frames_downstream) (pr_pool s)"
  have "\<exists>m. remap_insert (pr_resp_tx s) cid_d k v (acq_conn_id a) later (bp_remap (pr_pool s)) (bp_metrics ?p) =
      (Some ?u, (bp_remap (pr_pool s))\<lparr>next_cid := ?u, remap_map := dm_insert ?u ?e (remap_map (bp_remap (pr_pool s)))\<rparr>, m)"
    using assms(5) by (auto simp: remap_insert_Some)
  then obtain m where ins: "remap_insert (pr_resp_tx s) cid_d k v (acq_conn_id a) later (bp_remap (pr_pool s)) (bp_metrics ?p) =
      (Some ?u, (bp_remap (pr_pool s))\<lparr>next_cid := ?u, remap_map := dm_insert ?u ?e (remap_map (bp_remap (pr_pool s)))\<rparr>, m)"
    by blast
  have s': "pr_sent s' = pr_sent s @ [(acq_write_tx a, upstream_frame ?u data)]"
      "remap_map (bp_remap (pr_pool s')) = dm_insert ?u ?e (remap_map (bp_remap (pr_pool s)))"
    using assms(1,2,3,6) ins
    by (auto simp: with_lease_def lease_expired_def forward_request_def register_request_def Let_def)
  have tab: "dm_get (remap_map (rd_remap r)) ?u = Some ?e" and rinv: "remap_inv (rd_remap r)"
    using assms(7) s'(2) inv by (simp_all add: dm.get_ins dm.inv_ins remap_inv_def)
  have "ch_queue (rd_chans (read_loop_step P rw t (put_i32 ?u @ body) r) (pr_resp_tx s)) =
      ch_queue (rd_chans r (pr_resp_tx s)) @ [route_response P (put_i32 ?u @ body) ?e rw]" for body
    using read_loop_step_delivers[OF rinv _ tab, of "put_i32 ?u @ body" P rw t] assms(8,9) by (simp add: Let_def)
  then show ?thesis
    using s'(1) upstream_frame_header[OF assms(1), of ?u] upstream_frame_rest[OF assms(1), of ?u]
    by (intro exI[of _ ?u] exI[of _ "upstream_frame ?u data"]) (simp add: Let_def route_response_def)
qed

definition demo_relay :: pooled_relay where
  "demo_relay = \<lparr>pr_pool = demo_pool, pr_resp_tx = 0, pr_lease = Some \<lparr>acq_write_tx = 4, acq_conn_id = 1\<rparr>,
     pr_deadline = 100, pr_sent = [], pr_running = True\<rparr>"

lemma demo_request_header: "parse_request_header demo_request = Some (3, 9, 77)"
  unfolding parse_request_header_Some demo_request_def by blast

lemma demo_relay_facts: "\<not> lease_expired 50 demo_relay" "remap_inv (bp_remap (pr_pool demo_relay))"
  "in_flight (bp_remap (pr_pool demo_relay)) < remap_limit (bp_remap (pr_pool demo_relay))"
  using remap_inv_new[of 8]
  by (simp_all add: lease_expired_def demo_relay_def demo_pool_def broker_pool_new_def with_max_in_flight_def
      in_flight_def dm.len_new)

theorem pooled_end_to_end_witness:
  "\<exists>s' u. pooled_step ([] :: string acquire_env list) 50 51 True (PrFrame demo_request) demo_relay = Some s'
     \<and> ch_queue (rd_chans (read_loop_step demo_protocol demo_rewrite 60 (put_i32 u @ [1])
          \<lparr>rd_remap = bp_remap (pr_pool s'), rd_metrics = bp_metrics (pr_pool s'),
           rd_chans = \<lambda>_. \<lparr>ch_queue = [], ch_capacity = 256, ch_open = True\<rparr>\<rparr>) 0) = [put_i32 77 @ [2]]"
proof -
  obtain s' where s': "pooled_step ([] :: string acquire_env list) 50 51 True (PrFrame demo_request) demo_relay = Some s'"
    using demo_relay_facts(1)
    by (simp add: Let_def demo_request_header with_lease_def lease_expired_def demo_relay_def)
  let ?r = "\<lparr>rd_remap = bp_remap (pr_pool s'), rd_metrics = bp_metrics (pr_pool s'),
           rd_chans = \<lambda>_. \<lparr>ch_queue = [], ch_capacity = 256, ch_open = True\<rparr>\<rparr>"
  have rw: "rewrite_response demo_protocol 3 9 (put_i32 u @ [1]) demo_rewrite = Some (put_i32 u @ [2])" for u
    using demo_rewritten
    by (simp add: rewrite_response_def rewrite_metadata_response_def api_keys demo_protocol_def demo_codec_def
        encode_response_def Let_def case_prod_beta demo_md_def demo_rewrite_def)
  have l: "pr_lease demo_relay = Some \<lparr>acq_write_tx = 4, acq_conn_id = 1\<rparr>" "pr_resp_tx demo_relay = 0"
    by (simp_all add: demo_relay_def)
  from pooled_end_to_end[OF demo_request_header l(1) demo_relay_facts s', of ?r demo_protocol demo_rewrite 60]
  obtain u where "\<forall>body. ch_queue (rd_chans (read_loop_step demo_protocol demo_rewrite 60 (put_i32 u @ body) ?r) 0) =
      [put_i32 77 @ drop 4 (case rewrite_response demo_protocol 3 9 (put_i32 u @ body) demo_rewrite of
         Some out \<Rightarrow> out | None \<Rightarrow> put_i32 u @ body)]"
    by (auto simp: Let_def l(2))
  then have "ch_queue (rd_chans (read_loop_step demo_protocol demo_rewrite 60 (put_i32 u @ [1]) ?r) 0) = [put_i32 77 @ [2]]"
    using rw by simp
  then show ?thesis using s' by blast
qed

lemma forwarded:
  assumes "parse_request_header data = Some (k, v, cid_d)"
    and "pr_lease s = Some a" and "\<not> lease_expired now s"
  shows "pooled_step envs now later ok (PrFrame data) s = Some (forward_request later ok data (k, v, cid_d) a
    (s\<lparr>pr_pool := on_metrics (add_bytes_downstream (of_nat (length data)) \<circ> inc_frames_downstream) (pr_pool s)\<rparr>))"
  using assms by (simp add: with_lease_def lease_expired_def Let_def)

text \<open>C39: If the upstream connection is gone when the request is sent, the registration is undone: the
  table, its gauge and the in-flight gauge are as before, nothing was sent, and the relay stops
  without giving the connection back.\<close>

theorem failed_send_undone:
  assumes "parse_request_header data = Some (k, v, cid_d)"
    and "pr_lease s = Some a" and "\<not> lease_expired now s"
    and "remap_inv (bp_remap (pr_pool s))"
    and "dm_get (remap_map (bp_remap (pr_pool s))) (next_cid_u (next_cid (bp_remap (pr_pool s)))) = None"
    and "in_flight (bp_remap (pr_pool s)) < remap_limit (bp_remap (pr_pool s))"
    and "pooled_step envs now later False (PrFrame data) s = Some s'"
  shows "dm_get (remap_map (bp_remap (pr_pool s'))) = dm_get (remap_map (bp_remap (pr_pool s)))
    \<and> cid_map_entries (bp_metrics (pr_pool s')) = cid_map_entries (bp_metrics (pr_pool s))
    \<and> requests_in_flight (bp_metrics (pr_pool s')) = requests_in_flight (bp_metrics (pr_pool s))
    \<and> pr_sent s' = pr_sent s \<and> bp_idle (pr_pool s') = bp_idle (pr_pool s)
    \<and> pr_lease s' = None \<and> \<not> pr_running s'"
proof -
  let ?m = "add_bytes_downstream (of_nat (length data)) (inc_frames_downstream (bp_metrics (pr_pool s)))"
  let ?r = "bp_remap (pr_pool s)"
  obtain u r1 where ins: "remap_insert (pr_resp_tx s) cid_d k v (acq_conn_id a) later ?r ?m = (Some u, r1, inc_cid_map_entries ?m)"
    using assms(6) by (auto simp: remap_insert_Some)
  obtain e r2 m2 where take: "remap_take u r1 (inc_cid_map_entries ?m) = (e, r2, m2)"
    by (cases "remap_take u r1 (inc_cid_map_entries ?m)")
  have it: "e \<noteq> None" "dm_get (remap_map r2) = dm_get (remap_map ?r)" "m2 = ?m"
    using insert_take[OF assms(4,5) ins take] by auto
  have "remap_take u r1 (inc_requests_in_flight (inc_cid_map_entries ?m)) = (e, r2, inc_requests_in_flight ?m)"
    using take it(1,3) by (auto simp: remap_take_def Let_def inc_requests_in_flight_def inc_cid_map_entries_def
        dec_cid_map_entries_def metrics_on_def)
  then show ?thesis using assms(7) it(1,2) ins forwarded[OF assms(1-3), of envs later False]
    by (auto simp: forward_request_def register_request_def cancel_request_def Let_def
        dec_requests_in_flight_def inc_requests_in_flight_def metrics_on_def
        add_bytes_downstream_def inc_frames_downstream_def)
qed

theorem failed_send_undone_witness:
  "\<exists>s'. pooled_step ([] :: string acquire_env list) 50 51 False (PrFrame demo_request) demo_relay = Some s'
     \<and> requests_in_flight (bp_metrics (pr_pool s')) = 0 \<and> pr_sent s' = [] \<and> \<not> pr_running s'"
proof -
  have l: "pr_lease demo_relay = Some \<lparr>acq_write_tx = 4, acq_conn_id = 1\<rparr>" by (simp add: demo_relay_def)
  obtain s' where s': "pooled_step ([] :: string acquire_env list) 50 51 False (PrFrame demo_request) demo_relay = Some s'"
    using forwarded[OF demo_request_header l demo_relay_facts(1)] by blast
  have fresh: "dm_get (remap_map (bp_remap (pr_pool demo_relay))) x = None" for x
    by (simp add: demo_relay_def demo_pool_def broker_pool_new_def with_max_in_flight_def dm.get_new)
  from failed_send_undone[OF demo_request_header l demo_relay_facts(1,2) fresh demo_relay_facts(3) s']
  show ?thesis using s'
    by (auto simp: demo_relay_def demo_pool_def broker_pool_new_def metrics_new_def)
qed



end
