(* ===== verification/Proxy.thy ===== *)
theory Proxy
  imports Relay
begin

text \<open>
  The proxy's start-up and its accept loops, \<open>src/src/lib.rs\<close>: the targets from the cluster's
  metadata or, failing that, from the configuration; the mapping entries; the rewrite map and the
  listeners; the pool's limits; and admission of downstream connections. Name resolution, the
  client library, the listening sockets and the process's memory are parameters.
\<close>

section \<open>Targets and errors\<close>

type_synonym 'ip socket_addr = "'ip \<times> u16"

record 'ip broker_target =
  bt_node_id :: i32
  bt_real_addr :: "'ip socket_addr"
  bt_real_host :: string

record 'ip mapped_listener =
  ml_node_id :: i32
  ml_port :: u16
  ml_bind_addr :: string
  ml_target :: "'ip broker_target"

datatype mapping_error =
    MapSegments string
  | AdvertiseNoPort string
  | AdvertiseBadPort string
  | BindNoPort string
  | BindBadPort string
  | NoTarget string

datatype ('e, 'ke) proxy_error =
    ConfigError mapping_error
  | AuthError "'ke upstream_error"
  | IoError string
  | ConfigParse "'e config_error"
  | KafkaError 'ke

section \<open>Mapping entries\<close>

text \<open>The host and port of one \<open>host:port\<close> segment.\<close>

definition split_host_port :: "(string \<Rightarrow> mapping_error) \<Rightarrow> (string \<Rightarrow> mapping_error) \<Rightarrow> string \<Rightarrow> string
    \<Rightarrow> ('e, 'ke) proxy_error + string \<times> nat" where
  "split_host_port no_port bad_port mapping part =
     bindE (ok_or (ConfigError (no_port mapping)) (rsplit_once (CHR '':'') part)) (\<lambda>(host, port_str).
     bindE (ok_or (ConfigError (bad_port mapping)) (parse_u16 port_str)) (\<lambda>port. Inr (host, port)))"

text \<open>The bind and the advertise segment among the one, two or three segments.\<close>

definition select_parts ::
  "string \<Rightarrow> string list \<Rightarrow> ('e, 'ke) proxy_error + string option \<times> string" where
  "select_parts mapping parts =
     (if length parts = 1 then Inr (None, parts ! 0)
      else if length parts = 2 then Inr (Some (parts ! 0), parts ! 1)
      else if length parts = 3 then Inr (Some (parts ! 1), parts ! 2)
      else Inl (ConfigError (MapSegments mapping)))"

definition bind_address :: "string \<Rightarrow> string option \<Rightarrow> nat \<Rightarrow> ('e, 'ke) proxy_error + string" where
  "bind_address mapping bind_part advertise_port =
     (case bind_part of
        Some b \<Rightarrow>
          bindE (split_host_port BindNoPort BindBadPort mapping b) (\<lambda>(bind_host, bind_port).
          Inr (if bind_host = [] then CHR '':'' # show_nat bind_port
               else bind_host @ CHR '':'' # show_nat bind_port))
      | None \<Rightarrow> Inr (CHR '':'' # show_nat advertise_port))"

definition parse_mapping_entry ::
  "string \<Rightarrow> string \<Rightarrow> ('e, 'ke) proxy_error + string \<times> string \<times> nat" where
  "parse_mapping_entry mapping fallback_host =
     bindE (select_parts mapping (mapping_parts mapping)) (\<lambda>(bind_part, advertise_part).
     bindE (split_host_port AdvertiseNoPort AdvertiseBadPort mapping advertise_part) (\<lambda>(adv_host_raw, advertise_port).
     bindE (bind_address mapping bind_part advertise_port) (\<lambda>bind_addr.
     Inr (bind_addr, if adv_host_raw = [] then fallback_host else adv_host_raw, advertise_port))))"

section \<open>The rewrite map and the listeners\<close>

definition host_of :: "string \<Rightarrow> string" where
  "host_of bs = (case rsplit_once (CHR '':'') bs of Some (h, _) \<Rightarrow> h | None \<Rightarrow> bs)"

definition target_matches :: "'ip socket_addr \<Rightarrow> string \<Rightarrow> 'ip broker_target \<Rightarrow> bool" where
  "target_matches bs_addr bs_host t \<longleftrightarrow>
     (fst (bt_real_addr t) = fst bs_addr \<and> snd (bt_real_addr t) = snd bs_addr) \<or> bt_real_host t = bs_host"

type_synonym 'ip mapping_state = "rewrite_map \<times> 'ip mapped_listener list"

definition map_one ::
  "(string \<Rightarrow> string + 'ip socket_addr list) \<Rightarrow> 'ip broker_target list \<Rightarrow> string \<Rightarrow> string \<times> string
     \<Rightarrow> 'ip mapping_state \<Rightarrow> ('e, 'ke) proxy_error + 'ip mapping_state" where
  "map_one lookup targets fallback_host entry st =
     (case entry of (bs, mapping) \<Rightarrow> case st of (node_ports, listeners) \<Rightarrow>
      bindE (parse_mapping_entry mapping fallback_host) (\<lambda>(bind_addr, advertise_host, port).
      bindE (map_err ConfigParse (parse_addr lookup bs)) (\<lambda>bs_addr.
      bindE (ok_or (ConfigError (NoTarget bs)) (find (target_matches bs_addr (host_of bs)) targets)) (\<lambda>target.
      Inr (node_ports(bt_node_id target \<mapsto> (advertise_host, of_nat port)),
           listeners @ [\<lparr>ml_node_id = bt_node_id target, ml_port = of_nat port, ml_bind_addr = bind_addr,
                         ml_target = target\<rparr>])))))"

fun map_entries ::
  "(string \<Rightarrow> string + 'ip socket_addr list) \<Rightarrow> 'ip broker_target list \<Rightarrow> string \<Rightarrow> (string \<times> string) list
     \<Rightarrow> 'ip mapping_state \<Rightarrow> ('e, 'ke) proxy_error + 'ip mapping_state" where
  "map_entries lookup targets fb [] st = Inr st"
| "map_entries lookup targets fb (e # es) st =
     bindE (map_one lookup targets fb e st) (map_entries lookup targets fb es)"

definition build_rewrite_map ::
  "(string \<Rightarrow> string + 'ip socket_addr list) \<Rightarrow> proxy_config \<Rightarrow> 'ip broker_target list
     \<Rightarrow> ('e, 'ke) proxy_error + 'ip mapping_state" where
  "build_rewrite_map lookup config targets =
     map_entries lookup targets (or_default (advertise_host (cfg_proxy config)) [])
       (zip (bootstrap_servers (cfg_cluster config)) (bootstrap_server_mapping (cfg_proxy config)))
       (Map.empty, [])"

section \<open>Bootstrap\<close>

text \<open>The client builder of the bootstrap connection: the authentication, and for GSSAPI the host
  name of the first bootstrap server.\<close>

definition bootstrap_builder ::
  "('kc, 'sc, 'b, 'cb, 'addr) kafka_client_api \<Rightarrow> (string \<Rightarrow> 'cb \<Rightarrow> 'cb) \<Rightarrow> ('kc, 'sc) auth_inner
     \<Rightarrow> string list \<Rightarrow> 'cb \<Rightarrow> 'cb" where
  "bootstrap_builder K with_broker_hostname auth servers builder =
     (let builder = apply_to_client_builder K auth builder in
      case auth of
        AGssapi _ _ _ \<Rightarrow>
          (case servers of
             first_bs # _ \<Rightarrow>
               (case rsplit_once (CHR '':'') first_bs of
                  Some (host, _) \<Rightarrow> with_broker_hostname host builder
                | None \<Rightarrow> builder)
           | [] \<Rightarrow> builder)
      | _ \<Rightarrow> builder)"

text \<open>Without metadata: one target per bootstrap server, with ids \<open>-1\<close>, \<open>-2\<close>, ...\<close>

fun fallback_targets ::
  "(string \<Rightarrow> string + 'ip socket_addr list) \<Rightarrow> nat \<Rightarrow> string list \<Rightarrow> ('e, 'ke) proxy_error + 'ip broker_target list" where
  "fallback_targets lookup i [] = Inr []"
| "fallback_targets lookup i (bs # rest) =
     bindE (map_err ConfigParse (parse_addr lookup bs)) (\<lambda>addr.
     bindE (fallback_targets lookup (i + 1) rest) (\<lambda>ts.
     Inr (\<lparr>bt_node_id = - (of_nat i + 1), bt_real_addr = addr, bt_real_host = host_of bs\<rparr> # ts)))"

text \<open>A broker of the metadata: id, host and the port as it is printed.\<close>

type_synonym metadata_broker = "i32 \<times> string \<times> string"

fun metadata_targets ::
  "(string \<Rightarrow> string + 'ip socket_addr list) \<Rightarrow> metadata_broker list \<Rightarrow> ('e, 'ke) proxy_error + 'ip broker_target list" where
  "metadata_targets lookup [] = Inr []"
| "metadata_targets lookup ((node, host, port) # rest) =
     bindE (map_err ConfigParse (parse_addr lookup (host @ CHR '':'' # port))) (\<lambda>addr.
     bindE (metadata_targets lookup rest) (\<lambda>ts.
     Inr (\<lparr>bt_node_id = node, bt_real_addr = addr, bt_real_host = host\<rparr> # ts)))"

text \<open>\<open>build\<close> is the outcome of connecting the client (with its 30 s timeout); a failed or late
  metadata refresh is only logged, and \<open>brokers\<close> is what the metadata then holds.\<close>

definition bootstrap_targets ::
  "(string \<Rightarrow> string + 'ip socket_addr list) \<Rightarrow> ('cb \<Rightarrow> 'ke + 'client) \<Rightarrow> 'cb \<Rightarrow> ('client \<Rightarrow> metadata_broker list)
     \<Rightarrow> string list \<Rightarrow> ('e, 'ke) proxy_error + 'ip broker_target list \<times> 'client" where
  "bootstrap_targets lookup build builder metadata servers =
     bindE (map_err KafkaError (build builder)) (\<lambda>client.
     (let brokers = metadata client in
      bindE (if brokers = [] then fallback_targets lookup 0 servers else metadata_targets lookup brokers)
        (\<lambda>targets. Inr (targets, client))))"

section \<open>Listeners and limits\<close>

definition to_pool_limits :: "pool_config \<Rightarrow> pool_limits" where
  "to_pool_limits cfg =
     \<lparr>max_per_broker = pool_config.max_per_broker cfg, min_idle = pool_config.min_idle cfg,
      idle_timeout = pool_config.idle_timeout cfg, acquire_timeout = pool_config.acquire_timeout cfg,
      pl_max_in_flight = max_in_flight cfg\<rparr>"

definition listener_bind :: "string \<Rightarrow> 'ip mapped_listener \<Rightarrow> string" where
  "listener_bind listen_addr ml =
     (if starts_with '':'' (ml_bind_addr ml) then listen_addr @ ml_bind_addr ml else ml_bind_addr ml)"

definition max_rss_option :: "pool_config \<Rightarrow> u64 option" where
  "max_rss_option cfg = (if 0 < max_rss_bytes cfg then Some (of_nat (max_rss_bytes cfg)) else None)"

section \<open>Admission of connections\<close>

datatype admit = RefusedRss | RefusedMax | Admitted

text \<open>\<open>downstream_connection_count() as usize\<close> reads the signed gauge as unsigned.\<close>

definition admit_check :: "u64 option \<Rightarrow> u64 \<Rightarrow> nat \<Rightarrow> metrics \<Rightarrow> admit" where
  "admit_check max_rss rss max_connections m =
     (if (case max_rss of Some limit \<Rightarrow> limit < rss | None \<Rightarrow> False) then RefusedRss
      else if max_connections \<le> unat (downstream_connections m) then RefusedMax
      else Admitted)"

type_synonym 'peer tracker = "('peer, i32 \<times> instant) dashmap"

definition admit_commit :: "i32 \<Rightarrow> instant \<Rightarrow> 'peer \<Rightarrow> metrics \<times> 'peer tracker \<Rightarrow> metrics \<times> 'peer tracker" where
  "admit_commit node now peer s =
     (inc_downstream_connections (fst s), dm_insert peer (node, now) (snd s))"

definition connection_end :: "'peer \<Rightarrow> metrics \<times> 'peer tracker \<Rightarrow> metrics \<times> 'peer tracker" where
  "connection_end peer s = (dec_downstream_connections (fst s), dm_remove peer (snd s))"

text \<open>One round of an accept loop that nobody else interferes with.\<close>

definition accept_one ::
  "u64 option \<Rightarrow> u64 \<Rightarrow> nat \<Rightarrow> i32 \<Rightarrow> instant \<Rightarrow> 'peer \<Rightarrow> metrics \<times> 'peer tracker \<Rightarrow> admit \<times> metrics \<times> 'peer tracker" where
  "accept_one max_rss rss max_connections node now peer s =
     (case admit_check max_rss rss max_connections (fst s) of
        Admitted \<Rightarrow> (Admitted, admit_commit node now peer s)
      | refused \<Rightarrow> (refused, s))"

text \<open>The loops of all listeners share the gauge; check and count are two steps. \<open>acc_live\<close> lists
  the connections that are counted: from their admission until their relay's \<open>run\<close> returns, when
  the gauge is decremented (a pooled relay returns when the first of its two tasks ends). A process has fewer than \<open>2^63\<close> sockets.\<close>

record accept_state =
  acc_shared :: "metrics \<times> nat tracker"
  acc_pending :: "nat set"
  acc_live :: "nat list"

inductive accept_step :: "u64 option \<Rightarrow> nat \<Rightarrow> nat \<Rightarrow> accept_state \<Rightarrow> accept_state \<Rightarrow> bool"
  for max_rss :: "u64 option" and limit :: nat and listeners :: nat where
  acc_check: "i < listeners \<Longrightarrow> i \<notin> acc_pending s \<Longrightarrow>
     admit_check max_rss rss limit (fst (acc_shared s)) = Admitted \<Longrightarrow>
     accept_step max_rss limit listeners s (s\<lparr>acc_pending := insert i (acc_pending s)\<rparr>)"
| acc_commit: "i \<in> acc_pending s \<Longrightarrow> Suc (length (acc_live s)) < 2 ^ 63 \<Longrightarrow>
     accept_step max_rss limit listeners s
       (s\<lparr>acc_shared := admit_commit node now peer (acc_shared s), acc_pending := acc_pending s - {i},
          acc_live := peer # acc_live s\<rparr>)"
| acc_end: "peer \<in> set (acc_live s) \<Longrightarrow>
     accept_step max_rss limit listeners s
       (s\<lparr>acc_shared := connection_end peer (acc_shared s), acc_live := remove1 peer (acc_live s)\<rparr>)"

definition accept_init :: "accept_state \<Rightarrow> bool" where
  "accept_init s \<longleftrightarrow> downstream_connections (fst (acc_shared s)) = 0 \<and> acc_pending s = {} \<and> acc_live s = []"

lemma accept_gauge:
  "reach accept_init (accept_step rss limit n) s \<Longrightarrow>
     downstream_connections (fst (acc_shared s)) = of_nat (length (acc_live s)) \<and> length (acc_live s) < 2 ^ 63"
proof (induction rule: reach.induct)
  case (reach_step s t)
  from reach_step.hyps(2) show ?case
  proof (cases rule: accept_step.cases)
    case (acc_end peer)
    then obtain k where "length (acc_live s) = Suc k" by (cases "acc_live s") auto
    then show ?thesis using acc_end reach_step.IH
      by (simp add: connection_end_def dec_downstream_connections_def length_remove1)
  qed (use reach_step.IH in \<open>simp_all add: admit_commit_def inc_downstream_connections_def\<close>)
qed (simp add: accept_init_def)

lemma accept_kinds:
  assumes r: "reach accept_init (accept_step rss limit n) s" and st: "accept_step rss limit n s t"
  shows "(\<exists>i < n. i \<notin> acc_pending s \<and> length (acc_live s) < limit
        \<and> length (acc_live t) = length (acc_live s) \<and> acc_pending t = insert i (acc_pending s)) \<or>
      (\<exists>i \<in> acc_pending s. length (acc_live t) \<le> Suc (length (acc_live s)) \<and> acc_pending t = acc_pending s - {i}) \<or>
      (length (acc_live t) \<le> length (acc_live s) \<and> acc_pending t \<subseteq> acc_pending s)"
  using st
proof (cases rule: accept_step.cases)
  case (acc_check i rss)
  have "unat (downstream_connections (fst (acc_shared s))) = length (acc_live s)"
    using accept_gauge[OF r] by (simp add: unat_of_nat take_bit_nat_eq_self)
  then show ?thesis using acc_check by (auto simp: admit_check_def split: if_splits)
qed (auto simp: length_remove1)

interpretation accepting: admission accept_init "accept_step rss limit n" "\<lambda>s. length (acc_live s)" acc_pending limit n
proof
  show "length (acc_live s) = 0 \<and> acc_pending s = {}" if "accept_init s" for s
    using that by (simp add: accept_init_def)
qed (rule accept_kinds)

section \<open>Mapping entries: lemmas\<close>

definition plain_text :: "string \<Rightarrow> bool" where
  "plain_text s \<longleftrightarrow> (\<forall>c \<in> set s. c \<noteq> CHR '','' \<and> \<not> is_whitespace c)"

definition segment :: "string \<Rightarrow> nat \<Rightarrow> string" where
  "segment h p = h @ CHR '':'' # show_nat p"

lemma colon_plain [simp]: "\<not> is_whitespace (CHR '':'')"
  by (simp add: is_whitespace_def)

lemma plain_segment: "plain_text h \<Longrightarrow> plain_text (segment h p)"
proof -
  have "\<forall>c \<in> set (show_nat p). c \<noteq> CHR '','' \<and> \<not> is_whitespace c"
    using dec16.shown_no_comma[of p] digit_not_whitespace[OF show_nat_digits[of _ p]] by metis
  moreover assume "plain_text h"
  ultimately show ?thesis by (simp add: plain_text_def segment_def ball_Un)
qed

lemma trim_plain: "plain_text s \<Longrightarrow> trim s = s"
  by (intro trim_all_ok) (simp add: plain_text_def)

lemma plain_no_comma: "plain_text s \<Longrightarrow> CHR '','' \<notin> set s"
  by (auto simp: plain_text_def)

lemma mapping_parts_plain:
  "plain_text a \<Longrightarrow> mapping_parts a = [a]"
  "plain_text a \<Longrightarrow> mapping_parts (a @ CHR '','' # s) = a # mapping_parts s"
  by (simp_all add: mapping_parts_def plain_no_comma split_char_no_sep split_char_append trim_plain)

lemma split_segment: "p \<le> u16_max \<Longrightarrow> split_host_port e1 e2 m (segment h p) = Inr (h, p)"
  by (simp add: split_host_port_def segment_def dec16.host_port_split dec16.parsed_shown)

lemma bind_segment:
  "q \<le> u16_max \<Longrightarrow> bind_address m (Some (segment b q)) p = Inr (segment b q)"
  "bind_address m None p = Inr (CHR '':'' # show_nat p)"
  by (simp_all add: bind_address_def split_segment) (simp add: segment_def)

lemma parse_mapping_parts:
  assumes "parse_mapping_entry m fb = (Inr r :: ('e, 'ke) proxy_error + _)"
  shows "length (mapping_parts m) \<le> 3 \<and> (\<exists>h. rsplit_once (CHR '':'') (last (mapping_parts m)) = Some h)"
proof -
  let ?ps = "mapping_parts m"
  obtain bp adv where sel: "select_parts m ?ps = (Inr (bp, adv) :: ('e, 'ke) proxy_error + _)"
    and sp: "\<exists>x. split_host_port AdvertiseNoPort AdvertiseBadPort m adv = (Inr x :: ('e, 'ke) proxy_error + _)"
    using assms by (auto simp: parse_mapping_entry_def bindE_eq_Inr)
  from sel have len: "length ?ps \<le> 3" and adv: "adv = last ?ps"
    by (auto simp: select_parts_def last_conv_nth numeral_2_eq_2 numeral_3_eq_3 split: if_splits)
  show ?thesis using len sp by (auto simp: adv split_host_port_def bindE_eq_Inr)
qed

section \<open>The rewrite map: lemmas\<close>

definition mapped_ok :: "'ip broker_target list \<Rightarrow> 'ip mapping_state \<Rightarrow> bool" where
  "mapped_ok targets st \<longleftrightarrow>
     dom (fst st) = ml_node_id ` set (snd st)
     \<and> (\<forall>l \<in> set (snd st). ml_target l \<in> set targets \<and> bt_node_id (ml_target l) = ml_node_id l)
     \<and> (\<forall>node h p. fst st node = Some (h, p) \<longrightarrow> (\<exists>l \<in> set (snd st). ml_node_id l = node \<and> ml_port l = p))"

lemma mapped_ok_one:
  assumes "mapped_ok targets st" and "map_one lookup targets fb e st = Inr st'"
  shows "mapped_ok targets st' \<and> length (snd st') = Suc (length (snd st))"
proof -
  from assms(2) obtain t h b p where
    t: "t \<in> set targets" and st': "fst st' = (fst st)(bt_node_id t \<mapsto> (h, of_nat p))"
      "snd st' = snd st @ [\<lparr>ml_node_id = bt_node_id t, ml_port = of_nat p, ml_bind_addr = b, ml_target = t\<rparr>]"
    by (cases e; cases st) (auto simp: map_one_def bindE_eq_Inr find_Some_iff)
  then show ?thesis using assms(1) by (fastforce simp: mapped_ok_def)
qed

lemma mapped_ok_entries:
  "mapped_ok targets st \<Longrightarrow> map_entries lookup targets fb es st = (Inr st' :: ('e, 'ke) proxy_error + _) \<Longrightarrow>
     mapped_ok targets st' \<and> length (snd st') = length (snd st) + length es"
proof (induction es arbitrary: st)
  case (Cons e es)
  then obtain st1 where "map_one lookup targets fb e st = (Inr st1 :: ('e, 'ke) proxy_error + _)"
    "map_entries lookup targets fb es st1 = (Inr st' :: ('e, 'ke) proxy_error + _)"
    by (auto simp: bindE_eq_Inr)
  then show ?case using mapped_ok_one[OF Cons.prems(1)] Cons.IH[of st1] by fastforce
qed simp

lemma fallback_ids:
  "fallback_targets lookup i servers = (Inr ts :: ('e, 'ke) proxy_error + _) \<Longrightarrow>
     length ts = length servers \<and> (\<forall>k < length ts. bt_node_id (ts ! k) = - (of_nat (i + k) + 1))"
proof (induction servers arbitrary: i ts)
  case (Cons bs rest)
  then obtain a us where u: "fallback_targets lookup (i + 1) rest = (Inr us :: ('e, 'ke) proxy_error + _)"
    "ts = \<lparr>bt_node_id = - (of_nat i + 1), bt_real_addr = a, bt_real_host = host_of bs\<rparr> # us"
    by (auto simp: bindE_eq_Inr)
  then show ?case using Cons.IH[OF u(1)] by (auto simp: nth_Cons add.assoc split: nat.splits)
qed simp

lemma uint_nat_i32: "1 \<le> unat (w :: i32) \<Longrightarrow> 1 \<le> uint w" "unat w \<le> 2 ^ 31 \<Longrightarrow> uint w \<le> 2 ^ 31"
proof -
  show "1 \<le> unat w \<Longrightarrow> 1 \<le> uint w" unfolding uint_nat by linarith
  have "int (unat w) \<le> int (2 ^ 31)" if "unat w \<le> 2 ^ 31" using that by (rule of_nat_mono)
  then show "unat w \<le> 2 ^ 31 \<Longrightarrow> uint w \<le> 2 ^ 31" unfolding uint_nat by simp
qed

lemma uint_neg_i32: "w \<noteq> 0 \<Longrightarrow> uint (- w :: i32) = 2 ^ 32 - uint w"
proof -
  assume "w \<noteq> 0"
  then have "uint w \<noteq> 0" by (simp add: uint_0_iff)
  then have "0 < uint w" using uint_ge_0[of w] by linarith
  then have a: "0 \<le> - uint w + 2 ^ 32" "- uint w + 2 ^ 32 < 2 ^ 32" using uint_lt2p[of w] by simp_all
  have "uint (- w) = (- uint w) mod 2 ^ 32" by (simp only: uint_word_ariths) simp
  also have "\<dots> = (- uint w + 2 ^ 32) mod 2 ^ 32" by (rule mod_add_self2[symmetric])
  also have "\<dots> = - uint w + 2 ^ 32" using a by (rule mod_pos_pos_trivial)
  finally show ?thesis by linarith
qed

lemma negated_negative:
  assumes "1 \<le> unat w" and "unat w \<le> 2 ^ 31"
  shows "\<not> 0 \<le>s (- w :: i32)"
proof -
  have w: "1 \<le> uint w" "uint w \<le> 2 ^ 31" by (rule uint_nat_i32(1)[OF assms(1)], rule uint_nat_i32(2)[OF assms(2)])
  then have "w \<noteq> 0" by auto
  then have "uint (- w) = 2 ^ 32 - uint w" by (rule uint_neg_i32)
  then have "\<not> uint (- w) < 2 ^ 31" and u: "uint (- w) - 2 ^ 32 = - uint w" using w by simp_all
  then have "sint (- w) = - uint w" by (simp only: sint_i32 if_False)
  then show ?thesis using w by (simp add: word_sle_eq)
qed

lemma negative_id: "i < 2 ^ 31 \<Longrightarrow> \<not> 0 \<le>s - (of_nat i + 1 :: i32)"
proof -
  assume i: "i < 2 ^ 31"
  have "(of_nat i + 1 :: i32) = of_nat (Suc i)" by simp
  then have "unat (of_nat i + 1 :: i32) = Suc i" using i by (simp only: unat_of_nat) (simp add: take_bit_nat_eq_self)
  then show ?thesis using i by (intro negated_negative) simp_all
qed

section \<open>Properties\<close>

text \<open>C21: The three forms of a mapping entry are read as documented: the last segment is the
  advertised host and port (the fallback host if it names none); the listener binds the segment
  before it, or \<open>listen_bind\<close> at the advertised port if there is none. A bind segment without a
  host stands for \<open>listen_bind\<close> too.\<close>

theorem mapping_forms:
  assumes "plain_text h" and "plain_text b" and "plain_text orig" and "p \<le> u16_max" and "q \<le> u16_max"
  shows "parse_mapping_entry (segment h p) fb =
        (Inr (CHR '':'' # show_nat p, if h = [] then fb else h, p) :: ('e, 'ke) proxy_error + _)
    \<and> parse_mapping_entry (segment b q @ CHR '','' # segment h p) fb =
        (Inr (segment b q, if h = [] then fb else h, p) :: ('e, 'ke) proxy_error + _)
    \<and> parse_mapping_entry (orig @ CHR '','' # segment b q @ CHR '','' # segment h p) fb =
        (Inr (segment b q, if h = [] then fb else h, p) :: ('e, 'ke) proxy_error + _)
    \<and> (ml_bind_addr ml = CHR '':'' # show_nat p \<longrightarrow> listener_bind listen_addr ml = segment listen_addr p)
    \<and> (ml_bind_addr ml = segment b q \<longrightarrow> listener_bind listen_addr ml =
         (if b = [] then segment listen_addr q
          else if hd b = CHR '':'' then listen_addr @ segment b q else segment b q))"
  using plain_segment[OF assms(1), of p] plain_segment[OF assms(2), of q] assms(3-5)
  by (simp add: parse_mapping_entry_def select_parts_def mapping_parts_plain split_segment bind_segment)
    (cases b; simp add: listener_bind_def starts_with_def segment_def)

theorem mapping_forms_witness:
  "parse_mapping_entry ''broker1:9092,0.0.0.0:19092,proxy:19092'' ''unused'' =
     (Inr (''0.0.0.0:19092'', ''proxy'', 19092) :: (unit, unit) proxy_error + _)"
proof -
  have p: "plain_text ''proxy''" "plain_text ''0.0.0.0''" "plain_text ''broker1:9092''" "(19092 :: nat) \<le> u16_max"
    by (simp_all add: plain_text_def is_whitespace_def u16_max_def)
  have "show_nat 19092 = ''19092''" by (simp add: show_nat.simps digit_char_def char_of_def bit_Suc_0_iff)
  then show ?thesis
    using conjunct1[OF conjunct2[OF conjunct2[OF mapping_forms[OF p(1,2,3,4,4), where ?'e = unit and ?'ke = unit and fb = "''unused''"]]]]
    by (simp add: segment_def)
qed

text \<open>Everything the proxy can read passes the configuration check (given a fallback host that is
  not blank).\<close>

theorem parsed_entry_validates:
  assumes "parse_mapping_entry m fb = (Inr r :: ('e, 'ke) proxy_error + _)" and "trim fb \<noteq> []"
  shows "validate_entry (Some fb) i m = None"
  using parse_mapping_parts[OF assms(1)] assms(2)
  by (simp add: validate_entry_None_iff entry_wf_def or_default_def)

theorem parsed_entry_validates_witness: "validate_entry (Some ''proxy'') 0 '':19092'' = None"
proof -
  have "plain_text (segment [] 19092)" by (rule plain_segment) (simp add: plain_text_def)
  then have "parse_mapping_entry (segment [] 19092) ''proxy'' =
      (Inr (CHR '':'' # show_nat 19092, ''proxy'', 19092) :: (unit, unit) proxy_error + _)"
    by (simp add: parse_mapping_entry_def select_parts_def mapping_parts_plain bind_segment split_segment u16_max_def)
  moreover have "trim ''proxy'' \<noteq> []" by (simp add: trim_def is_whitespace_def)
  moreover have "segment [] 19092 = '':19092''" by (simp add: segment_def show_nat.simps digit_char_def char_of_def bit_Suc_0_iff)
  ultimately show ?thesis using parsed_entry_validates[of "'':19092''" "''proxy''"] by metis
qed

text \<open>The converse fails: with a fallback host the check accepts an entry without a port, which
  the proxy then refuses at start-up.\<close>

theorem validated_entry_may_not_parse:
  "validate_entry (Some ''proxy'') i ''broker1'' = None
   \<and> parse_mapping_entry ''broker1'' ''proxy'' = (Inl (ConfigError (AdvertiseNoPort ''broker1'')) :: ('e, 'ke) proxy_error + _)"
proof
  have p: "mapping_parts ''broker1'' = [''broker1'']"
    by (simp add: mapping_parts_def trim_def is_whitespace_def)
  show "validate_entry (Some ''proxy'') i ''broker1'' = None"
    by (simp add: validate_entry_def p or_default_def trim_def is_whitespace_def)
  show "parse_mapping_entry ''broker1'' ''proxy'' = (Inl (ConfigError (AdvertiseNoPort ''broker1'')) :: ('e, 'ke) proxy_error + _)"
    by (simp add: parse_mapping_entry_def select_parts_def p split_host_port_def)
qed

text \<open>C20: After a successful start the rewrite map advertises exactly the brokers that have a
  listener, each at the advertised port of one of its listeners; there is a listener for every
  pair of bootstrap server and mapping entry, and its target is one of the cluster's brokers.\<close>

theorem rewrite_map_matches_listeners:
  assumes "build_rewrite_map lookup config targets = (Inr (rm, ls) :: ('e, 'ke) proxy_error + _)"
  shows "dom rm = ml_node_id ` set ls
    \<and> (\<forall>node h p. rm node = Some (h, p) \<longrightarrow> (\<exists>l \<in> set ls. ml_node_id l = node \<and> ml_port l = p))
    \<and> (\<forall>l \<in> set ls. ml_target l \<in> set targets \<and> bt_node_id (ml_target l) = ml_node_id l)
    \<and> length ls = min (length (bootstrap_servers (cfg_cluster config))) (length (bootstrap_server_mapping (cfg_proxy config)))"
proof -
  have "mapped_ok targets (Map.empty, [])" by (simp add: mapped_ok_def)
  from mapped_ok_entries[OF this assms[unfolded build_rewrite_map_def]] show ?thesis
    by (auto simp: mapped_ok_def)
qed

text \<open>Two brokers on one host, at ports 9092 and 9093.\<close>

definition demo_config :: proxy_config where
  "demo_config =
     \<lparr>cfg_cluster = \<lparr>bootstrap_servers = [''kafka:9092'', ''kafka:9093'']\<rparr>,
      cfg_proxy = \<lparr>advertise_host = None, listen_bind = default_bind, max_downstream_connections = 10,
                   client_idle_timeout = None, bootstrap_server_mapping = [''p:1'', ''p:2'']\<rparr>,
      cfg_upstream = auth_config_default, cfg_downstream = auth_config_default, cfg_pool = pool_config_default,
      cfg_api = api_config_default, cfg_ha = StatelessReplicas, cfg_log = log_config_default\<rparr>"

definition demo_lookup :: "string \<Rightarrow> string + nat socket_addr list" where
  "demo_lookup s = (if s = ''kafka:9092'' then Inr [(7, 9092)] else if s = ''kafka:9093'' then Inr [(7, 9093)] else Inl ''nxdomain'')"

definition demo_targets :: "nat broker_target list" where
  "demo_targets = [\<lparr>bt_node_id = 1, bt_real_addr = (7, 9092), bt_real_host = ''kafka''\<rparr>,
                   \<lparr>bt_node_id = 2, bt_real_addr = (7, 9093), bt_real_host = ''kafka''\<rparr>]"

lemma demo_parts: "mapping_parts ''p:1'' = [''p:1'']" "mapping_parts ''p:2'' = [''p:2'']"
  by (simp_all add: mapping_parts_def trim_def is_whitespace_def)

lemma demo_entries: "parse_mapping_entry ''p:1'' fb = Inr ('':1'', ''p'', 1)" "parse_mapping_entry ''p:2'' fb = Inr ('':2'', ''p'', 2)"
  by (simp_all add: parse_mapping_entry_def select_parts_def demo_parts split_host_port_def bind_address_def
      parse_u16_def parse_uint_def digit_val_def u16_max_def show_nat.simps digit_char_def char_of_def bit_Suc_0_iff)

lemma demo_rewrite_map:
  "\<exists>ls. build_rewrite_map demo_lookup demo_config demo_targets = (Inr ([1 \<mapsto> (''p'', 2)], ls) :: (unit, unit) proxy_error + _)
     \<and> map ml_node_id ls = [1, 1] \<and> map ml_port ls = [1, 2]"
  by (simp add: build_rewrite_map_def demo_config_def map_one_def demo_entries parse_addr_def demo_lookup_def
      demo_targets_def target_matches_def host_of_def)

theorem rewrite_map_matches_listeners_witness:
  "\<exists>ls. build_rewrite_map demo_lookup demo_config demo_targets = (Inr ([1 \<mapsto> (''p'', 2)], ls) :: (unit, unit) proxy_error + _)
     \<and> length ls = 2"
proof -
  obtain ls where ls: "build_rewrite_map demo_lookup demo_config demo_targets =
      (Inr ([1 \<mapsto> (''p'', 2)], ls) :: (unit, unit) proxy_error + _)"
    using demo_rewrite_map by blast
  from rewrite_map_matches_listeners[OF ls] show ?thesis using ls by (simp add: demo_config_def)
qed

text \<open>A bootstrap server is matched by address or by host name in one pass, not by address first:
  whatever its port, it gets the first broker of its host. So of two brokers on one host only the
  first is ever advertised (the witness: both listeners stand for broker 1, and broker 2's real
  address stays in the clients' metadata).\<close>

theorem first_broker_of_host_wins:
  assumes "bt_real_host t = host_of bs"
    and "map_one lookup (t # ts) fb (bs, mapping) (rm, ls) = (Inr (rm', ls') :: ('e, 'ke) proxy_error + _)"
  shows "\<exists>h p. rm' = rm(bt_node_id t \<mapsto> (h, p)) \<and> ml_target (last ls') = t"
  using assms by (auto simp: map_one_def bindE_eq_Inr target_matches_def)

theorem first_broker_of_host_wins_witness:
  "\<exists>rm ls. map_one demo_lookup demo_targets [] (''kafka:9093'', ''p:2'') (Map.empty, []) =
     (Inr (rm, ls) :: (unit, unit) proxy_error + _) \<and> bt_node_id (ml_target (last ls)) = 1 \<and> rm 2 = None"
proof -
  have ex: "\<exists>rm ls. map_one demo_lookup demo_targets [] (''kafka:9093'', ''p:2'') (Map.empty, []) =
     (Inr (rm, ls) :: (unit, unit) proxy_error + _)"
    by (simp add: map_one_def demo_entries parse_addr_def demo_lookup_def demo_targets_def target_matches_def host_of_def)
  then obtain rm ls where m: "map_one demo_lookup demo_targets [] (''kafka:9093'', ''p:2'') (Map.empty, []) =
     (Inr (rm, ls) :: (unit, unit) proxy_error + _)" by blast
  let ?t = "\<lparr>bt_node_id = 1, bt_real_addr = (7, 9092), bt_real_host = ''kafka''\<rparr> :: nat broker_target"
  from first_broker_of_host_wins[of ?t "''kafka:9093''" demo_lookup _ "[]" "''p:2''" Map.empty "[]" rm ls]
  have "\<exists>h p. rm = [1 \<mapsto> (h, p)] \<and> ml_target (last ls) = ?t"
    using m by (auto simp: demo_targets_def host_of_def)
  then show ?thesis using m by auto
qed

text \<open>C38: If the cluster's metadata cannot be had, the stand-in targets have negative node ids, so the
  rewrite map of that start matches no broker id a response can carry.\<close>

theorem fallback_never_rewrites:
  assumes "fallback_targets lookup 0 servers = (Inr targets :: ('e, 'ke) proxy_error + _)"
    and "length servers < 2 ^ 31"
    and "build_rewrite_map lookup' config targets = (Inr (rm, ls) :: ('f, 'kf) proxy_error + _)"
    and "0 \<le>s node"
  shows "rm node = None"
proof (rule ccontr)
  assume "rm node \<noteq> None"
  have "mapped_ok targets (Map.empty, [])" by (simp add: mapped_ok_def)
  from mapped_ok_entries[OF this assms(3)[unfolded build_rewrite_map_def]]
  obtain t where t: "t \<in> set targets" "bt_node_id t = node"
    using \<open>rm node \<noteq> None\<close> by (fastforce simp: mapped_ok_def)
  then obtain k where k: "k < length targets" "targets ! k = t" by (auto simp: in_set_conv_nth)
  then have "node = - (of_nat k + 1)" "k < length servers" using fallback_ids[OF assms(1)] t(2) by auto
  then show False using negative_id[of k] assms(2,4) by simp
qed

theorem fallback_never_rewrites_witness:
  "\<exists>targets rm ls. fallback_targets demo_lookup 0 [''kafka:9092''] = (Inr targets :: (unit, unit) proxy_error + _)
     \<and> build_rewrite_map demo_lookup (demo_config\<lparr>cfg_cluster := \<lparr>bootstrap_servers = [''kafka:9092'']\<rparr>\<rparr>) targets =
         (Inr (rm, ls) :: (unit, unit) proxy_error + _) \<and> rm 1 = None"
proof -
  let ?ts = "[\<lparr>bt_node_id = - 1, bt_real_addr = (7, 9092), bt_real_host = ''kafka''\<rparr>] :: nat broker_target list"
  let ?c = "demo_config\<lparr>cfg_cluster := \<lparr>bootstrap_servers = [''kafka:9092'']\<rparr>\<rparr>"
  have f: "fallback_targets demo_lookup 0 [''kafka:9092''] = (Inr ?ts :: (unit, unit) proxy_error + _)"
    by (simp add: parse_addr_def demo_lookup_def host_of_def)
  have "\<exists>rm ls. build_rewrite_map demo_lookup ?c ?ts = (Inr (rm, ls) :: (unit, unit) proxy_error + _)"
    by (simp add: build_rewrite_map_def demo_config_def map_one_def demo_entries parse_addr_def demo_lookup_def
      target_matches_def host_of_def)
  then obtain rm ls where b: "build_rewrite_map demo_lookup ?c ?ts = (Inr (rm, ls) :: (unit, unit) proxy_error + _)" by blast
  have "rm 1 = None" by (rule fallback_never_rewrites[OF f _ b]) (simp_all add: word_sle_eq)
  then show ?thesis using f b by blast
qed

text \<open>With \<open>n\<close> listeners accepting concurrently the connections counted exceed the configured
  maximum by at most \<open>n - 1\<close>, and with one listener not at all.\<close>

theorem connections_bounded:
  assumes "reach accept_init (accept_step rss limit n) s"
  shows "length (acc_live s) \<le> (limit - 1) + n \<and> (n = Suc 0 \<longrightarrow> length (acc_live s) \<le> limit)"
  using accepting.level_bound[OF assms] accepting.level_exact[OF _ assms] by (simp split: if_splits)

theorem connections_bounded_witness:
  "\<exists>s. reach accept_init (accept_step None 1 1) s \<and> length (acc_live s) = 1 \<and> length (acc_live s) \<le> 1"
proof -
  let ?s0 = "\<lparr>acc_shared = (metrics_new True, dm_new), acc_pending = {}, acc_live = []\<rparr>"
  let ?s1 = "?s0\<lparr>acc_pending := {0}\<rparr>"
  let ?s2 = "?s1\<lparr>acc_shared := admit_commit 1 0 9 (acc_shared ?s1), acc_pending := acc_pending ?s1 - {0},
          acc_live := 9 # acc_live ?s1\<rparr>"
  have "reach accept_init (accept_step None 1 1) ?s0"
    by (rule reach_init) (simp add: accept_init_def metrics_new_def)
  then have "reach accept_init (accept_step None 1 1) ?s1"
    using acc_check[of 0 1 ?s0 None 0 1] by (auto intro: reach_step simp: admit_check_def metrics_new_def)
  then have r: "reach accept_init (accept_step None 1 1) ?s2"
    using acc_commit[where i = 0 and s = ?s1 and node = 1 and now = 0 and peer = 9] by (elim reach_step) simp
  then show ?thesis using connections_bounded[OF r] by (intro exI[of _ ?s2]) simp
qed

text \<open>A refused connection leaves no trace; an accepted one is counted and tracked, and its end
  restores both the gauge and the tracker's other entries.\<close>

theorem accept_then_end:
  assumes "dm_inv (snd s)" and "accept_one max_rss rss limit node now peer s = (r, s')"
  shows "if r = Admitted
    then downstream_connections (fst s') = downstream_connections (fst s) + 1
      \<and> dm_get (snd s') peer = Some (node, now)
      \<and> fst (connection_end peer s') = fst s
      \<and> dm_get (snd (connection_end peer s')) = (dm_get (snd s))(peer := None)
    else s' = s"
  using assms
  by (auto simp: accept_one_def admit_commit_def connection_end_def dm.get_ins dm.get_rem dm.inv_ins
      inc_downstream_connections_def dec_downstream_connections_def split: admit.splits)

theorem accept_then_end_witness:
  "\<exists>s'. accept_one None 0 10 3 5 (8 :: nat) (metrics_new True, dm_new) = (Admitted, s') \<and> dm_get (snd s') 8 = Some (3, 5)"
proof -
  have r: "\<exists>s'. accept_one None 0 10 3 5 (8 :: nat) (metrics_new True, dm_new) = (Admitted, s')"
    by (simp add: accept_one_def admit_check_def metrics_new_def)
  then obtain s' where s': "accept_one None 0 10 3 5 (8 :: nat) (metrics_new True, dm_new) = (Admitted, s')" by blast
  show ?thesis using accept_then_end[OF _ s'] s' by (simp add: dm.inv_new)
qed

end
