(* ===== verification/Api.thy ===== *)
theory Api
  imports Proxy "HOL-Library.Product_Lexorder" "HOL-Library.List_Lexorder"
begin

text \<open>
  The web API, \<open>src/src/api.rs\<close>: the diagnostic handlers as functions from what the admin client,
  the consumer and the producer return to an HTTP status and a JSON value. Offsets, partitions
  and error codes are integers (the code does no arithmetic on them that could leave their
  range); a text is its UTF-8 bytes as characters.
\<close>

section \<open>JSON and texts\<close>

datatype json =
    JNull
  | JBool bool
  | JInt int
  | JNum rat
  | JStr string
  | JArr "json list"
  | JObj "(string \<times> json) list"

definition json_error :: "string \<Rightarrow> json" where
  "json_error msg = JObj [(''error'', JStr msg)]"

definition continuation :: "u8 \<Rightarrow> bool" where
  "continuation b \<longleftrightarrow> 0x80 \<le> b \<and> b \<le> 0xBF"

text \<open>\<open>std::str::from_utf8\<close>: the well-formed byte sequences of Unicode's table 3-7.\<close>

fun utf8_valid :: "bytes \<Rightarrow> bool" where
  "utf8_valid [] = True"
| "utf8_valid (b # rest) =
     (if b < 0x80 then utf8_valid rest
      else if 0xC2 \<le> b \<and> b \<le> 0xDF then
        (case rest of c # rest \<Rightarrow> continuation c \<and> utf8_valid rest | _ \<Rightarrow> False)
      else if 0xE0 \<le> b \<and> b \<le> 0xEF then
        (case rest of c # d # rest \<Rightarrow>
           (if b = 0xE0 then 0xA0 \<le> c \<and> c \<le> 0xBF
            else if b = 0xED then 0x80 \<le> c \<and> c \<le> 0x9F else continuation c)
           \<and> continuation d \<and> utf8_valid rest
         | _ \<Rightarrow> False)
      else if 0xF0 \<le> b \<and> b \<le> 0xF4 then
        (case rest of c # d # e # rest \<Rightarrow>
           (if b = 0xF0 then 0x90 \<le> c \<and> c \<le> 0xBF
            else if b = 0xF4 then 0x80 \<le> c \<and> c \<le> 0x8F else continuation c)
           \<and> continuation d \<and> continuation e \<and> utf8_valid rest
         | _ \<Rightarrow> False)
      else False)"

definition hex_digit :: "nat \<Rightarrow> char" where
  "hex_digit d = (if d < 10 then char_of (48 + d) else char_of (87 + d))"

definition hex_byte :: "u8 \<Rightarrow> string" where
  "hex_byte b = [hex_digit (unat b div 16), hex_digit (unat b mod 16)]"

definition text_of :: "bytes \<Rightarrow> string" where
  "text_of bs = map (\<lambda>b. char_of (unat b)) bs"

definition bytes_to_text :: "bytes \<Rightarrow> json" where
  "bytes_to_text b =
     (if utf8_valid b then JStr (text_of b)
      else JStr (''0x'' @ concat (map hex_byte b)))"

section \<open>Responses\<close>

type_synonym response = "nat \<times> json"

definition respond :: "string + json \<Rightarrow> response" where
  "respond r = (case r of Inr v \<Rightarrow> (200, v) | Inl e \<Rightarrow> (500, json_error e))"

definition health_handler :: response where
  "health_handler = (200, JObj [(''status'', JStr ''ok'')])"

text \<open>The tracked connections with the shown peer, sorted by it; durations in seconds, rounded to
  milliseconds. \<open>f64::round\<close> is half away from zero, here of a non-negative number.\<close>

definition round_millis :: "rat \<Rightarrow> rat" where
  "round_millis secs = of_int \<lfloor>secs * 1000 + 1 / 2\<rfloor> / 1000"

definition connection_entry :: "('peer \<Rightarrow> string) \<Rightarrow> instant \<Rightarrow> 'peer \<times> i32 \<times> instant \<Rightarrow> string \<times> json" where
  "connection_entry show_peer now e =
     (case e of (peer, node_id, started) \<Rightarrow>
        (show_peer peer,
         JObj [(''peer'', JStr (show_peer peer)), (''node_id'', JInt (sint node_id)),
               (''duration_secs'', JNum (round_millis (as_secs_f64 (now - started))))]))"

definition connections_handler :: "('peer \<Rightarrow> string) \<Rightarrow> instant \<Rightarrow> 'peer tracker \<Rightarrow> response" where
  "connections_handler show_peer now tracker =
     (let conns = sort_key fst (map (connection_entry show_peer now) tracker)
      in (200, JObj [(''connections'', JArr (map snd conns)), (''count'', JInt (int (length conns)))]))"

section \<open>Topics\<close>

type_synonym topic_listing = "string \<times> bool \<times> int"

definition list_topics :: "string + topic_listing list \<Rightarrow> string + json" where
  "list_topics topics =
     bindE topics (\<lambda>ts.
     (let entries = map (\<lambda>(name, internal, parts).
            JObj [(''name'', JStr name), (''internal'', JBool internal), (''partitions'', JInt parts)]) ts
      in Inr (JObj [(''count'', JInt (int (length entries))), (''topics'', JArr entries)])))"

record create_request =
  cq_name :: string
  cq_num_partitions :: "int option"
  cq_replication_factor :: "int option"
  cq_configs :: "(string \<times> string) list"

record new_topic =
  nt_name :: string
  nt_partitions :: int
  nt_replication :: int
  nt_configs :: "(string \<times> string) list"

record create_result =
  cr_name :: string
  cr_already_exists :: bool
  cr_success :: bool
  cr_error_message :: "string option"
  cr_error_text :: string

definition to_new_topic :: "create_request \<Rightarrow> new_topic" where
  "to_new_topic req =
     \<lparr>nt_name = cq_name req,
      nt_partitions = max (or_default (cq_num_partitions req) (-1)) (-1),
      nt_replication = max (or_default (cq_replication_factor req) (-1)) (-1),
      nt_configs = cq_configs req\<rparr>"

definition create_topic ::
  "(new_topic \<Rightarrow> string + create_result) \<Rightarrow> create_request \<Rightarrow> nat \<times> string + json" where
  "create_topic admin req =
     bindE (map_err (\<lambda>e. (500, e)) (admin (to_new_topic req))) (\<lambda>result.
     if cr_already_exists result then Inl (409, ''topic '' @ [CHR 0x27] @ cr_name result @ [CHR 0x27] @ '' already exists'')
     else if \<not> cr_success result then
       Inl (500, or_default (cr_error_message result) (''error code: '' @ cr_error_text result))
     else Inr (JObj [(''name'', JStr (cr_name result)), (''created'', JBool True)]))"

definition create_topic_handler ::
  "(new_topic \<Rightarrow> string + create_result) \<Rightarrow> create_request \<Rightarrow> response" where
  "create_topic_handler admin req =
     (case create_topic admin req of Inr v \<Rightarrow> (200, v) | Inl (code, msg) \<Rightarrow> (code, json_error msg))"

section \<open>Consumers\<close>

record group_offset =
  go_topic :: string
  go_partition :: int
  go_committed :: int
  go_log_end :: int
  go_lag :: int

record group_member =
  gm_member_id :: string
  gm_client_id :: string
  gm_client_host :: string

record group_description =
  gd_group_id :: string
  gd_state :: string
  gd_members :: "group_member list"

text \<open>A listed group is its id and protocol type.\<close>

definition consumer_groups :: "(string \<times> string) list \<Rightarrow> string list" where
  "consumer_groups groups = map fst (filter (\<lambda>(_, p). p = ''consumer'' \<or> p = []) groups)"

definition total_lag :: "group_offset list \<Rightarrow> int" where
  "total_lag os = sum_list (map go_lag (filter (\<lambda>g. 0 \<le> go_lag g) os))"

definition member_json :: "group_member \<Rightarrow> json" where
  "member_json m = JObj [(''member_id'', JStr (gm_member_id m)), (''client_id'', JStr (gm_client_id m)),
     (''client_host'', JStr (gm_client_host m))]"

definition partition_json :: "group_offset \<Rightarrow> json" where
  "partition_json g = JObj [(''partition'', JInt (go_partition g)), (''committed_offset'', JInt (go_committed g)),
     (''log_end_offset'', JInt (go_log_end g)), (''lag'', JInt (go_lag g))]"

text \<open>The description found for a group id: collecting into a hash map keeps the last one.\<close>

definition description_of :: "group_description list \<Rightarrow> string \<Rightarrow> group_description option" where
  "description_of ds gid = map_of (rev (map (\<lambda>d. (gd_group_id d, d)) ds)) gid"

definition consumer_json ::
  "group_description list \<Rightarrow> string \<Rightarrow> string \<times> group_offset list \<Rightarrow> json option" where
  "consumer_json ds topic r =
     (case r of (gid, offsets) \<Rightarrow>
        let topic_offsets = filter (\<lambda>g. go_topic g = topic) offsets;
            desc = description_of ds gid
        in if topic_offsets = [] then None
           else Some (JObj
             [(''group'', JStr gid),
              (''state'', JStr (case desc of Some d \<Rightarrow> gd_state d | None \<Rightarrow> ''Unknown'')),
              (''members'', JArr (case desc of Some d \<Rightarrow> map member_json (gd_members d) | None \<Rightarrow> [])),
              (''partitions'', JArr (map partition_json topic_offsets)),
              (''total_lag'', JInt (total_lag topic_offsets))]))"

text \<open>\<open>fetch gid\<close> is the outcome of the group's offset request within its 5 s (\<open>None\<close>: an error
  or too late); \<open>in_time\<close> says whether all of them ended within 15 s.\<close>

definition list_consumers ::
  "string + (string \<times> string) list \<Rightarrow> (string list \<Rightarrow> string + group_description list)
     \<Rightarrow> (string \<Rightarrow> group_offset list option) \<Rightarrow> bool \<Rightarrow> string \<Rightarrow> string + json" where
  "list_consumers groups describe fetch in_time topic =
     bindE groups (\<lambda>gs.
     (let gids = consumer_groups gs in
      if gids = [] then Inr (JObj [(''topic'', JStr topic), (''consumers'', JArr [])])
      else bindE (describe gids) (\<lambda>ds.
        (let results = (if in_time then List.map_filter (\<lambda>g. map_option (Pair g) (fetch g)) gids else [])
         in Inr (JObj [(''topic'', JStr topic),
                       (''consumers'', JArr (List.map_filter (consumer_json ds topic) results))])))))"

section \<open>Latest messages\<close>

record 'x consumer_record =
  rec_partition :: int
  rec_offset :: int
  rec_rest :: 'x

text \<open>The end offsets: of the response's topics the named one, of its partitions those without an
  error; \<open>None\<close> is a failed request, which is only logged.\<close>

type_synonym offsets_response = "(string \<times> (int \<times> int \<times> int) list) list"

definition fetch_log_end_offsets ::
  "string + int list list \<Rightarrow> (int list \<Rightarrow> offsets_response option) \<Rightarrow> string \<Rightarrow> string + (int \<times> int) list" where
  "fetch_log_end_offsets describe send topic =
     bindE describe (\<lambda>desc.
     (let all_partitions = concat desc in
      if all_partitions = [] then Inr []
      else (let ends = (case send all_partitions of
                   None \<Rightarrow> []
                 | Some resp \<Rightarrow>
                     concat (map (\<lambda>(name, ps). if name = topic
                       then map (\<lambda>(p, _, off). (p, off)) (filter (\<lambda>(_, err, _). err = 0) ps) else []) resp))
            in Inr (sort_key fst ends))))"

definition clamp_count :: "nat option \<Rightarrow> nat \<Rightarrow> nat" where
  "clamp_count q dflt = min (max (or_default q dflt) 1) 1000"

definition starts_of :: "nat \<Rightarrow> (int \<times> int) list \<Rightarrow> (int \<times> int \<times> int) list" where
  "starts_of count ends = map (\<lambda>(p, e). (p, max (e - int count) 0, e)) (filter (\<lambda>(p, e). \<not> e \<le> 0) ends)"

definition in_window :: "(int \<times> int \<times> int) list \<Rightarrow> 'x consumer_record \<Rightarrow> bool" where
  "in_window starts r =
     (case find (\<lambda>(p, _, _). p = rec_partition r) starts of
        Some (_, start, e) \<Rightarrow> start \<le> rec_offset r \<and> rec_offset r < e
      | None \<Rightarrow> False)"

definition all_partitions_done :: "'x consumer_record list \<Rightarrow> (int \<times> int \<times> int) list \<Rightarrow> bool" where
  "all_partitions_done collected starts \<longleftrightarrow>
     list_all (\<lambda>(part, start, e).
       \<not> length (filter (\<lambda>r. rec_partition r = part) collected) < nat (e - start)) starts"

text \<open>The poll loop against its polls, each with whether the deadline has not passed before it.\<close>

datatype 'x poll = PollError string | PollBatch "'x consumer_record list"

fun poll_loop ::
  "(int \<times> int \<times> int) list \<Rightarrow> nat \<Rightarrow> (bool \<times> 'x poll) list \<Rightarrow> 'x consumer_record list
     \<Rightarrow> string + 'x consumer_record list" where
  "poll_loop starts want [] collected = Inr collected"
| "poll_loop starts want ((in_time, p) # ps) collected =
     (if length collected < want \<and> in_time then
        (case p of
           PollError e \<Rightarrow> Inl e
         | PollBatch batch \<Rightarrow>
             (if batch = [] then
                (if all_partitions_done collected starts then Inr collected
                 else poll_loop starts want ps collected)
              else (let collected = collected @ filter (in_window starts) batch in
                    if all_partitions_done collected starts then Inr collected
                    else poll_loop starts want ps collected)))
      else Inr collected)"

text \<open>The newest \<open>count\<close> records of every partition. \<open>order\<close> is the iteration order of the hash
  map of partitions.\<close>

definition recent_of :: "nat \<Rightarrow> 'x consumer_record list \<Rightarrow> int \<Rightarrow> 'x consumer_record list" where
  "recent_of count collected p =
     (let recs = sort_key rec_offset (filter (\<lambda>r. rec_partition r = p) collected);
          n = min (length recs) count
      in drop (length recs - n) recs)"

definition select_messages ::
  "int list \<Rightarrow> nat \<Rightarrow> 'x consumer_record list \<Rightarrow> 'x consumer_record list" where
  "select_messages order count collected =
     sort_key (\<lambda>r. (rec_partition r, rec_offset r)) (concat (map (recent_of count collected) order))"

definition latest_messages ::
  "('x consumer_record \<Rightarrow> json) \<Rightarrow> string + (int \<times> int) list \<Rightarrow> ((int \<times> int \<times> int) list \<Rightarrow> string + (bool \<times> 'x poll) list)
     \<Rightarrow> ('x consumer_record list \<Rightarrow> int list) \<Rightarrow> string \<Rightarrow> nat \<Rightarrow> string + json" where
  "latest_messages to_json ends consume order topic count =
     bindE ends (\<lambda>ends.
     (let starts = starts_of count ends;
          none = JObj [(''topic'', JStr topic), (''count'', JInt 0), (''messages'', JArr [])]
      in if ends = [] then Inr none
         else if starts = [] then Inr none
         else bindE (consume starts) (\<lambda>polls.
              bindE (poll_loop starts (count * length starts) polls []) (\<lambda>collected.
              (let messages = map to_json (select_messages (order collected) count collected)
               in Inr (JObj [(''topic'', JStr topic), (''count'', JInt (int (length messages))),
                             (''messages'', JArr messages)]))))))"

record header =
  hd_key :: string
  hd_value :: bytes

record payload =
  pl_timestamp :: int
  pl_key :: "bytes option"
  pl_value :: bytes
  pl_headers :: "header list"

definition record_to_json :: "payload consumer_record \<Rightarrow> json" where
  "record_to_json r =
     (let m = rec_rest r in
      JObj [(''partition'', JInt (rec_partition r)), (''offset'', JInt (rec_offset r)),
            (''timestamp'', JInt (pl_timestamp m)),
            (''key'', case pl_key m of Some k \<Rightarrow> bytes_to_text k | None \<Rightarrow> JNull),
            (''value'', bytes_to_text (pl_value m)),
            (''headers'', JArr (map (\<lambda>h. JObj [(''key'', JStr (hd_key h)), (''value'', bytes_to_text (hd_value h))])
               (pl_headers m)))])"

section \<open>Sending\<close>

record produce_request =
  pq_value :: string
  pq_key :: "string option"
  pq_partition :: "int option"

record record_meta =
  rm_topic :: string
  rm_partition :: int
  rm_offset :: int
  rm_timestamp :: int

definition send_message ::
  "(string \<Rightarrow> produce_request \<Rightarrow> string + record_meta) \<Rightarrow> string \<Rightarrow> produce_request \<Rightarrow> string + json" where
  "send_message send topic req =
     bindE (send topic req) (\<lambda>meta.
     Inr (JObj [(''topic'', JStr (rm_topic meta)), (''partition'', JInt (rm_partition meta)),
                (''offset'', JInt (rm_offset meta)), (''timestamp'', JInt (rm_timestamp meta))]))"

section \<open>Lemmas\<close>

lemma sorted_sort_filter_take:
  "sorted (map f (drop n (sort_key f xs)))"
  by (simp add: drop_map[symmetric] sorted_wrt_drop)

lemma recent_of_set: "set (recent_of count c p) \<subseteq> {r \<in> set c. rec_partition r = p}"
  by (auto simp: recent_of_def Let_def dest: in_set_dropD)

lemma recent_of_length: "length (recent_of count c p) \<le> count"
  by (simp add: recent_of_def Let_def)

text \<open>What is dropped before the recent ones is not newer.\<close>

lemma recent_of_newest:
  assumes "r \<in> set (recent_of count c p)" and "r' \<in> set c" and "rec_partition r' = p"
    and "r' \<notin> set (recent_of count c p)"
  shows "rec_offset r' \<le> rec_offset r"
proof -
  let ?s = "sort_key rec_offset (filter (\<lambda>r. rec_partition r = p) c)"
  let ?k = "length ?s - min (length ?s) count"
  have split: "?s = take ?k ?s @ drop ?k ?s" by simp
  have rec: "recent_of count c p = drop ?k ?s" by (simp add: recent_of_def Let_def)
  have "r' \<in> set ?s" using assms(2,3) by simp
  then have "r' \<in> set (take ?k ?s)" using assms(4) unfolding rec
    by (subst (asm) split) (simp only: set_append Un_iff, blast)
  moreover have "sorted (map rec_offset (take ?k ?s @ drop ?k ?s))"
    by (simp only: append_take_drop_id sorted_sort_key)
  ultimately show ?thesis using assms(1) unfolding rec
    by (simp only: map_append sorted_append) (auto simp del: append_take_drop_id)
qed

lemma poll_loop_window:
  "poll_loop starts want ps c = Inr c' \<Longrightarrow> \<forall>r \<in> set c. in_window starts r \<Longrightarrow> \<forall>r \<in> set c'. in_window starts r"
proof (induction ps arbitrary: c)
  case (Cons tp ps)
  obtain t p where tp: "tp = (t, p)" by (cases tp)
  show ?case
  proof (cases p)
    case (PollError e)
    then show ?thesis using Cons.prems by (simp add: tp split: if_splits)
  next
    case (PollBatch b)
    have "\<forall>r \<in> set (c @ filter (in_window starts) b). in_window starts r"
      using Cons.prems(2) by (simp add: ball_Un)
    then show ?thesis
      using Cons.prems Cons.IH[of c] Cons.IH[of "c @ filter (in_window starts) b"]
      by (simp only: tp PollBatch poll_loop.simps poll.case Let_def sum.inject split: if_splits) blast+
  qed
qed simp

lemma starts_of_window:
  assumes "in_window (starts_of count ends) r"
  shows "\<exists>e. (rec_partition r, e) \<in> set ends \<and> 0 < e \<and> e - int count \<le> rec_offset r \<and> 0 \<le> rec_offset r \<and> rec_offset r < e"
proof -
  obtain p st e where f: "find (\<lambda>(p, _, _). p = rec_partition r) (starts_of count ends) = Some (p, st, e)"
    and w: "st \<le> rec_offset r" "rec_offset r < e"
    using assms by (auto simp: in_window_def split: option.splits)
  then have p: "p = rec_partition r" and m: "(p, st, e) \<in> set (starts_of count ends)"
    by (auto simp: find_Some_iff in_set_conv_nth)
  then have "(p, e) \<in> set ends" "0 < e" "st = max (e - int count) 0"
    by (auto simp: starts_of_def)
  then show ?thesis using w p by auto
qed

lemma hex_byte_length: "length (hex_byte b) = 2"
  by (simp add: hex_byte_def)

lemma starts_avail: "(p, s, e) \<in> set (starts_of count ends) \<Longrightarrow> nat (e - s) \<le> count \<and> 0 \<le> s \<and> s < e \<or> count = 0"
  by (auto simp: starts_of_def)

lemma filter_recent:
  "filter (\<lambda>r. rec_partition r = p) (recent_of count c q) = (if q = p then recent_of count c q else [])"
  using recent_of_set[of count c q] by (auto simp: filter_id_conv filter_empty_conv)

lemma filter_concat_recent:
  "distinct order \<Longrightarrow> filter (\<lambda>r. rec_partition r = p) (concat (map (recent_of count c) order)) =
     (if p \<in> set order then recent_of count c p else [])"
  by (induction order) (auto simp: filter_recent)

lemma select_partition:
  assumes "distinct order"
  shows "set (filter (\<lambda>r. rec_partition r = p) (select_messages order count c)) =
      (if p \<in> set order then set (recent_of count c p) else {})
    \<and> length (filter (\<lambda>r. rec_partition r = p) (select_messages order count c)) \<le> count"
proof -
  have "filter (\<lambda>r. rec_partition r = p) (select_messages order count c) =
      sort_key (\<lambda>r. (rec_partition r, rec_offset r)) (if p \<in> set order then recent_of count c p else [])"
    using filter_concat_recent[OF assms, of p count c]
    by (simp add: select_messages_def filter_sort)
  then show ?thesis using recent_of_length[of count c p] by simp
qed

section \<open>Properties\<close>

text \<open>C28: Whatever the polls return, the messages shown are sorted by partition and offset, at most
  \<open>count\<close> of each partition, each among the last \<open>count\<close> offsets of its partition; and no record
  that was collected and left out is newer than one shown of the same partition. This does not
  depend on the order in which the partitions are visited.\<close>

theorem latest_messages_newest:
  assumes "poll_loop (starts_of count ends) want polls [] = Inr c"
    and "distinct order" and "set order = rec_partition ` set c"
    and "ms = select_messages order count c"
  shows "sorted (map (\<lambda>r. (rec_partition r, rec_offset r)) ms)
    \<and> length (filter (\<lambda>r. rec_partition r = p) ms) \<le> count
    \<and> (\<forall>r \<in> set ms. \<exists>e. (rec_partition r, e) \<in> set ends \<and> e - int count \<le> rec_offset r \<and> rec_offset r < e)
    \<and> (\<forall>r \<in> set ms. \<forall>r' \<in> set c. rec_partition r' = rec_partition r \<longrightarrow> r' \<notin> set ms \<longrightarrow> rec_offset r' \<le> rec_offset r)"
proof (intro conjI ballI impI)
  have part: "r \<in> set ms \<longleftrightarrow> rec_partition r \<in> set order \<and> r \<in> set (recent_of count c (rec_partition r))" for r
  proof -
    have "r \<in> set ms \<longleftrightarrow> r \<in> set (filter (\<lambda>x. rec_partition x = rec_partition r) ms)" by simp
    also have "\<dots> \<longleftrightarrow> r \<in> (if rec_partition r \<in> set order then set (recent_of count c (rec_partition r)) else {})"
      using select_partition[OF assms(2), of "rec_partition r" count c] by (simp only: assms(4))
    finally show ?thesis by simp
  qed
  show "sorted (map (\<lambda>r. (rec_partition r, rec_offset r)) ms)" by (simp add: assms(4) select_messages_def)
  show "length (filter (\<lambda>r. rec_partition r = p) ms) \<le> count"
    using select_partition[OF assms(2), of p count c] by (simp add: assms(4))
  have "\<forall>r \<in> set c. in_window (starts_of count ends) r" by (rule poll_loop_window[OF assms(1)]) simp
  then show "\<exists>e. (rec_partition r, e) \<in> set ends \<and> e - int count \<le> rec_offset r \<and> rec_offset r < e" if "r \<in> set ms" for r
    using that part[of r] recent_of_set[of count c "rec_partition r"] starts_of_window[of count ends r] by blast
  show "rec_offset r' \<le> rec_offset r"
    if "r \<in> set ms" "r' \<in> set c" "rec_partition r' = rec_partition r" "r' \<notin> set ms" for r r'
    using that part[of r] part[of r'] recent_of_newest[of r count c "rec_partition r" r'] by auto
qed

definition demo_record :: "int \<Rightarrow> int \<Rightarrow> unit consumer_record" where
  "demo_record p off = \<lparr>rec_partition = p, rec_offset = off, rec_rest = ()\<rparr>"

theorem latest_messages_newest_witness:
  "\<exists>c. poll_loop (starts_of 1 [(0, 3), (1, 2)]) 2 [(True, PollBatch [demo_record 1 1, demo_record 0 1, demo_record 0 2])] [] = Inr c
     \<and> (\<forall>r \<in> set (select_messages [1, 0] 1 c). \<exists>e. (rec_partition r, e) \<in> set [(0, 3), (1, 2)] \<and> e - 1 \<le> rec_offset r \<and> rec_offset r < e)
     \<and> map rec_offset (select_messages [1, 0] 1 c) = [2, 1]"
proof -
  let ?c = "[demo_record 1 1, demo_record 0 2]"
  have p: "poll_loop (starts_of 1 [(0, 3), (1, 2)]) 2 [(True, PollBatch [demo_record 1 1, demo_record 0 1, demo_record 0 2])] [] = Inr ?c"
    by (simp add: starts_of_def in_window_def demo_record_def Let_def)
  have "map rec_offset (select_messages [1, 0] 1 ?c) = [2, 1]"
    by (simp add: select_messages_def recent_of_def demo_record_def)
  moreover have "set [1, 0] = rec_partition ` set ?c" by (simp add: demo_record_def)
  ultimately show ?thesis using latest_messages_newest[OF p _ _ refl, of "[1, 0]"] p
    by (intro exI[of _ ?c]) auto
qed

text \<open>The text of a value is ambiguous: the two bytes \<open>ff fe\<close> and the six characters \<open>0xfffe\<close> are
  shown alike.\<close>

lemma bytes_to_text_ambiguous:
  "bytes_to_text [0xFF, 0xFE] = bytes_to_text [0x30, 0x78, 0x66, 0x66, 0x66, 0x65]"
  by (simp add: bytes_to_text_def hex_byte_def hex_digit_def text_of_def char_of_def bit_Suc_0_iff)

text \<open>The tracked connections are listed completely and in the order of their peers.\<close>

lemma connections_listed:
  "\<exists>cs. connections_handler show_peer now tracker =
      (200, JObj [(''connections'', JArr (map snd cs)), (''count'', JInt (int (length tracker)))])
    \<and> set cs = set (map (connection_entry show_peer now) tracker) \<and> length cs = length tracker \<and> sorted (map fst cs)"
  by (intro exI[of _ "sort_key fst (map (connection_entry show_peer now) tracker)"])
    (simp add: connections_handler_def Let_def)

end
