(* ===== verification/Entry.thy ===== *)
theory Entry
  imports Api
begin

text \<open>
  The program's entry, \<open>src/src/main.rs\<close>: where the log directory is, which log subscriber is in
  force, and the text of a log line's prefix. The process-wide subscriber of the \<open>tracing\<close>
  library can be set once: that is documented behaviour of \<open>set_global_default\<close>.
\<close>

section \<open>The log directory\<close>

text \<open>\<open>Path\<close> operations on Unix: absolute paths start with a slash; \<open>parent\<close> cuts the last
  component and is empty for a bare file name; \<open>join\<close> of a relative path puts a slash between
  unless the base is empty or ends with one.\<close>

definition is_absolute :: "string \<Rightarrow> bool" where
  "is_absolute p = starts_with ''/'' p"

definition path_parent :: "string \<Rightarrow> string option" where
  "path_parent p =
     (case rsplit_once (CHR ''/'') p of
        Some (d, _) \<Rightarrow> if d = [] then (if p = ''/'' then None else Some ''/'') else Some d
      | None \<Rightarrow> if p = [] then None else Some [])"

definition path_join :: "string \<Rightarrow> string \<Rightarrow> string" where
  "path_join base p =
     (if is_absolute p then p
      else if base = [] \<or> last base = CHR ''/'' then base @ p
      else base @ ''/'' @ p)"

definition resolve_log_dir :: "string \<Rightarrow> string \<Rightarrow> string" where
  "resolve_log_dir config_path dir =
     (if is_absolute dir then dir
      else path_join (case path_parent config_path of Some d \<Rightarrow> d | None \<Rightarrow> ''.'') dir)"

section \<open>The subscriber\<close>

datatype subscriber =
    StdoutSubscriber string
  | FileAndStdout string string

definition set_global_default :: "subscriber \<Rightarrow> subscriber option \<Rightarrow> bool \<times> subscriber option" where
  "set_global_default s g = (case g of None \<Rightarrow> (True, Some s) | Some _ \<Rightarrow> (False, g))"

text \<open>\<open>env_filter\<close> is the filter of the environment, if it has one. \<open>.init()\<close> panics when a
  subscriber is already set; the later call's result is ignored. \<open>mkdir\<close> says whether the
  directory could be made.\<close>

definition init_logging :: "string option \<Rightarrow> subscriber option \<Rightarrow> subscriber option option" where
  "init_logging env_filter g =
     (case set_global_default (StdoutSubscriber (or_default env_filter ''info'')) g of
        (True, g) \<Rightarrow> Some g
      | (False, _) \<Rightarrow> None)"

definition switch_logging ::
  "string option \<Rightarrow> (string \<Rightarrow> bool) \<Rightarrow> string \<Rightarrow> log_config \<Rightarrow> subscriber option \<Rightarrow> subscriber option" where
  "switch_logging env_filter mkdir config_path cfg g =
     (case log_dir cfg of
        None \<Rightarrow> g
      | Some dir \<Rightarrow>
          (let resolved = resolve_log_dir config_path dir in
           if \<not> mkdir resolved then g
           else snd (set_global_default (FileAndStdout resolved (or_default env_filter (log_level cfg))) g)))"

definition main_logging ::
  "string option \<Rightarrow> (string \<Rightarrow> bool) \<Rightarrow> string \<Rightarrow> log_config \<Rightarrow> subscriber option" where
  "main_logging env_filter mkdir config_path cfg =
     (case init_logging env_filter None of
        Some g \<Rightarrow> switch_logging env_filter mkdir config_path cfg g
      | None \<Rightarrow> None)"

section \<open>Log lines\<close>

datatype level = TRACE | DEBUG | INFO | WARN | ERROR

definition level_text :: "level \<Rightarrow> string \<times> string" where
  "level_text l =
     (case l of TRACE \<Rightarrow> (''TRACE'', ''35'') | DEBUG \<Rightarrow> (''DEBUG'', ''34'') | INFO \<Rightarrow> ('' INFO'', ''32'')
      | WARN \<Rightarrow> ('' WARN'', ''33'') | ERROR \<Rightarrow> (''ERROR'', ''31''))"

text \<open>The order of \<open>tracing\<close>'s levels is by verbosity.\<close>

primrec verbosity :: "level \<Rightarrow> nat" where
  "verbosity ERROR = 0"
| "verbosity WARN = 1"
| "verbosity INFO = 2"
| "verbosity DEBUG = 3"
| "verbosity TRACE = 4"

lemma verbosity_inject [simp]: "verbosity a = verbosity b \<longleftrightarrow> a = b"
  by (cases a; cases b) simp_all

instantiation level :: linorder
begin

definition less_eq_level :: "level \<Rightarrow> level \<Rightarrow> bool" where
  "less_eq_level a b \<longleftrightarrow> verbosity a \<le> verbosity b"

definition less_level :: "level \<Rightarrow> level \<Rightarrow> bool" where
  "less_level a b \<longleftrightarrow> verbosity a < verbosity b"

instance
  by standard (auto simp: less_eq_level_def less_level_def)

end

text \<open>A filter that is a plain level name lets through the events up to that level; other filter
  directives are the library's.\<close>

definition filter_level :: "string \<Rightarrow> level option" where
  "filter_level f =
     (if f = ''error'' then Some ERROR else if f = ''warn'' then Some WARN else if f = ''info'' then Some INFO
      else if f = ''debug'' then Some DEBUG else if f = ''trace'' then Some TRACE else None)"

fun logged :: "subscriber \<Rightarrow> level \<Rightarrow> bool option" where
  "logged (StdoutSubscriber f) l = map_option ((\<le>) l) (filter_level f)"
| "logged (FileAndStdout _ f) l = map_option ((\<le>) l) (filter_level f)"

definition esc :: string where "esc = [CHR 0x1B]"

definition location :: "string \<Rightarrow> string option \<Rightarrow> nat option \<Rightarrow> string" where
  "location target file line =
     (let file = or_default file target in
      case line of
        Some n \<Rightarrow> target @ '':'' @ file @ '':'' @ show_nat n
      | None \<Rightarrow> target @ '':'' @ file)"

text \<open>\<open>time\<close> and \<open>text_fields\<close> are what the time and the field formatters write.\<close>

definition format_event ::
  "bool \<Rightarrow> string \<Rightarrow> level \<Rightarrow> string \<Rightarrow> string option \<Rightarrow> nat option \<Rightarrow> string \<Rightarrow> string" where
  "format_event ansi time level target file line text_fields =
     (let (lvl, code) = level_text level; loc = location target file line in
      time @ '' ''
      @ (if ansi then esc @ ''['' @ code @ ''m'' @ lvl @ esc @ ''[0m'' else lvl)
      @ (if ansi then '' '' @ esc @ ''[2m<'' @ loc @ ''>'' @ esc @ ''[0m '' else '' <'' @ loc @ ''> '')
      @ text_fields @ [CHR 0x0A])"

section \<open>Properties\<close>

text \<open>The log directory of the configuration has no effect: the subscriber set before the
  configuration is read stays in force, so nothing is ever logged to a file and the configured
  level is never used.\<close>

theorem log_dir_ignored:
  "main_logging env_filter mkdir config_path cfg = Some (StdoutSubscriber (or_default env_filter ''info''))"
  by (simp add: main_logging_def init_logging_def switch_logging_def set_global_default_def Let_def
      split: option.splits)

text \<open>So with no filter in the environment debug events are never logged, whatever level the
  configuration asks for.\<close>

lemma configured_level_unused:
  "map_option (\<lambda>g. logged g DEBUG) (main_logging None mkdir config_path cfg) = Some (Some False)"
  "map_option (\<lambda>g. logged g WARN) (main_logging None mkdir config_path cfg) = Some (Some True)"
  by (simp_all add: main_logging_def init_logging_def switch_logging_def set_global_default_def Let_def
      or_default_def filter_level_def less_eq_level_def split: option.splits)

text \<open>The line without colours, and the width of its level column.\<close>

lemma plain_line:
  "format_event False time level target file line text_fields =
     time @ '' '' @ fst (level_text level) @ '' <'' @ location target file line @ ''> '' @ text_fields @ [CHR 0x0A]"
  by (simp add: format_event_def case_prod_beta Let_def)

lemma level_width: "length (fst (level_text l)) = 5"
  by (cases l) (simp_all add: level_text_def)

end
