(* ===== verification/PoolSystem.thy ===== *)
theory PoolSystem
  imports Pool
begin

text \<open>
  The pool under concurrency. Relay tasks \<open>0..<n\<close> run \<open>acquire\<close>, use the connection and release
  or drop it; connections die; the reaper ticks. An action is one section between awaits of
  \<open>src/src/pool.rs\<close> or of the pooled relay in \<open>src/src/relay.rs\<close>, built from the functions of
  \<open>Pool\<close>. The invariants bound the connections the pool knows of; the last part shows what
  the counter does when a leased connection dies.
\<close>

section \<open>Tasks and actions\<close>

text \<open>A handshake error with the client library's error as its message.\<close>

type_synonym conn_error = "string upstream_error"

datatype acq_pc =
    PcNone
  | PcTry
  | PcCount
  | PcCreate
  | PcEnqueue
  | PcWait
  | PcHold acquired

record pool_sys =
  ps_pool :: broker_pool
  ps_pc :: "nat \<Rightarrow> acq_pc"
  ps_dead :: "conn_id set"

datatype pool_action =
    ActStart nat
  | ActIdle nat nat
  | ActReserve nat nat
  | ActCreate nat "conn_error + unit" nat
  | ActEnqueue nat nat
  | ActNotified nat nat
  | ActTimeout nat
  | ActRegister nat channel i32 i16 i16 instant
  | ActRelease nat instant
  | ActDropLease nat
  | ActConnExit conn_id
  | ActReap instant

fun action_task :: "pool_action \<Rightarrow> nat option" where
  "action_task (ActStart t) = Some t"
| "action_task (ActIdle t _) = Some t"
| "action_task (ActReserve t _) = Some t"
| "action_task (ActCreate t _ _) = Some t"
| "action_task (ActEnqueue t _) = Some t"
| "action_task (ActNotified t _) = Some t"
| "action_task (ActTimeout t) = Some t"
| "action_task (ActRegister t _ _ _ _ _) = Some t"
| "action_task (ActRelease t _) = Some t"
| "action_task (ActDropLease t) = Some t"
| "action_task (ActConnExit _) = None"
| "action_task (ActReap _) = None"

definition goto :: "nat \<Rightarrow> acq_pc \<Rightarrow> broker_pool \<Rightarrow> pool_sys \<Rightarrow> pool_sys" where
  "goto t pc p s = s\<lparr>ps_pool := p, ps_pc := (ps_pc s)(t := pc)\<rparr>"

text \<open>\<open>None\<close>: the action is not enabled. A relay drops its lease without a release when the
  send to the connection's task fails, that is, when the connection is dead.\<close>

fun pool_exec :: "pool_action \<Rightarrow> pool_sys \<Rightarrow> pool_sys option" where
  "pool_exec (ActStart t) s =
     (case ps_pc s t of PcNone \<Rightarrow> Some (goto t PcTry (ps_pool s) s) | _ \<Rightarrow> None)"
| "pool_exec (ActIdle t elapsed) s =
     (case ps_pc s t of
        PcTry \<Rightarrow> (case acquire_idle elapsed (ps_pool s) of
                    (Some a, p) \<Rightarrow> Some (goto t (PcHold a) p s)
                  | (None, p) \<Rightarrow> Some (goto t PcCount p s))
      | _ \<Rightarrow> None)"
| "pool_exec (ActReserve t elapsed) s =
     (case ps_pc s t of
        PcCount \<Rightarrow> (case acquire_reserve elapsed (ps_pool s) of
                      (True, p) \<Rightarrow> Some (goto t PcCreate p s)
                    | (False, p) \<Rightarrow> Some (goto t PcEnqueue p s))
      | _ \<Rightarrow> None)"
| "pool_exec (ActCreate t connect elapsed) s =
     (case ps_pc s t of
        PcCreate \<Rightarrow> (case acquire_create connect elapsed (ps_pool s) of
                       (Inr a, p) \<Rightarrow> Some (goto t (PcHold a) p s)
                     | (Inl e, p) \<Rightarrow> Some (goto t PcNone p s))
      | _ \<Rightarrow> None)"
| "pool_exec (ActEnqueue t elapsed) s =
     (case ps_pc s t of
        PcEnqueue \<Rightarrow> (case acquire_enqueue (ps_pool s) of
                        (True, p) \<Rightarrow> Some (goto t PcTry (acquire_woken elapsed p) s)
                      | (False, p) \<Rightarrow> Some (goto t PcWait p s))
      | _ \<Rightarrow> None)"
| "pool_exec (ActNotified t elapsed) s =
     (case ps_pc s t of
        PcWait \<Rightarrow> (if 0 < n_notified (bp_notify (ps_pool s))
                   then Some (goto t PcTry (acquire_woken elapsed (take_notification (ps_pool s))) s)
                   else None)
      | _ \<Rightarrow> None)"
| "pool_exec (ActTimeout t) s =
     (case ps_pc s t of
        PcWait \<Rightarrow> (if 0 < n_waiting (bp_notify (ps_pool s))
                   then Some (goto t PcNone (acquire_timed_out (ps_pool s)) s) else None)
      | _ \<Rightarrow> None)"
| "pool_exec (ActRegister t tx cid_d k v now) s =
     (case ps_pc s t of
        PcHold a \<Rightarrow> Some (goto t (PcHold a)
                      (snd (register_request tx cid_d k v (acq_conn_id a) now (ps_pool s))) s)
      | _ \<Rightarrow> None)"
| "pool_exec (ActRelease t now) s =
     (case ps_pc s t of
        PcHold a \<Rightarrow> Some (goto t PcNone (release now (acq_conn_id a) (acq_write_tx a) (ps_pool s)) s)
      | _ \<Rightarrow> None)"
| "pool_exec (ActDropLease t) s =
     (case ps_pc s t of
        PcHold a \<Rightarrow> (if acq_conn_id a \<in> ps_dead s then Some (goto t PcNone (ps_pool s) s) else None)
      | _ \<Rightarrow> None)"
| "pool_exec (ActConnExit conn) s =
     (case write_loop_exit True id id conn (ps_pool s) of
        Some p \<Rightarrow> Some (s\<lparr>ps_pool := p, ps_dead := insert conn (ps_dead s)\<rparr>)
      | None \<Rightarrow> None)"
| "pool_exec (ActReap now) s = Some (s\<lparr>ps_pool := reaper_tick now (ps_pool s)\<rparr>)"

inductive pool_step :: "nat \<Rightarrow> pool_sys \<Rightarrow> pool_sys \<Rightarrow> bool" for n :: nat where
  pool_act: "(\<forall>t. action_task a = Some t \<longrightarrow> t < n) \<Longrightarrow> pool_exec a s = Some s' \<Longrightarrow> pool_step n s s'"

inductive_cases pool_stepE: "pool_step n s s'"

definition pool_start :: "pool_limits \<Rightarrow> pool_sys \<Rightarrow> bool" where
  "pool_start limits s \<longleftrightarrow>
     (\<exists>connects done_at remap m.
        ps_pool s = warmup (connects :: nat \<Rightarrow> conn_error + unit) done_at (broker_pool_new limits remap m))
     \<and> (\<forall>t. ps_pc s t = PcNone) \<and> ps_dead s = {}"

fun run_actions :: "pool_action list \<Rightarrow> pool_sys \<Rightarrow> pool_sys option" where
  "run_actions [] s = Some s"
| "run_actions (a # as) s = Option.bind (pool_exec a s) (run_actions as)"

lemma run_actions_reach:
  "run_actions as s = Some s' \<Longrightarrow> \<forall>a \<in> set as. \<forall>t. action_task a = Some t \<longrightarrow> t < n \<Longrightarrow>
     reach init (pool_step n) s \<Longrightarrow> reach init (pool_step n) s'"
proof (induction as arbitrary: s)
  case (Cons a as)
  then obtain s1 where s1: "pool_exec a s = Some s1" "run_actions as s1 = Some s'"
    by (auto simp: bind_eq_Some_conv)
  have "reach init (pool_step n) s1"
    using Cons.prems(2) by (intro reach_step[OF Cons.prems(3)] pool_act[OF _ s1(1)]) simp
  then show ?case using Cons.IH[OF s1(2)] Cons.prems(2) by simp
qed simp

section \<open>What the sections leave alone\<close>

text \<open>The part of a pool the counting argument looks at.\<close>

definition view :: "broker_pool \<Rightarrow> pool_limits \<times> pooled_conn list \<times> nat" where
  "view p = (bp_limits p, bp_idle p, bp_count p)"

lemma view_enqueue [simp, frame_simps]: "view (snd (acquire_enqueue p)) = view p"
  by (simp add: view_def acquire_enqueue_def Let_def)

lemma view_enqueue_eq [frame_simps]: "acquire_enqueue p = (b, p') \<Longrightarrow> view p' = view p"
  using view_enqueue[of p] by simp

lemma view_woken [simp, frame_simps]: "view (acquire_woken e p) = view p"
  "view (acquire_timed_out p) = view p" "view (take_notification p) = view p"
  by (simp_all add: view_def acquire_woken_def acquire_timed_out_def take_notification_def)

lemma view_register [simp, frame_simps]: "view (snd (register_request tx d k v c now p)) = view p"
  by (simp add: view_def register_request_def split: prod.splits)

lemma view_exit [frame_simps]: "write_loop_exit b f g c p = Some p' \<Longrightarrow> view p' = view p"
  by (auto simp: view_def write_loop_exit_def split: option.splits)

lemma view_create_conn [simp, frame_simps]: "view (snd (create_conn connect el p)) = view p"
  by (simp add: view_def create_conn_def Let_def split: sum.splits prod.splits)

section \<open>Counting connections\<close>

definition busy :: "acq_pc \<Rightarrow> bool" where
  "busy pc = (case pc of PcCreate \<Rightarrow> True | PcHold _ \<Rightarrow> True | _ \<Rightarrow> False)"

lemma busy_simps [simp]: "busy PcCreate" "busy (PcHold a)" "\<not> busy PcNone" "\<not> busy PcTry"
  "\<not> busy PcCount" "\<not> busy PcEnqueue" "\<not> busy PcWait"
  by (simp_all add: busy_def)

definition busy_tasks :: "nat \<Rightarrow> (nat \<Rightarrow> acq_pc) \<Rightarrow> nat" where
  "busy_tasks n pcs = card {t. t < n \<and> busy (pcs t)}"

text \<open>The connections the pool still has to account for: idle, held, or being made.\<close>

definition tracked :: "nat \<Rightarrow> pool_sys \<Rightarrow> nat" where
  "tracked n s = length (bp_idle (ps_pool s)) + busy_tasks n (ps_pc s)"

lemma busy_tasks_upd:
  assumes "t < n"
  shows "busy_tasks n (pcs(t := pc)) + (if busy (pcs t) then 1 else 0) =
    busy_tasks n pcs + (if busy pc then 1 else 0)"
proof -
  let ?B = "{u. u < n \<and> busy (pcs u)}"
  have fin: "finite (?B - {t})" by simp
  have rem: "card (?B - {t}) + (if busy (pcs t) then 1 else 0) = card ?B"
    using assms card_Suc_Diff1[of ?B t] by (cases "busy (pcs t)") (auto simp: Diff_triv)
  have "{u. u < n \<and> busy ((pcs(t := pc)) u)} = (if busy pc then insert t (?B - {t}) else ?B - {t})"
    using assms by auto
  then have "busy_tasks n (pcs(t := pc)) = card (?B - {t}) + (if busy pc then 1 else 0)"
    
    using fin by (simp add: busy_tasks_def del: insert_Diff_single)
  then show ?thesis using rem by (simp add: busy_tasks_def)
qed

lemma busy_tasks_idle: "(\<forall>t. pcs t = PcNone) \<Longrightarrow> busy_tasks n pcs = 0"
  by (simp add: busy_tasks_def)

lemma tracked_goto:
  assumes "t < n"
  shows "tracked n (goto t pc p s) + (if busy (ps_pc s t) then 1 else 0) + length (bp_idle (ps_pool s)) =
    tracked n s + (if busy pc then 1 else 0) + length (bp_idle p)"
  using busy_tasks_upd[OF assms, of "ps_pc s" pc] by (simp add: tracked_def goto_def)

text \<open>The invariant on the view: the limits do not change, nothing idle is marked dead, and the
  tracked connections exceed neither the counter nor the maximum by more than the warm ones.\<close>

definition pool_inv :: "pool_limits \<Rightarrow> nat \<Rightarrow> pool_sys \<Rightarrow> bool" where
  "pool_inv limits n s \<longleftrightarrow>
     bp_limits (ps_pool s) = limits \<and> all_alive (ps_pool s)
     \<and> tracked n s \<le> bp_count (ps_pool s) + min_idle limits
     \<and> tracked n s \<le> max_per_broker limits + min_idle limits
     \<and> (min_idle limits = 0 \<longrightarrow> bp_count (ps_pool s) \<le> max_per_broker limits)"

lemma pool_inv_same_view:
  assumes "pool_inv limits n s" and "view p = view (ps_pool s)" and "t < n"
    and "busy pc \<longrightarrow> busy (ps_pc s t)"
  shows "pool_inv limits n (goto t pc p s)"
proof -
  have p: "bp_limits p = bp_limits (ps_pool s)" "bp_idle p = bp_idle (ps_pool s)" "bp_count p = bp_count (ps_pool s)"
    using assms(2) by (simp_all add: view_def)
  have "tracked n (goto t pc p s) \<le> tracked n s"
    using tracked_goto[OF assms(3), of pc p s] assms(4) by (simp add: p split: if_splits)
  then show ?thesis using assms(1) p by (simp add: pool_inv_def goto_def all_alive_def)
qed

lemma pool_inv_idle:
  assumes "pool_inv limits n s" and "t < n" and "\<not> busy (ps_pc s t)"
  shows "pool_inv limits n (case acquire_idle el (ps_pool s) of
      (Some a, p) \<Rightarrow> goto t (PcHold a) p s | (None, p) \<Rightarrow> goto t PcCount p s)"
proof (cases "bp_idle (ps_pool s)")
  case Nil
  then show ?thesis
    using pool_inv_same_view[OF assms(1) refl assms(2), of PcCount] by (simp add: acquire_idle_def)
next
  case (Cons c rest)
  then have alive: "pc_alive c" using assms(1) by (simp add: pool_inv_def all_alive_def)
  let ?p = "snd (acquire_idle el (ps_pool s))"
  let ?a = "\<lparr>acq_write_tx = pc_write_tx c, acq_conn_id = pc_conn_id c\<rparr>"
  have r: "acquire_idle el (ps_pool s) = (Some ?a, ?p)" and p: "bp_idle ?p = rest"
      "bp_count ?p = bp_count (ps_pool s)" "bp_limits ?p = bp_limits (ps_pool s)"
    using Cons alive by (simp_all add: acquire_idle_def Let_def)
  have "tracked n (goto t (PcHold ?a) ?p s) = tracked n s"
    using tracked_goto[OF assms(2), of "PcHold ?a" ?p s] assms(3) Cons by (simp add: p)
  then show ?thesis using assms(1) Cons p
    by (subst r) (simp add: pool_inv_def goto_def all_alive_def)
qed

lemma pool_inv_reserve:
  assumes "pool_inv limits n s" and "t < n" and "\<not> busy (ps_pc s t)"
  shows "pool_inv limits n (case acquire_reserve el (ps_pool s) of
      (True, p) \<Rightarrow> goto t PcCreate p s | (False, p) \<Rightarrow> goto t PcEnqueue p s)"
proof (cases "bp_count (ps_pool s) < max_per_broker (bp_limits (ps_pool s))")
  case False
  then show ?thesis
    using pool_inv_same_view[OF assms(1) refl assms(2), of PcEnqueue] by (simp add: acquire_reserve_def)
next
  case True
  let ?p = "snd (acquire_reserve el (ps_pool s))"
  have r: "acquire_reserve el (ps_pool s) = (True, ?p)" and p: "bp_idle ?p = bp_idle (ps_pool s)"
      "bp_count ?p = Suc (bp_count (ps_pool s))" "bp_limits ?p = bp_limits (ps_pool s)"
    using True by (simp_all add: acquire_reserve_def)
  have "tracked n (goto t PcCreate ?p s) = Suc (tracked n s)"
    using tracked_goto[OF assms(2), of PcCreate ?p s] assms(3) by (simp add: p)
  then show ?thesis using assms(1) p True
    by (subst r) (simp add: pool_inv_def goto_def all_alive_def)
qed

lemma pool_inv_create:
  assumes "pool_inv limits n s" and "t < n" and "ps_pc s t = PcCreate"
  shows "pool_inv limits n (case acquire_create connect el (ps_pool s) of
      (Inr a, p) \<Rightarrow> goto t (PcHold a) p s | (Inl e, p) \<Rightarrow> goto t PcNone p s)"
proof (cases connect)
  case (Inr u)
  obtain a p where r: "acquire_create connect el (ps_pool s) = (Inr a, p)"
    using Inr by (simp add: acquire_create_def create_conn_def alloc_conn_id_def Let_def)
  have "view p = view (ps_pool s)"
    using r Inr by (auto simp: acquire_create_def create_conn_def alloc_conn_id_def Let_def view_def)
  then show ?thesis using pool_inv_same_view[OF assms(1) _ assms(2), of p "PcHold a"] assms(3) r by simp
next
  case (Inl e)
  let ?p = "snd (acquire_create connect el (ps_pool s))"
  have r: "acquire_create connect el (ps_pool s) = (Inl (PoolUpstream e), ?p)"
    and p: "bp_idle ?p = bp_idle (ps_pool s)" "bp_count ?p = dec_usize (bp_count (ps_pool s))"
      "bp_limits ?p = bp_limits (ps_pool s)"
    using Inl by (simp_all add: acquire_create_def create_conn_def)
  have "Suc (tracked n (goto t PcNone ?p s)) = tracked n s"
    using tracked_goto[OF assms(2), of PcNone ?p s] assms(3) by (simp add: p)
  then show ?thesis using assms(1) p
    by (subst r) (auto simp: pool_inv_def goto_def all_alive_def dec_usize_def)
qed

lemma pool_inv_release:
  assumes "pool_inv limits n s" and "t < n" and "busy (ps_pc s t)"
  shows "pool_inv limits n (goto t PcNone (release now conn tx (ps_pool s)) s)"
proof -
  let ?p = "release now conn tx (ps_pool s)"
  have p: "length (bp_idle ?p) \<le> Suc (length (bp_idle (ps_pool s)))" "bp_count ?p = bp_count (ps_pool s)"
      "bp_limits ?p = bp_limits (ps_pool s)" and al: "all_alive (ps_pool s) \<Longrightarrow> all_alive ?p"
    by (auto simp: release_def Let_def all_alive_def)
  have "tracked n (goto t PcNone ?p s) \<le> tracked n s"
    using tracked_goto[OF assms(2), of PcNone ?p s] assms(3) p(1) by simp
  then show ?thesis using assms(1) p(2,3) al by (simp add: pool_inv_def goto_def all_alive_def)
qed

lemma reaper_view:
  "bp_limits (reaper_tick now p) = bp_limits p"
  "bp_idle (reaper_tick now p) = filter (keep_conn now (idle_timeout (bp_limits p))) (bp_idle p)"
  "bp_count (reaper_tick now p) = bp_count p - (length (bp_idle p) - length (bp_idle (reaper_tick now p)))"
proof -
  let ?F = "filter (keep_conn now (idle_timeout (bp_limits p))) (bp_idle p)"
  have "length ?F \<le> length (bp_idle p)" by (rule length_filter_le)
  then consider "length ?F < length (bp_idle p)" | "length ?F = length (bp_idle p)" by linarith
  then show "bp_count (reaper_tick now p) = bp_count p - (length (bp_idle p) - length (bp_idle (reaper_tick now p)))"
    by cases (simp_all add: reaper_tick_def Let_def)
qed (simp_all add: reaper_tick_def Let_def)

lemma pool_inv_reap:
  assumes "pool_inv limits n s"
  shows "pool_inv limits n (s\<lparr>ps_pool := reaper_tick now (ps_pool s)\<rparr>)"
proof -
  let ?p = "reaper_tick now (ps_pool s)"
  have le: "length (bp_idle ?p) \<le> length (bp_idle (ps_pool s))" by (simp add: reaper_view(2))
  have "bp_count ?p = bp_count (ps_pool s) - (length (bp_idle (ps_pool s)) - length (bp_idle ?p))"
    by (rule reaper_view(3))
  moreover have "all_alive ?p" using assms by (simp add: pool_inv_def all_alive_def reaper_view(2))
  ultimately show ?thesis using assms le reaper_view(1)[of now "ps_pool s"]
    by (auto simp: pool_inv_def tracked_def)
qed

section \<open>The invariant\<close>

lemma pool_inv_exec:
  assumes "pool_inv limits n s" and "pool_exec a s = Some s'" and "\<forall>t. action_task a = Some t \<longrightarrow> t < n"
  shows "pool_inv limits n s'"
proof (cases a)
  case (ActStart t)
  then show ?thesis using assms pool_inv_same_view[OF assms(1) refl, of t PcTry]
    by (auto split: acq_pc.splits)
next
  case (ActIdle t el)
  then show ?thesis using assms pool_inv_idle[OF assms(1), of t el]
    by (auto split: acq_pc.splits option.splits prod.splits)
next
  case (ActReserve t el)
  then show ?thesis using assms pool_inv_reserve[OF assms(1), of t el]
    by (auto split: acq_pc.splits bool.splits prod.splits)
next
  case (ActCreate t connect el)
  then show ?thesis using assms pool_inv_create[OF assms(1), of t connect el]
    by (auto split: acq_pc.splits sum.splits prod.splits)
next
  case (ActEnqueue t el)
  then show ?thesis using assms
      pool_inv_same_view[OF assms(1), of _ t PcTry] pool_inv_same_view[OF assms(1), of _ t PcWait]
    by (auto dest: view_enqueue_eq split: acq_pc.splits bool.splits prod.splits)
next
  case (ActNotified t el)
  then show ?thesis using assms pool_inv_same_view[OF assms(1), of _ t PcTry]
    by (auto split: acq_pc.splits if_splits)
next
  case (ActTimeout t)
  then show ?thesis using assms pool_inv_same_view[OF assms(1), of _ t PcNone]
    by (auto split: acq_pc.splits if_splits)
next
  case (ActRegister t tx d k v now)
  then show ?thesis using assms pool_inv_same_view[OF assms(1) view_register, of t]
    by (auto split: acq_pc.splits)
next
  case (ActRelease t now)
  then show ?thesis using assms pool_inv_release[OF assms(1), of t now] by (auto split: acq_pc.splits)
next
  case (ActDropLease t)
  then show ?thesis using assms pool_inv_same_view[OF assms(1) refl, of t PcNone]
    by (auto split: acq_pc.splits if_splits)
next
  case (ActConnExit conn)
  then obtain p where p: "write_loop_exit True id id conn (ps_pool s) = Some p"
    "s' = s\<lparr>ps_pool := p, ps_dead := insert conn (ps_dead s)\<rparr>"
    using assms(2) by (auto split: option.splits)
  then show ?thesis using assms(1) view_exit[OF p(1)]
    by (simp add: pool_inv_def view_def all_alive_def tracked_def)
next
  case (ActReap now)
  then show ?thesis using assms pool_inv_reap[OF assms(1), of now] by auto
qed

lemma warmup_loop_view:
  "bp_limits (warmup_loop connects done_at js p) = bp_limits p
   \<and> bp_count (warmup_loop connects done_at js p) = bp_count p
   \<and> length (bp_idle (warmup_loop connects done_at js p)) \<le> length (bp_idle p) + length js
   \<and> (all_alive p \<longrightarrow> all_alive (warmup_loop connects done_at js p))"
proof (induction js arbitrary: p)
  case (Cons i js)
  show ?case
  proof (cases "connects i")
    case (Inl e)
    then show ?thesis by (simp add: create_conn_def)
  next
    case (Inr u)
    let ?c = "\<lparr>pc_write_tx = bp_next_tx p, pc_alive = True, pc_last_used = snd (done_at i),
      pc_conn_id = next_conn_id (bp_remap p)\<rparr>"
    obtain q where q: "warmup_loop connects done_at (i # js) p = warmup_loop connects done_at js q"
      "bp_limits q = bp_limits p" "bp_count q = bp_count p" "bp_idle q = bp_idle p @ [?c]"
      using Inr by (simp add: create_conn_def alloc_conn_id_def Let_def)
    then show ?thesis using Cons.IH[of q] by (auto simp: all_alive_def)
  qed
qed simp

lemma warmup_view:
  "bp_limits (warmup connects done_at p) = bp_limits p"
  "bp_count (warmup connects done_at p) = bp_count p"
  "length (bp_idle (warmup connects done_at p)) \<le> length (bp_idle p) + min_idle (bp_limits p)"
  "all_alive p \<Longrightarrow> all_alive (warmup connects done_at p)"
  using warmup_loop_view[of connects done_at "[0..<min_idle (bp_limits p)]" p]
  by (simp_all add: warmup_def Let_def)

lemma pool_inv_start: "pool_start limits s \<Longrightarrow> pool_inv limits n s"
proof -
  assume "pool_start limits s"
  then obtain connects done_at r m where
    p: "ps_pool s = warmup (connects :: nat \<Rightarrow> conn_error + unit) done_at (broker_pool_new limits r m)"
    and pc: "\<forall>t. ps_pc s t = PcNone" by (auto simp: pool_start_def)
  have "all_alive (broker_pool_new limits r m)" by (simp add: all_alive_def broker_pool_new_def)
  then show ?thesis
    using warmup_view[where connects = connects and done_at = done_at and p = "broker_pool_new limits r m"]
      busy_tasks_idle[OF pc, of n]
    by (simp add: pool_inv_def tracked_def p) (simp add: broker_pool_new_def)
qed

interpretation pool: invariant_system "pool_start limits" "pool_step n" "pool_inv limits n"
  by unfold_locales (auto intro: pool_inv_start pool_inv_exec elim!: pool_stepE)

section \<open>Stuck pools\<close>

text \<open>Nothing is idle, the counter is at the maximum, and no task holds or makes a connection.\<close>

definition stuck :: "pool_limits \<Rightarrow> nat \<Rightarrow> pool_sys \<Rightarrow> bool" where
  "stuck limits n s \<longleftrightarrow>
     bp_limits (ps_pool s) = limits \<and> bp_idle (ps_pool s) = [] \<and> max_per_broker limits \<le> bp_count (ps_pool s)
     \<and> (\<forall>t < n. \<not> busy (ps_pc s t))"

lemma stuck_goto:
  "stuck limits n s \<Longrightarrow> view p = view (ps_pool s) \<Longrightarrow> \<not> busy pc \<Longrightarrow> stuck limits n (goto t pc p s)"
  by (simp add: stuck_def goto_def view_def)

lemma stuck_exec:
  assumes st: "stuck limits n s" and ex: "pool_exec a s = Some s'" and t: "\<forall>t. action_task a = Some t \<longrightarrow> t < n"
  shows "stuck limits n s'"
proof -
  have nb: "\<And>t. t < n \<Longrightarrow> \<not> busy (ps_pc s t)" using st by (simp add: stuck_def)
  have idle: "\<And>el. acquire_idle el (ps_pool s) = (None, ps_pool s)" using st by (simp add: stuck_def acquire_idle_def)
  have res: "\<And>el. acquire_reserve el (ps_pool s) = (False, ps_pool s)"
    using st by (simp add: stuck_def acquire_reserve_def)
  note go = stuck_goto[OF st]
  show ?thesis
  proof (cases a)
    case (ActEnqueue t el)
    then show ?thesis using ex
      by (auto split: acq_pc.splits bool.splits prod.splits intro!: go dest: view_enqueue_eq)
  next
    case (ActConnExit conn)
    then obtain p where p: "write_loop_exit True id id conn (ps_pool s) = Some p"
      "s' = s\<lparr>ps_pool := p, ps_dead := insert conn (ps_dead s)\<rparr>"
      using ex by (auto split: option.splits)
    then show ?thesis using st view_exit[OF p(1)] by (simp add: stuck_def view_def)
  next
    case (ActReap now)
    then show ?thesis using ex st reaper_view[of now "ps_pool s"] by (auto simp: stuck_def)
  qed (use ex t nb idle res in \<open>auto split: acq_pc.splits if_splits intro!: go dest: nb\<close>)
qed

interpretation stuck_pool: invariant_system "stuck limits n" "pool_step n" "stuck limits n"
  by unfold_locales (auto intro: stuck_exec elim!: pool_stepE)

section \<open>Runs\<close>

definition demo_limits :: "nat \<Rightarrow> nat \<Rightarrow> pool_limits" where
  "demo_limits mx warm = \<lparr>max_per_broker = mx, min_idle = warm, idle_timeout = 10, acquire_timeout = 5,
     pl_max_in_flight = 8\<rparr>"

definition demo_sys :: "nat \<Rightarrow> nat \<Rightarrow> pool_sys" where
  "demo_sys mx warm =
     \<lparr>ps_pool = warmup (\<lambda>_. Inr () :: conn_error + unit) (\<lambda>_. (1, 0))
        (broker_pool_new (demo_limits mx warm) (with_max_in_flight 8) (metrics_new False)),
      ps_pc = (\<lambda>_. PcNone), ps_dead = {}\<rparr>"

lemma demo_start: "reach (pool_start (demo_limits mx warm)) (pool_step n) (demo_sys mx warm)"
  by (rule reach_init) (auto simp: pool_start_def demo_sys_def)

lemmas pool_eval = demo_sys_def demo_limits_def warmup_def broker_pool_new_def with_max_in_flight_def
  create_conn_def alloc_conn_id_def acquire_idle_def acquire_reserve_def acquire_create_def
  release_def notify_one_def goto_def reaper_tick_def keep_conn_def dec_usize_def
  write_loop_exit_def fail_conn_def dm_new_def dm_len_def dm_retain_def Let_def

text \<open>With one warm connection and a maximum of one: one task takes the warm connection, a second
  one makes another.\<close>

definition run_overshoot :: "pool_action list" where
  "run_overshoot = [ActStart 0, ActIdle 0 0, ActStart 1, ActIdle 1 0, ActReserve 1 0, ActCreate 1 (Inr ()) 1]"

lemma run_overshoot_ok:
  "\<exists>s a b. run_actions run_overshoot (demo_sys 1 1) = Some s \<and> ps_pc s 0 = PcHold a \<and> ps_pc s 1 = PcHold b
     \<and> bp_idle (ps_pool s) = []"
  by (simp add: run_overshoot_def pool_eval)

text \<open>The first task returns the warm connection while the second is still in its handshake; the
  reaper takes it, and the handshake fails.\<close>

definition run_underflow :: "pool_action list" where
  "run_underflow = [ActStart 0, ActIdle 0 0, ActStart 1, ActIdle 1 0, ActReserve 1 0, ActRelease 0 0,
     ActReap 10, ActCreate 1 (Inl (Missing ''broker'')) 1]"

lemma run_underflow_ok:
  "\<exists>s. run_actions run_underflow (demo_sys 1 1) = Some s \<and> bp_count (ps_pool s) = 2 ^ 64 - 1"
  by (simp add: run_underflow_def pool_eval)

text \<open>Without warm-up: a connection is made, dies while leased, and the lease is dropped.\<close>

definition run_leak :: "pool_action list" where
  "run_leak = [ActStart 0, ActIdle 0 0, ActReserve 0 0, ActCreate 0 (Inr ()) 1, ActConnExit 1, ActDropLease 0]"

lemma run_leak_ok:
  "\<exists>s. run_actions run_leak (demo_sys 1 0) = Some s \<and> stuck (demo_limits 1 0) 1 s"
  by (simp add: run_leak_def pool_eval stuck_def)

lemma run_reach:
  "run_actions as (demo_sys mx warm) = Some s \<Longrightarrow> \<forall>a \<in> set as. \<forall>t. action_task a = Some t \<longrightarrow> t < n \<Longrightarrow>
     reach (pool_start (demo_limits mx warm)) (pool_step n) s"
  using run_actions_reach demo_start by blast

section \<open>Properties\<close>

text \<open>C15: The connections a pool has idle, leased or in the making never exceed the configured
  maximum plus the warm ones, under every interleaving of tasks, connection deaths and reaping;
  without warm-up they never exceed the counter, which never exceeds the maximum.\<close>

theorem pool_connections_bounded:
  assumes "reach (pool_start limits) (pool_step n) s"
  shows "tracked n s \<le> max_per_broker limits + min_idle limits
    \<and> (min_idle limits = 0 \<longrightarrow> tracked n s \<le> bp_count (ps_pool s) \<and> bp_count (ps_pool s) \<le> max_per_broker limits)"
  using pool.reach_inv[OF assms] by (auto simp: pool_inv_def)

text \<open>The witness reaches two connections with a maximum of one.\<close>

theorem pool_connections_bounded_witness:
  "\<exists>s. reach (pool_start (demo_limits 1 1)) (pool_step 2) s \<and> tracked 2 s = 2 \<and> tracked 2 s \<le> 1 + 1"
proof -
  obtain s a b where s: "run_actions run_overshoot (demo_sys 1 1) = Some s" "ps_pc s 0 = PcHold a"
    "ps_pc s 1 = PcHold b" "bp_idle (ps_pool s) = []"
    using run_overshoot_ok by blast
  have r: "reach (pool_start (demo_limits 1 1)) (pool_step 2) s"
    by (rule run_reach[OF s(1)]) (simp add: run_overshoot_def)
  have "{t. t < 2 \<and> busy (ps_pc s t)} = {0, 1}" using s(2,3) by (auto simp: less_2_cases_iff)
  then have "tracked 2 s = 2" using s(4) by (simp add: tracked_def busy_tasks_def)
  then show ?thesis using pool_connections_bounded[OF r] r by (auto simp: demo_limits_def)
qed

text \<open>Without warm-up the roll-back of a failed handshake never underflows the connection
  counter: while a task is in the handshake, the counter is positive.\<close>

theorem rollback_safe:
  assumes "reach (pool_start limits) (pool_step n) s" and "min_idle limits = 0"
    and "t < n" and "ps_pc s t = PcCreate"
  shows "0 < bp_count (ps_pool s)"
proof -
  have "t \<in> {u. u < n \<and> busy (ps_pc s u)}" using assms(3,4) by simp
  then have "0 < busy_tasks n (ps_pc s)" unfolding busy_tasks_def by (subst card_gt_0_iff) auto
  then show ?thesis using pool.reach_inv[OF assms(1)] assms(2) by (simp add: pool_inv_def tracked_def)
qed

theorem rollback_safe_witness:
  "\<exists>s. run_actions [ActStart 0, ActIdle 0 0, ActReserve 0 0] (demo_sys 1 0) = Some s \<and> 0 < bp_count (ps_pool s)"
proof -
  obtain s where s: "run_actions [ActStart 0, ActIdle 0 0, ActReserve 0 0] (demo_sys 1 0) = Some s"
    "ps_pc s 0 = PcCreate"
    by (simp add: pool_eval)
  have "reach (pool_start (demo_limits 1 0)) (pool_step 1) s" by (rule run_reach[OF s(1)]) simp
  then show ?thesis using rollback_safe[of "demo_limits 1 0" 1 s 0] s by (simp add: demo_limits_def)
qed

text \<open>C34: With a warm connection it does underflow: two tasks and the reaper reach a state whose
  counter is \<open>2^64 - 1\<close>, after which no connection is ever made again.\<close>

theorem rollback_underflow_reachable:
  "\<exists>s. reach (pool_start (demo_limits 1 1)) (pool_step 2) s \<and> bp_count (ps_pool s) = 2 ^ 64 - 1"
proof -
  obtain s where s: "run_actions run_underflow (demo_sys 1 1) = Some s" "bp_count (ps_pool s) = 2 ^ 64 - 1"
    using run_underflow_ok by blast
  have "reach (pool_start (demo_limits 1 1)) (pool_step 2) s"
    by (rule run_reach[OF s(1)]) (simp add: run_underflow_def)
  then show ?thesis using s(2) by blast
qed

text \<open>C17: A pool whose counter is at the maximum while nothing is idle, leased or in the making
  stays so for ever: no task ever gets a connection again. The witness reaches such a state in
  six actions, because a connection that dies while leased keeps its slot.\<close>

theorem stuck_pool_forever:
  assumes "stuck limits n s" and "(pool_step n)\<^sup>*\<^sup>* s s'" and "t < n"
  shows "\<nexists>a. ps_pc s' t = PcHold a"
proof
  assume "\<exists>a. ps_pc s' t = PcHold a"
  then show False using stuck_pool.rtrancl_inv[OF assms(2,1)] assms(3) by (auto simp: stuck_def)
qed

theorem stuck_pool_forever_witness:
  "\<exists>s. reach (pool_start (demo_limits 1 0)) (pool_step 1) s
     \<and> (\<nexists>s' a. (pool_step 1)\<^sup>*\<^sup>* s s' \<and> ps_pc s' 0 = PcHold a)"
proof -
  obtain s where s: "run_actions run_leak (demo_sys 1 0) = Some s" "stuck (demo_limits 1 0) 1 s"
    using run_leak_ok by blast
  have "reach (pool_start (demo_limits 1 0)) (pool_step 1) s"
    by (rule run_reach[OF s(1)]) (simp add: run_leak_def)
  then show ?thesis using stuck_pool_forever[OF s(2), of _ 0] by auto
qed

end
