(* ===== verification/Server.thy ===== *)
theory Server
  imports Entry PoolSystem
begin

text \<open>
  The program as a whole, \<open>run\<close> in \<open>src/src/lib.rs\<close> and \<open>main\<close> in \<open>src/src/main.rs\<close>: the start-up
  sequence from the configuration to one accept loop per listener, and the life of the loops until
  the shutdown. What the network, the client library and the already spawned tasks do is the
  record \<open>start_world\<close>.
\<close>

section \<open>Start-up\<close>

text \<open>\<open>w_bind bound a\<close> is the outcome of binding \<open>a\<close> when the addresses \<open>bound\<close> are bound already;
  \<open>w_connect i j\<close> and \<open>w_done_at i j\<close> are the outcome, the duration and the end of the \<open>j\<close>-th
  warm-up handshake of the \<open>i\<close>-th listener's pool; \<open>w_meanwhile i\<close> is what the tasks spawned so far
  do to the shared table and metrics before the \<open>i\<close>-th listener is set up.\<close>

record ('kc, 'sc, 'b, 'cb, 'addr, 'ke, 'client, 'ip) start_world =
  w_api :: "('kc, 'sc, 'b, 'cb, 'addr) kafka_client_api"
  w_with_broker_hostname :: "string \<Rightarrow> 'cb \<Rightarrow> 'cb"
  w_builder :: "string list \<Rightarrow> 'cb"
  w_build :: "'cb \<Rightarrow> 'ke + 'client"
  w_metadata :: "'client \<Rightarrow> metadata_broker list"
  w_lookup :: "string \<Rightarrow> string + 'ip socket_addr list"
  w_bind :: "string list \<Rightarrow> string \<Rightarrow> string + unit"
  w_connect :: "nat \<Rightarrow> nat \<Rightarrow> 'ke upstream_error + unit"
  w_done_at :: "nat \<Rightarrow> nat \<Rightarrow> nat \<times> instant"
  w_meanwhile :: "nat \<Rightarrow> cid_remap \<times> metrics \<Rightarrow> cid_remap \<times> metrics"

record 'ip accept_loop =
  al_node_id :: i32
  al_bind :: string
  al_target :: "'ip broker_target"
  al_pool :: "broker_pool option"

text \<open>One listener: bind, then in pooled mode make its pool and warm it up.\<close>

definition spawn_loop ::
  "('kc, 'sc, 'b, 'cb, 'addr, 'ke, 'client, 'ip) start_world \<Rightarrow> proxy_config \<Rightarrow> nat \<Rightarrow> string
     \<Rightarrow> 'ip mapped_listener \<Rightarrow> cid_remap \<times> metrics \<Rightarrow> 'ip accept_loop \<times> cid_remap \<times> metrics" where
  "spawn_loop W cfg i bind ml shared =
     (case forwarding_mode (cfg_pool cfg) of
        PerConnection \<Rightarrow>
          (\<lparr>al_node_id = ml_node_id ml, al_bind = bind, al_target = ml_target ml, al_pool = None\<rparr>, shared)
      | Pooled \<Rightarrow>
          (let pool = warmup (w_connect W i) (w_done_at W i)
             (broker_pool_new (to_pool_limits (cfg_pool cfg)) (fst shared) (snd shared))
           in (\<lparr>al_node_id = ml_node_id ml, al_bind = bind, al_target = ml_target ml, al_pool = Some pool\<rparr>,
               bp_remap pool, bp_metrics pool)))"

fun start_listeners ::
  "('kc, 'sc, 'b, 'cb, 'addr, 'ke, 'client, 'ip) start_world \<Rightarrow> proxy_config \<Rightarrow> nat \<Rightarrow> string list
     \<Rightarrow> 'ip mapped_listener list \<Rightarrow> cid_remap \<times> metrics
     \<Rightarrow> ('e, 'ke) proxy_error + 'ip accept_loop list \<times> cid_remap \<times> metrics" where
  "start_listeners W cfg i bound [] shared = Inr ([], shared)"
| "start_listeners W cfg i bound (ml # mls) shared =
     (let bind = listener_bind (listen_bind (cfg_proxy cfg)) ml in
      bindE (map_err IoError (w_bind W bound bind)) (\<lambda>_.
      (let (loop, shared) = spawn_loop W cfg i bind ml (w_meanwhile W i shared) in
       bindE (start_listeners W cfg (Suc i) (bind # bound) mls shared) (\<lambda>(loops, shared).
       Inr (loop # loops, shared)))))"

record 'ip started =
  sd_rewrite_map :: rewrite_map
  sd_loops :: "'ip accept_loop list"
  sd_shared :: "cid_remap \<times> metrics"
  sd_max_rss :: "u64 option"

text \<open>\<open>run\<close> up to the point where it waits for its accept loops. The web server is spawned on the
  way; if it cannot bind, that is only logged.\<close>

definition run_start ::
  "('kc, 'sc, 'b, 'cb, 'addr, 'ke, 'client, 'ip) start_world \<Rightarrow> proxy_config
     \<Rightarrow> ('e, 'ke) proxy_error + 'ip started" where
  "run_start W cfg =
     bindE (map_err AuthError (from_config (w_api W) (cfg_upstream cfg))) (\<lambda>auth.
     (let servers = bootstrap_servers (cfg_cluster cfg);
          builder = bootstrap_builder (w_api W) (w_with_broker_hostname W) auth servers (w_builder W servers)
      in bindE (bootstrap_targets (w_lookup W) (w_build W) builder (w_metadata W) servers) (\<lambda>(targets, client).
         bindE (build_rewrite_map (w_lookup W) cfg targets) (\<lambda>(rm, listeners).
         bindE (start_listeners W cfg 0 [] listeners
             (with_max_in_flight (max_in_flight (cfg_pool cfg)), metrics_new (metrics_enabled (cfg_api cfg))))
           (\<lambda>(loops, shared).
         Inr \<lparr>sd_rewrite_map = rm, sd_loops = loops, sd_shared = shared,
              sd_max_rss = max_rss_option (cfg_pool cfg)\<rparr>)))))"

datatype ('t, 'e, 'ke) main_error = MainConfig "('t + fill_error) config_error" | MainRun "('e, 'ke) proxy_error"

definition main_start ::
  "bool \<Rightarrow> (string \<Rightarrow> 't + raw_config) \<Rightarrow> (string \<Rightarrow> string + string) \<Rightarrow> string
     \<Rightarrow> ('kc, 'sc, 'b, 'cb, 'addr, 'ke, 'client, 'ip) start_world
     \<Rightarrow> ('t, 'e, 'ke) main_error + proxy_config \<times> 'ip started" where
  "main_start checks toml read_file path W =
     bindE (map_err MainConfig (config_load checks toml read_file path)) (\<lambda>cfg.
     bindE (map_err MainRun (run_start W cfg)) (\<lambda>st. Inr (cfg, st)))"

section \<open>Shutdown\<close>

text \<open>The running server: the accept loops of \<open>n\<close> listeners over the shared admission state, the
  cancellation token, and whether \<open>run\<close> has returned. A loop ends only when it sees the token;
  a failed \<open>accept\<close> is logged and the loop goes on. The relay tasks are detached: \<open>run\<close> joins the
  loops only.\<close>

record server_state =
  sv_acc :: accept_state
  sv_running :: "nat set"
  sv_cancelled :: bool
  sv_returned :: bool

inductive server_step :: "u64 option \<Rightarrow> nat \<Rightarrow> nat \<Rightarrow> server_state \<Rightarrow> server_state \<Rightarrow> bool"
  for max_rss :: "u64 option" and limit :: nat and listeners :: nat where
  srv_check: "i \<in> sv_running s \<Longrightarrow> i \<notin> acc_pending (sv_acc s) \<Longrightarrow>
     admit_check max_rss rss limit (fst (acc_shared (sv_acc s))) = Admitted \<Longrightarrow>
     server_step max_rss limit listeners s
       (s\<lparr>sv_acc := (sv_acc s)\<lparr>acc_pending := insert i (acc_pending (sv_acc s))\<rparr>\<rparr>)"
| srv_commit: "i \<in> acc_pending (sv_acc s) \<Longrightarrow> Suc (length (acc_live (sv_acc s))) < 2 ^ 63 \<Longrightarrow>
     server_step max_rss limit listeners s
       (s\<lparr>sv_acc := (sv_acc s)\<lparr>acc_shared := admit_commit node now peer (acc_shared (sv_acc s)),
           acc_pending := acc_pending (sv_acc s) - {i}, acc_live := peer # acc_live (sv_acc s)\<rparr>\<rparr>)"
| srv_end: "peer \<in> set (acc_live (sv_acc s)) \<Longrightarrow>
     server_step max_rss limit listeners s
       (s\<lparr>sv_acc := (sv_acc s)\<lparr>acc_shared := connection_end peer (acc_shared (sv_acc s)),
           acc_live := remove1 peer (acc_live (sv_acc s))\<rparr>\<rparr>)"
| srv_accept_failed: "i \<in> sv_running s \<Longrightarrow> i \<notin> acc_pending (sv_acc s) \<Longrightarrow>
     server_step max_rss limit listeners s s"
| srv_cancel: "server_step max_rss limit listeners s (s\<lparr>sv_cancelled := True\<rparr>)"
| srv_stop: "sv_cancelled s \<Longrightarrow> i \<in> sv_running s \<Longrightarrow> i \<notin> acc_pending (sv_acc s) \<Longrightarrow>
     server_step max_rss limit listeners s (s\<lparr>sv_running := sv_running s - {i}\<rparr>)"
| srv_return: "sv_running s = {} \<Longrightarrow>
     server_step max_rss limit listeners s (s\<lparr>sv_returned := True\<rparr>)"

inductive_cases server_stepE: "server_step max_rss limit n s t"

definition server_init :: "nat \<Rightarrow> server_state \<Rightarrow> bool" where
  "server_init n s \<longleftrightarrow> accept_init (sv_acc s) \<and> sv_running s = {..<n} \<and> \<not> sv_cancelled s \<and> \<not> sv_returned s"

definition server_inv :: "nat \<Rightarrow> server_state \<Rightarrow> bool" where
  "server_inv n s \<longleftrightarrow> acc_pending (sv_acc s) \<subseteq> sv_running s \<and> sv_running s \<subseteq> {..<n}
     \<and> (\<not> sv_cancelled s \<longrightarrow> sv_running s = {..<n}) \<and> (sv_returned s \<longrightarrow> sv_running s = {})"

interpretation server: invariant_system "server_init n" "server_step rss limit n" "server_inv n"
proof
  show "server_inv n s" if "server_init n s" for s
    using that by (simp add: server_init_def server_inv_def accept_init_def)
  show "server_inv n t" if "server_inv n s" "server_step rss limit n s t" for s t
    using that(2,1) by cases (auto simp: server_inv_def)
qed

text \<open>The server refines the interleaved accept loops: each step is one of theirs or leaves them.\<close>

lemma server_simulates:
  "server_inv n s \<Longrightarrow> server_step rss limit n s t \<Longrightarrow>
     accept_step rss limit n (sv_acc s) (sv_acc t) \<or> sv_acc t = sv_acc s"
proof (elim server_stepE)
  fix i rss'
  assume "server_inv n s" "i \<in> sv_running s" "i \<notin> acc_pending (sv_acc s)"
    "admit_check rss rss' limit (fst (acc_shared (sv_acc s))) = Admitted"
    "t = s\<lparr>sv_acc := (sv_acc s)\<lparr>acc_pending := insert i (acc_pending (sv_acc s))\<rparr>\<rparr>"
  then show ?thesis using acc_check[of i n "sv_acc s" rss rss' limit] by (auto simp: server_inv_def)
qed (auto intro: acc_commit acc_end)

lemma server_refines:
  "reach (server_init n) (server_step rss limit n) s \<Longrightarrow> reach accept_init (accept_step rss limit n) (sv_acc s)"
proof (induction rule: reach.induct)
  case (reach_step s t)
  then show ?case using server_simulates[OF server.reach_inv[OF reach_step.hyps(1)] reach_step.hyps(2)]
    by (metis reach.reach_step)
qed (simp add: server_init_def reach_init)

text \<open>Once cancelled and with nothing half admitted, the loops can stop one after the other.\<close>

lemma server_can_stop:
  assumes "finite (sv_running s)" and "sv_cancelled s" and "acc_pending (sv_acc s) = {}"
  shows "(server_step rss limit n)\<^sup>*\<^sup>* s (s\<lparr>sv_running := {}, sv_returned := True\<rparr>)"
  using assms
proof (induction "sv_running s" arbitrary: s rule: finite_induct)
  case empty
  then have "s\<lparr>sv_running := {}, sv_returned := True\<rparr> = s\<lparr>sv_returned := True\<rparr>" by (cases s) simp
  moreover have "server_step rss limit n s (s\<lparr>sv_returned := True\<rparr>)" using srv_return empty.hyps by metis
  ultimately show ?case by (simp only: r_into_rtranclp)
next
  case (insert i F)
  let ?t = "s\<lparr>sv_running := F\<rparr>"
  have "server_step rss limit n s ?t"
    using srv_stop[of s i rss limit n] insert.hyps insert.prems by (metis Diff_insert_absorb empty_iff insertI1)
  moreover have "(server_step rss limit n)\<^sup>*\<^sup>* ?t (?t\<lparr>sv_running := {}, sv_returned := True\<rparr>)"
    using insert.hyps(3)[of ?t] insert.prems by simp
  ultimately show ?case by (simp add: converse_rtranclp_into_rtranclp)
qed

section \<open>The listeners that start\<close>

lemma spawn_loop_pool:
  assumes "spawn_loop W cfg i bind ml shared = (loop, shared')"
  shows "al_node_id loop = ml_node_id ml \<and> al_bind loop = bind \<and> al_target loop = ml_target ml
    \<and> (case al_pool loop of
          None \<Rightarrow> forwarding_mode (cfg_pool cfg) = PerConnection
        | Some p \<Rightarrow> forwarding_mode (cfg_pool cfg) = Pooled \<and> bp_limits p = to_pool_limits (cfg_pool cfg)
            \<and> bp_count p = 0 \<and> idle_count p \<le> pool_config.min_idle (cfg_pool cfg))"
proof (cases "forwarding_mode (cfg_pool cfg)")
  case Pooled
  let ?p = "broker_pool_new (to_pool_limits (cfg_pool cfg)) (fst shared) (snd shared)"
  show ?thesis
    using assms Pooled warmup_view(1-3)[of "w_connect W i" "w_done_at W i" ?p]
    by (auto simp: spawn_loop_def Let_def idle_count_def broker_pool_new_def to_pool_limits_def)
qed (use assms in \<open>auto simp: spawn_loop_def\<close>)

lemma start_listeners_Cons:
  "start_listeners W cfg i bound (ml # mls) shared = (Inr (loops, shared'') :: ('e, 'ke) proxy_error + _) \<Longrightarrow>
   \<exists>loop loops' shared'. loops = loop # loops'
     \<and> w_bind W bound (listener_bind (listen_bind (cfg_proxy cfg)) ml) = Inr ()
     \<and> spawn_loop W cfg i (listener_bind (listen_bind (cfg_proxy cfg)) ml) ml (w_meanwhile W i shared) = (loop, shared')
     \<and> start_listeners W cfg (Suc i) (listener_bind (listen_bind (cfg_proxy cfg)) ml # bound) mls shared' =
         (Inr (loops', shared'') :: ('e, 'ke) proxy_error + _)"
  by (auto simp: Let_def bindE_eq_Inr split: prod.splits)

lemma start_listeners_nodes:
  "start_listeners W cfg i bound mls shared = (Inr (loops, shared') :: ('e, 'ke) proxy_error + _) \<Longrightarrow>
     map al_node_id loops = map ml_node_id mls \<and> map al_target loops = map ml_target mls
     \<and> (\<forall>l \<in> set loops. case al_pool l of
          None \<Rightarrow> forwarding_mode (cfg_pool cfg) = PerConnection
        | Some p \<Rightarrow> forwarding_mode (cfg_pool cfg) = Pooled \<and> bp_limits p = to_pool_limits (cfg_pool cfg)
            \<and> bp_count p = 0 \<and> idle_count p \<le> pool_config.min_idle (cfg_pool cfg))"
proof (induction mls arbitrary: i bound shared loops)
  case (Cons ml mls)
  from start_listeners_Cons[OF Cons.prems] obtain loop loops' shared1 where
    l: "loops = loop # loops'"
    "spawn_loop W cfg i (listener_bind (listen_bind (cfg_proxy cfg)) ml) ml (w_meanwhile W i shared) = (loop, shared1)"
    "start_listeners W cfg (Suc i) (listener_bind (listen_bind (cfg_proxy cfg)) ml # bound) mls shared1 =
       (Inr (loops', shared') :: ('e, 'ke) proxy_error + _)" by blast
  show ?case using spawn_loop_pool[OF l(2)] Cons.IH[OF l(3)] l(1) by simp
qed simp

lemma run_start_Inr:
  assumes "run_start W cfg = (Inr st :: ('e, 'ke) proxy_error + _)"
  shows "\<exists>targets listeners shared.
    build_rewrite_map (w_lookup W) cfg targets = (Inr (sd_rewrite_map st, listeners) :: ('e, 'ke) proxy_error + _)
    \<and> start_listeners W cfg 0 [] listeners
        (with_max_in_flight (max_in_flight (cfg_pool cfg)), metrics_new (metrics_enabled (cfg_api cfg))) =
        (Inr (sd_loops st, shared) :: ('e, 'ke) proxy_error + _)"
proof -
  obtain targets rm listeners loops shared where
    "build_rewrite_map (w_lookup W) cfg targets = (Inr (rm, listeners) :: ('e, 'ke) proxy_error + _)"
    "start_listeners W cfg 0 [] listeners
        (with_max_in_flight (max_in_flight (cfg_pool cfg)), metrics_new (metrics_enabled (cfg_api cfg))) =
        (Inr (loops, shared) :: ('e, 'ke) proxy_error + _)"
    "sd_rewrite_map st = rm" "sd_loops st = loops"
    using assms by (auto simp: run_start_def bindE_eq_Inr Let_def)
  then show ?thesis by blast
qed

text \<open>A document whose configuration is \<open>demo_config\<close>.\<close>

definition demo_raw :: raw_config where
  "demo_raw =
     \<lparr>raw_cluster = Some (Some [''kafka:9092'', ''kafka:9093'']),
      raw_proxy_section = Some \<lparr>r_advertise_host = None, r_listen_bind = None,
        r_max_downstream_connections = Some 10, r_client_idle_timeout = None,
        r_bootstrap_server_mapping = Some [''p:1'', ''p:2'']\<rparr>,
      raw_upstream = None, raw_downstream = None, raw_pool_section = None, raw_api_section = None,
      raw_ha_section = None, raw_log_section = None, raw_unknown = []\<rparr>"

lemma demo_config_valid: "validate demo_config = None"
  by (simp add: validate_None_iff demo_config_def entry_wf_def advertised_host_def demo_parts
      pool_config_default_def default_min_idle_def default_max_per_broker_def)

lemma demo_loaded: "config_from_str True (\<lambda>_. Inr demo_raw :: unit + _) text = Inr demo_config"
proof -
  have "fill_config True demo_raw = Inr demo_config"
    by (simp add: demo_raw_def demo_config_def fill_config_def fill_cluster_def fill_proxy_def fill_auth_def
        fill_pool_def fill_api_def fill_ha_def fill_log_def ok_or_def or_default_def
        deserialize_optional_duration_def)
  then show ?thesis using demo_config_valid by (simp add: config_from_str_def)
qed

text \<open>A world in which it starts: two brokers on one host, every handshake succeeds.\<close>

definition demo_api :: "(unit, unit, unit, unit, unit) kafka_client_api" where
  "demo_api = \<lparr>kc_new = \<lambda>_. (), kc_with_keytab = \<lambda>_ _. (), kc_with_realm = \<lambda>_ _. (),
     kc_with_broker_hostname = \<lambda>_ _. (), sc_new = \<lambda>_ _ _. (), sc_username = \<lambda>_. [], sc_password = \<lambda>_. [],
     b_new = \<lambda>_ _. (), b_with_client_id = \<lambda>_ _. (), b_with_sasl = \<lambda>_ _ _. (), b_with_kerberos = \<lambda>_ _. (),
     b_with_kdc = \<lambda>_ _ _. (), b_with_broker_hostname = \<lambda>_ _. (), cb_with_plaintext = \<lambda>_. (),
     cb_with_sasl = \<lambda>_ _ _ _. (), cb_with_kerberos = \<lambda>_ _. (), cb_with_kdc = \<lambda>_ _ _. (),
     cb_with_client_id = \<lambda>_ _. ()\<rparr>"

definition demo_world :: "(unit, unit, unit, unit, unit, unit, unit, nat) start_world" where
  "demo_world = \<lparr>w_api = demo_api, w_with_broker_hostname = \<lambda>_ _. (), w_builder = \<lambda>_. (), w_build = \<lambda>_. Inr (),
     w_metadata = \<lambda>_. [(1, ''kafka'', ''9092''), (2, ''kafka'', ''9093'')], w_lookup = demo_lookup,
     w_bind = \<lambda>bound a. if a \<in> set bound then Inl ''in use'' else Inr (), w_connect = \<lambda>_ _. Inr (),
     w_done_at = \<lambda>_ _. (0, 0), w_meanwhile = \<lambda>_ shared. shared\<rparr>"

lemma demo_bootstrap:
  "bootstrap_targets demo_lookup (w_build demo_world) b (w_metadata demo_world) servers =
     (Inr (demo_targets, ()) :: (unit, unit) proxy_error + _)"
  by (simp add: bootstrap_targets_def demo_world_def parse_addr_def demo_lookup_def demo_targets_def)

lemma demo_listeners:
  "\<exists>rm l1 l2. build_rewrite_map demo_lookup demo_config demo_targets = (Inr (rm, [l1, l2]) :: (unit, unit) proxy_error + _)
     \<and> ml_bind_addr l1 = '':1'' \<and> ml_bind_addr l2 = '':2''"
  by (simp add: build_rewrite_map_def demo_config_def map_one_def demo_entries parse_addr_def demo_lookup_def
      demo_targets_def target_matches_def host_of_def)

lemma demo_run_start: "\<exists>st. run_start demo_world demo_config = (Inr st :: (unit, unit) proxy_error + _)"
proof -
  obtain rm l1 l2 where l: "build_rewrite_map demo_lookup demo_config demo_targets =
      (Inr (rm, [l1, l2]) :: (unit, unit) proxy_error + _)" "ml_bind_addr l1 = '':1''" "ml_bind_addr l2 = '':2''"
    using demo_listeners by blast
  have auth: "from_config (w_api demo_world) (cfg_upstream demo_config) = Inr APlaintext"
    by (simp add: demo_config_def auth_config_default_def from_config_def)
  have lookup: "w_lookup demo_world = demo_lookup" by (simp add: demo_world_def)
  have "\<exists>loops a b. start_listeners demo_world demo_config 0 [] [l1, l2] shared =
      (Inr (loops, a, b) :: (unit, unit) proxy_error + _)" for shared
    by (simp add: l(2,3) demo_world_def listener_bind_def starts_with_def case_prod_beta Let_def)
  then obtain loops a b where "start_listeners demo_world demo_config 0 [] [l1, l2]
      (with_max_in_flight (max_in_flight (cfg_pool demo_config)), metrics_new (metrics_enabled (cfg_api demo_config))) =
      (Inr (loops, a, b) :: (unit, unit) proxy_error + _)" by blast
  then show ?thesis by (simp add: run_start_def Let_def auth lookup demo_bootstrap l(1))
qed

section \<open>Properties\<close>

text \<open>C22: When the program starts, from the configuration file to the last listener, it has one accept
  loop for every bootstrap server, for exactly the brokers it advertises; in pooled mode each loop
  has a pool of its own with the configured limits and at most \<open>min_idle\<close> warm connections, which is within \<open>max_per_broker\<close>, none of
  which its counter knows of; in per-connection mode no loop has a pool.\<close>

theorem started_listeners:
  assumes "main_start checks toml read_file path W = (Inr (cfg, st) :: ('t, 'e, 'ke) main_error + _)"
  shows "length (sd_loops st) = length (bootstrap_servers (cfg_cluster cfg)) \<and> sd_loops st \<noteq> []
    \<and> dom (sd_rewrite_map st) = al_node_id ` set (sd_loops st)
    \<and> (\<forall>l \<in> set (sd_loops st). case al_pool l of
          None \<Rightarrow> forwarding_mode (cfg_pool cfg) = PerConnection
        | Some p \<Rightarrow> forwarding_mode (cfg_pool cfg) = Pooled \<and> bp_count p = 0
            \<and> bp_limits p = to_pool_limits (cfg_pool cfg) \<and> idle_count p \<le> min_idle (bp_limits p)
            \<and> min_idle (bp_limits p) \<le> max_per_broker (bp_limits p))"
proof -
  have cfg: "config_load checks toml read_file path = Inr cfg"
    and run: "run_start W cfg = (Inr st :: ('e, 'ke) proxy_error + _)"
    using assms by (auto simp: main_start_def bindE_eq_Inr)
  then have v: "validate cfg = None" by (auto simp: config_load_def bindE_eq_Inr config_from_str_validated)
  obtain targets listeners shared where
    b: "build_rewrite_map (w_lookup W) cfg targets = (Inr (sd_rewrite_map st, listeners) :: ('e, 'ke) proxy_error + _)"
    and l: "start_listeners W cfg 0 [] listeners
        (with_max_in_flight (max_in_flight (cfg_pool cfg)), metrics_new (metrics_enabled (cfg_api cfg))) =
        (Inr (sd_loops st, shared) :: ('e, 'ke) proxy_error + _)"
    using run_start_Inr[OF run] by blast
  have "mapped_ok targets (Map.empty, [])" by (simp add: mapped_ok_def)
  note m = mapped_ok_entries[OF this b[unfolded build_rewrite_map_def]]
  note n = start_listeners_nodes[OF l]
  have "length (sd_loops st) = length listeners" using n by (metis length_map)
  moreover have "al_node_id ` set (sd_loops st) = ml_node_id ` set listeners" using n by (metis list.set_map)
  moreover have "min_idle (to_pool_limits (cfg_pool cfg)) \<le> max_per_broker (to_pool_limits (cfg_pool cfg))"
    and "length listeners = length (bootstrap_servers (cfg_cluster cfg)) \<and> listeners \<noteq> []"
    using v m by (auto simp: validate_None_iff to_pool_limits_def)
  moreover have "dom (sd_rewrite_map st) = ml_node_id ` set listeners" using m by (simp add: mapped_ok_def)
  moreover have "case al_pool l of
        None \<Rightarrow> forwarding_mode (cfg_pool cfg) = PerConnection
      | Some p \<Rightarrow> forwarding_mode (cfg_pool cfg) = Pooled \<and> bp_count p = 0
          \<and> bp_limits p = to_pool_limits (cfg_pool cfg) \<and> idle_count p \<le> min_idle (bp_limits p)
          \<and> min_idle (bp_limits p) \<le> max_per_broker (bp_limits p)" if "l \<in> set (sd_loops st)" for l
    using conjunct2[OF conjunct2[OF n], rule_format, OF that] calculation(3)
    by (cases "al_pool l") (simp_all add: to_pool_limits_def)
  ultimately show ?thesis by auto
qed

lemma demo_main_start:
  "\<exists>st. main_start True (\<lambda>_. Inr demo_raw :: unit + _) (\<lambda>_. Inr content) path demo_world =
     (Inr (demo_config, st) :: (unit, unit, unit) main_error + _)"
  using demo_run_start demo_loaded[of content] by (auto simp: main_start_def config_load_def)

theorem started_listeners_witness:
  "\<exists>st. main_start True (\<lambda>_. Inr demo_raw :: unit + _) (\<lambda>_. Inr []) ''config.toml'' demo_world =
     (Inr (demo_config, st) :: (unit, unit, unit) main_error + _) \<and> length (sd_loops st) = 2"
proof -
  obtain st where st: "main_start True (\<lambda>_. Inr demo_raw :: unit + _) (\<lambda>_. Inr []) ''config.toml'' demo_world =
     (Inr (demo_config, st) :: (unit, unit, unit) main_error + _)" using demo_main_start by blast
  then show ?thesis using started_listeners[OF st] by (simp add: demo_config_def)
qed

text \<open>C24: The running server refines the interleaved accept loops, so with \<open>n\<close> listeners the
  connections counted in the gauge, admitted and with a relay whose \<open>run\<close> has not returned, never
  exceed the configured maximum by more than \<open>n - 1\<close>, shutdown included; with a maximum of zero
  there is none.\<close>

theorem server_refines_accept_loops:
  assumes "reach (server_init n) (server_step rss limit n) s"
  shows "reach accept_init (accept_step rss limit n) (sv_acc s)
    \<and> downstream_connections (fst (acc_shared (sv_acc s))) = of_nat (length (acc_live (sv_acc s)))
    \<and> length (acc_live (sv_acc s)) \<le> (if limit = 0 then 0 else (limit - 1) + n)"
  using server_refines[OF assms] accepting.level_bound accept_gauge by blast

definition demo_server :: server_state where
  "demo_server = \<lparr>sv_acc = \<lparr>acc_shared = (metrics_new True, dm_new), acc_pending = {}, acc_live = []\<rparr>,
     sv_running = {..<2}, sv_cancelled = False, sv_returned = False\<rparr>"

definition demo_serving :: server_state where
  "demo_serving = \<lparr>sv_acc = \<lparr>acc_shared = admit_commit 1 5 7 (metrics_new True, dm_new), acc_pending = {}, acc_live = [7]\<rparr>,
     sv_running = {..<2}, sv_cancelled = False, sv_returned = False\<rparr>"

lemma demo_serving_reach: "reach (server_init 2) (server_step None 4 2) demo_serving"
proof -
  let ?mid = "demo_server\<lparr>sv_acc := (sv_acc demo_server)\<lparr>acc_pending := {0}\<rparr>\<rparr>"
  have "reach (server_init 2) (server_step None 4 2) demo_server"
    by (rule reach_init) (simp add: server_init_def accept_init_def demo_server_def metrics_new_def)
  moreover have "server_step None 4 2 demo_server ?mid"
    using srv_check[of 0 demo_server None 0 4 2] by (simp add: demo_server_def admit_check_def metrics_new_def)
  moreover have "server_step None 4 2 ?mid demo_serving"
    using srv_commit[of 0 ?mid None 4 2 7 1 5] by (simp add: demo_server_def demo_serving_def)
  ultimately show ?thesis by (blast intro: reach_step)
qed

theorem server_refines_accept_loops_witness:
  "reach accept_init (accept_step None 4 2) (sv_acc demo_serving) \<and> length (acc_live (sv_acc demo_serving)) \<le> 5"
  using server_refines_accept_loops[OF demo_serving_reach] by simp

text \<open>C23: \<open>run\<close> returns only after the shutdown was requested and every loop has stopped, with no
  connection half admitted. But it does not wait for the connections being served: once the
  shutdown is requested it can return at once, whatever connections are still open.\<close>

theorem shutdown_does_not_drain:
  assumes "reach (server_init n) (server_step rss limit n) s" and "0 < n"
  shows "(sv_returned s \<longrightarrow> sv_cancelled s \<and> sv_running s = {} \<and> acc_pending (sv_acc s) = {})
    \<and> (acc_pending (sv_acc s) = {} \<longrightarrow>
        (\<exists>t. (server_step rss limit n)\<^sup>*\<^sup>* s t \<and> sv_returned t \<and> sv_acc t = sv_acc s))"
proof -
  have inv: "server_inv n s" using server.reach_inv[OF assms(1)] .
  let ?c = "s\<lparr>sv_cancelled := True\<rparr>"
  have "(server_step rss limit n)\<^sup>*\<^sup>* s (?c\<lparr>sv_running := {}, sv_returned := True\<rparr>)" if "acc_pending (sv_acc s) = {}"
    using srv_cancel[of rss limit n s] server_can_stop[of ?c rss limit n] inv that
    by (auto simp: server_inv_def intro: converse_rtranclp_into_rtranclp finite_subset)
  moreover have "sv_returned s \<longrightarrow> sv_cancelled s \<and> sv_running s = {} \<and> acc_pending (sv_acc s) = {}"
    using inv assms(2) by (auto simp: server_inv_def)
  ultimately show ?thesis by force
qed

theorem shutdown_does_not_drain_witness:
  "\<exists>t. (server_step None 4 2)\<^sup>*\<^sup>* demo_serving t \<and> sv_returned t \<and> acc_live (sv_acc t) = [7]"
  using shutdown_does_not_drain[OF demo_serving_reach] by (auto simp: demo_serving_def)

end
