(* ===== verification/Requests.thy ===== *)
theory Requests
  imports Api
begin

text \<open>
  The bodies of the two POST endpoints of \<open>src/src/api.rs\<close>: what serde's derived \<open>Deserialize\<close> of
  \<open>CreateTopicRequest\<close> and \<open>ProduceRequest\<close> makes of a JSON value, and the \<open>axum::Json\<close>
  extractor around it. The JSON text parser is \<open>serde_json\<close>'s: a body is the value it parsed to.
\<close>

section \<open>Fields\<close>

text \<open>A deserializer: \<open>None\<close> where serde reports a data error.\<close>

type_synonym 'a deserializer = "json \<Rightarrow> 'a option"

fun de_string :: "string deserializer" where
  "de_string (JStr s) = Some s"
| "de_string _ = None"

text \<open>A signed integer of \<open>w\<close> bits; a number with a fraction is not one.\<close>

fun de_int :: "nat \<Rightarrow> int deserializer" where
  "de_int w (JInt i) = (if - (2 ^ (w - 1)) \<le> i \<and> i < 2 ^ (w - 1) then Some i else None)"
| "de_int w _ = None"

fun de_option :: "'a deserializer \<Rightarrow> 'a option deserializer" where
  "de_option de JNull = Some None"
| "de_option de v = map_option Some (de v)"

fun de_list :: "'a deserializer \<Rightarrow> json list \<Rightarrow> 'a list option" where
  "de_list de [] = Some []"
| "de_list de (v # vs) = Option.bind (de v) (\<lambda>x. map_option ((#) x) (de_list de vs))"

fun de_vec :: "'a deserializer \<Rightarrow> 'a list deserializer" where
  "de_vec de (JArr vs) = de_list de vs"
| "de_vec de _ = None"

fun de_pair :: "'a deserializer \<Rightarrow> 'b deserializer \<Rightarrow> ('a \<times> 'b) deserializer" where
  "de_pair da db (JArr [v, w]) = Option.bind (da v) (\<lambda>a. map_option (Pair a) (db w))"
| "de_pair da db _ = None"

section \<open>Structs\<close>

text \<open>A derived struct is read from an object, whose unknown members are ignored, or from an array
  of its fields in order, which may stop early but not go on.\<close>

fun struct_members :: "string list \<Rightarrow> json \<Rightarrow> (string \<times> json) list option" where
  "struct_members names (JObj kvs) = Some kvs"
| "struct_members names (JArr vs) = (if length vs \<le> length names then Some (zip names vs) else None)"
| "struct_members names _ = None"

text \<open>One field of a struct: a member given twice is an error; a missing one gets the default, or is
  an error where there is none.\<close>

definition de_field :: "'a deserializer \<Rightarrow> 'a option \<Rightarrow> string \<Rightarrow> (string \<times> json) list \<Rightarrow> 'a option" where
  "de_field de dflt name kvs =
     (case filter (\<lambda>(k, v). k = name) kvs of
        [] \<Rightarrow> dflt
      | [(k, v)] \<Rightarrow> de v
      | _ \<Rightarrow> None)"

definition de_create_request :: "create_request deserializer" where
  "de_create_request j =
     Option.bind (struct_members [''name'', ''num_partitions'', ''replication_factor'', ''configs''] j) (\<lambda>kvs.
     Option.bind (de_field de_string None ''name'' kvs) (\<lambda>name.
     Option.bind (de_field (de_option (de_int 32)) (Some None) ''num_partitions'' kvs) (\<lambda>np.
     Option.bind (de_field (de_option (de_int 16)) (Some None) ''replication_factor'' kvs) (\<lambda>rf.
     Option.bind (de_field (de_vec (de_pair de_string de_string)) (Some []) ''configs'' kvs) (\<lambda>cs.
     Some \<lparr>cq_name = name, cq_num_partitions = np, cq_replication_factor = rf, cq_configs = cs\<rparr>)))))"

definition de_produce_request :: "produce_request deserializer" where
  "de_produce_request j =
     Option.bind (struct_members [''value'', ''key'', ''partition''] j) (\<lambda>kvs.
     Option.bind (de_field de_string None ''value'' kvs) (\<lambda>v.
     Option.bind (de_field (de_option de_string) (Some None) ''key'' kvs) (\<lambda>k.
     Option.bind (de_field (de_option (de_int 32)) (Some None) ''partition'' kvs) (\<lambda>p.
     Some \<lparr>pq_value = v, pq_key = k, pq_partition = p\<rparr>))))"

text \<open>The extractor: \<open>body\<close> is the status of the rejection when the content type is wrong (415), the
  body is over the limit (413) or the text is no JSON (400), else the value; a data error is 422.\<close>

definition json_extractor :: "'a deserializer \<Rightarrow> nat + json \<Rightarrow> nat + 'a" where
  "json_extractor de body = bindE body (\<lambda>j. ok_or 422 (de j))"

section \<open>What an accepted request holds\<close>

lemma de_int_range: "de_int w v = Some i \<Longrightarrow> - (2 ^ (w - 1)) \<le> i \<and> i < 2 ^ (w - 1)"
  by (cases v) (auto split: if_splits)

lemma de_option_range:
  "de_option (de_int w) v = Some (Some i) \<Longrightarrow> - (2 ^ (w - 1)) \<le> i \<and> i < 2 ^ (w - 1)"
  by (cases v) (auto split: if_splits)

lemma de_field_cases:
  "de_field de dflt name kvs = Some x \<Longrightarrow> dflt = Some x \<or> (\<exists>v. (name, v) \<in> set kvs \<and> de v = Some x)"
  by (auto simp: de_field_def filter_eq_Cons_iff split: list.splits)

lemma create_request_ranges:
  assumes "de_create_request j = Some req"
  shows "\<forall>n. cq_num_partitions req = Some n \<longrightarrow> - (2 ^ 31) \<le> n \<and> n < 2 ^ 31"
    and "\<forall>n. cq_replication_factor req = Some n \<longrightarrow> - (2 ^ 15) \<le> n \<and> n < 2 ^ 15"
proof -
  obtain kvs where np: "de_field (de_option (de_int 32)) (Some None) ''num_partitions'' kvs = Some (cq_num_partitions req)"
    and rf: "de_field (de_option (de_int 16)) (Some None) ''replication_factor'' kvs = Some (cq_replication_factor req)"
    using assms by (auto simp: de_create_request_def bind_eq_Some_conv)
  from de_field_cases[OF np] show "\<forall>n. cq_num_partitions req = Some n \<longrightarrow> - (2 ^ 31) \<le> n \<and> n < 2 ^ 31"
    by (auto dest!: de_option_range)
  from de_field_cases[OF rf] show "\<forall>n. cq_replication_factor req = Some n \<longrightarrow> - (2 ^ 15) \<le> n \<and> n < 2 ^ 15"
    by (auto dest!: de_option_range)
qed

text \<open>What is asked of the cluster is -1 (its own default) or a number of the width of the protocol's
  field.\<close>

lemma created_topic_ranges:
  assumes "de_create_request j = Some req"
  shows "- 1 \<le> nt_partitions (to_new_topic req) \<and> nt_partitions (to_new_topic req) < 2 ^ 31
    \<and> - 1 \<le> nt_replication (to_new_topic req) \<and> nt_replication (to_new_topic req) < 2 ^ 15"
  using create_request_ranges[OF assms]
  by (cases "cq_num_partitions req"; cases "cq_replication_factor req") (simp_all add: to_new_topic_def or_default_def)

text \<open>The two spellings of a struct agree, and members the struct does not know change nothing.\<close>

lemma de_field_irrelevant:
  "k \<noteq> name \<Longrightarrow> de_field de dflt name ((k, v) # kvs) = de_field de dflt name kvs"
  by (simp add: de_field_def)

lemma unknown_members_ignored:
  "k \<notin> {''value'', ''key'', ''partition''} \<Longrightarrow>
     de_produce_request (JObj ((k, v) # kvs)) = de_produce_request (JObj kvs)"
  "k \<notin> {''name'', ''num_partitions'', ''replication_factor'', ''configs''} \<Longrightarrow>
     de_create_request (JObj ((k, v) # kvs)) = de_create_request (JObj kvs)"
  by (simp_all add: de_produce_request_def de_create_request_def de_field_irrelevant)

end
