(* ===== verification/Router.thy ===== *)
theory Router
  imports Requests
begin

text \<open>
  The routes of the web API, \<open>build_router\<close> in \<open>src/src/api.rs\<close>, and the way of a request through
  them: path, method, extractors, handler. The matching of a path against a pattern is the
  \<open>matchit\<close> library's: a parameter, of which only the documented treatment of doubled braces is
  used. What the admin client, the consumer and the producer answer is the record \<open>api_backend\<close>.
\<close>

section \<open>Routes\<close>

datatype http_method = GET | HEAD | POST | OtherMethod

datatype endpoint =
    EpHealth
  | EpMetrics
  | EpListTopics
  | EpCreateTopic
  | EpListConsumers
  | EpLatestMessages
  | EpSendMessage
  | EpConnections

definition build_router :: "(string \<times> (http_method \<times> endpoint) list) list" where
  "build_router =
     [(''/health'', [(GET, EpHealth)]),
      (''/metrics'', [(GET, EpMetrics)]),
      (''/doctor/topics'', [(GET, EpListTopics), (POST, EpCreateTopic)]),
      (''/doctor/consumers/{{topic}}'', [(GET, EpListConsumers)]),
      (''/doctor/messages/{{topic}}'', [(GET, EpLatestMessages), (POST, EpSendMessage)]),
      (''/doctor/connections'', [(GET, EpConnections)])]"

text \<open>\<open>get\<close> also answers \<open>HEAD\<close>.\<close>

definition method_endpoint :: "(http_method \<times> endpoint) list \<Rightarrow> http_method \<Rightarrow> endpoint option" where
  "method_endpoint ms m =
     (case map_of ms m of Some e \<Rightarrow> Some e | None \<Rightarrow> if m = HEAD then map_of ms GET else None)"

datatype dispatch = NoRoute | NoMethod | To endpoint "string list"

text \<open>\<open>matches pattern path\<close>: the values of the pattern's parameters, if the path matches.\<close>

definition route_request ::
  "(string \<Rightarrow> string \<Rightarrow> string list option) \<Rightarrow> http_method \<Rightarrow> string \<Rightarrow> dispatch" where
  "route_request matches m path =
     (case find (\<lambda>(pat, _). matches pat path \<noteq> None) build_router of
        None \<Rightarrow> NoRoute
      | Some (pat, ms) \<Rightarrow>
          (case method_endpoint ms m of
             None \<Rightarrow> NoMethod
           | Some e \<Rightarrow> To e (case matches pat path of Some ps \<Rightarrow> ps | None \<Rightarrow> [])))"

section \<open>Requests\<close>

text \<open>What the extractors read: the query's count, or the status of its rejection, and the JSON body,
  or the status of the rejection of a body that is none.\<close>

record api_request =
  rq_count :: "nat + nat option"
  rq_body :: "nat + json"

record api_backend =
  bk_topics :: "string + topic_listing list"
  bk_create :: "new_topic \<Rightarrow> string + create_result"
  bk_groups :: "string + (string \<times> string) list"
  bk_describe :: "string list \<Rightarrow> string + group_description list"
  bk_fetch :: "string \<Rightarrow> group_offset list option"
  bk_in_time :: bool
  bk_partitions :: "string \<Rightarrow> string + int list list"
  bk_list_offsets :: "string \<Rightarrow> int list \<Rightarrow> offsets_response option"
  bk_consume :: "string \<Rightarrow> (int \<times> int \<times> int) list \<Rightarrow> string + (bool \<times> payload poll) list"
  bk_order :: "payload consumer_record list \<Rightarrow> int list"
  bk_send :: "string \<Rightarrow> produce_request \<Rightarrow> string + record_meta"

record 'peer api_deps =
  dp_metrics :: metrics
  dp_rss :: u64
  dp_show_f64 :: "rat \<Rightarrow> string"
  dp_tracker :: "'peer tracker"
  dp_show_peer :: "'peer \<Rightarrow> string"
  dp_now :: instant
  dp_default_count :: nat

text \<open>A rejection is an answer of the framework: an unknown path, a wrong method, or an extractor
  that fails.\<close>

datatype http_response =
    Answer nat json
  | MetricsText string
  | Rejected nat

text \<open>\<open>Path<String>\<close> wants exactly one parameter; any other number is a server error.\<close>

definition with_topic :: "string list \<Rightarrow> (string \<Rightarrow> http_response) \<Rightarrow> http_response" where
  "with_topic ps f = (case ps of [topic] \<Rightarrow> f topic | _ \<Rightarrow> Rejected 500)"

definition with_value :: "nat + 'a \<Rightarrow> ('a \<Rightarrow> http_response) \<Rightarrow> http_response" where
  "with_value v f = (case v of Inl code \<Rightarrow> Rejected code | Inr x \<Rightarrow> f x)"

definition answer :: "response \<Rightarrow> http_response" where
  "answer r = Answer (fst r) (snd r)"

fun serve_endpoint ::
  "api_backend \<Rightarrow> 'peer api_deps \<Rightarrow> api_request \<Rightarrow> endpoint \<Rightarrow> string list \<Rightarrow> http_response" where
  "serve_endpoint B D rq EpHealth ps = answer health_handler"
| "serve_endpoint B D rq EpMetrics ps = MetricsText (render_prometheus (dp_show_f64 D) (dp_rss D) (dp_metrics D))"
| "serve_endpoint B D rq EpConnections ps = answer (connections_handler (dp_show_peer D) (dp_now D) (dp_tracker D))"
| "serve_endpoint B D rq EpListTopics ps = answer (respond (list_topics (bk_topics B)))"
| "serve_endpoint B D rq EpCreateTopic ps =
     with_value (json_extractor de_create_request (rq_body rq)) (\<lambda>req. answer (create_topic_handler (bk_create B) req))"
| "serve_endpoint B D rq EpListConsumers ps =
     with_topic ps (\<lambda>topic.
     answer (respond (list_consumers (bk_groups B) (bk_describe B) (bk_fetch B) (bk_in_time B) topic)))"
| "serve_endpoint B D rq EpLatestMessages ps =
     with_topic ps (\<lambda>topic. with_value (rq_count rq) (\<lambda>q.
     (let ends = fetch_log_end_offsets (bk_partitions B topic) (bk_list_offsets B topic) topic
      in answer (respond (latest_messages record_to_json ends (bk_consume B topic) (bk_order B) topic
           (clamp_count q (dp_default_count D)))))))"
| "serve_endpoint B D rq EpSendMessage ps =
     with_topic ps (\<lambda>topic. with_value (json_extractor de_produce_request (rq_body rq)) (\<lambda>req.
     answer (respond (send_message (bk_send B) topic req))))"

definition serve_request ::
  "(string \<Rightarrow> string \<Rightarrow> string list option) \<Rightarrow> api_backend \<Rightarrow> 'peer api_deps \<Rightarrow> api_request
     \<Rightarrow> http_method \<Rightarrow> string \<Rightarrow> http_response" where
  "serve_request matches B D rq m path =
     (case route_request matches m path of
        NoRoute \<Rightarrow> Rejected 404
      | NoMethod \<Rightarrow> Rejected 405
      | To e ps \<Rightarrow> serve_endpoint B D rq e ps)"

section \<open>Doubled braces\<close>

text \<open>In a \<open>matchit\<close> pattern a doubled brace stands for the brace itself; a pattern with no other
  braces has no parameters and matches one path.\<close>

fun braces_escaped :: "string \<Rightarrow> bool" where
  "braces_escaped [] = True"
| "braces_escaped [c] = (c \<noteq> CHR ''{'' \<and> c \<noteq> CHR ''}'')"
| "braces_escaped (c # d # s) =
     (if c = CHR ''{'' \<or> c = CHR ''}'' then d = c \<and> braces_escaped s else braces_escaped (d # s))"

fun unescape :: "string \<Rightarrow> string" where
  "unescape [] = []"
| "unescape [c] = [c]"
| "unescape (c # d # s) =
     (if (c = CHR ''{'' \<or> c = CHR ''}'') \<and> d = c then c # unescape s else c # unescape (d # s))"

definition matchit_braces :: "(string \<Rightarrow> string \<Rightarrow> string list option) \<Rightarrow> bool" where
  "matchit_braces matches \<longleftrightarrow>
     (\<forall>pat path. braces_escaped pat \<longrightarrow> matches pat path = (if path = unescape pat then Some [] else None))"

lemma router_literal:
  assumes "matchit_braces matches"
  shows "route_request matches m path =
    (case map_of (map (\<lambda>(pat, ms). (unescape pat, ms)) build_router) path of
       None \<Rightarrow> NoRoute
     | Some ms \<Rightarrow> (case method_endpoint ms m of None \<Rightarrow> NoMethod | Some e \<Rightarrow> To e []))"
proof -
  have m: "matches pat path = (if path = unescape pat then Some [] else None)" if "pat \<in> fst ` set build_router" for pat
  proof -
    have "braces_escaped pat" using that by (auto simp: build_router_def)
    then show ?thesis using assms by (simp add: matchit_braces_def)
  qed
  have "(case find (\<lambda>(pat, _). matches pat path \<noteq> None) rs of
        None \<Rightarrow> NoRoute
      | Some (pat, ms) \<Rightarrow> (case method_endpoint ms m of None \<Rightarrow> NoMethod
          | Some e \<Rightarrow> To e (case matches pat path of Some ps \<Rightarrow> ps | None \<Rightarrow> []))) =
    (case map_of (map (\<lambda>(pat, ms). (unescape pat, ms)) rs) path of
       None \<Rightarrow> NoRoute
     | Some ms \<Rightarrow> (case method_endpoint ms m of None \<Rightarrow> NoMethod | Some e \<Rightarrow> To e []))"
    if "set rs \<subseteq> set build_router" for rs
    using that
  proof (induction rs)
    case (Cons r rs)
    then have "matches (fst r) path = (if path = unescape (fst r) then Some [] else None)" by (intro m) auto
    then show ?case using Cons by (cases r) (auto split: option.splits)
  qed simp
  then show ?thesis by (simp add: route_request_def)
qed

lemma unescaped_routes:
  "map (\<lambda>(pat, ms). (unescape pat, ms)) build_router =
     [(''/health'', [(GET, EpHealth)]),
      (''/metrics'', [(GET, EpMetrics)]),
      (''/doctor/topics'', [(GET, EpListTopics), (POST, EpCreateTopic)]),
      (''/doctor/consumers/{topic}'', [(GET, EpListConsumers)]),
      (''/doctor/messages/{topic}'', [(GET, EpLatestMessages), (POST, EpSendMessage)]),
      (''/doctor/connections'', [(GET, EpConnections)])]"
  by (simp add: build_router_def)

section \<open>Properties\<close>

text \<open>C25: The routes of the endpoints that take a topic are written with doubled braces, which the
  router takes literally: whatever the topic, asking for its consumers or its messages, or sending
  to it, is answered 404, and 500 at the one path that does match; no such request ever reaches
  its handler.\<close>

theorem topic_endpoints_unreachable:
  assumes "matchit_braces matches"
  shows "serve_request matches B D rq m (''/doctor/consumers/'' @ topic) \<in>
      (if topic = ''{topic}'' then {Rejected 405, Rejected 500} else {Rejected 404})
    \<and> serve_request matches B D rq m (''/doctor/messages/'' @ topic) \<in>
      (if topic = ''{topic}'' then {Rejected 405, Rejected 500} else {Rejected 404})"
  by (cases m) (auto simp: serve_request_def router_literal[OF assms] unescaped_routes method_endpoint_def
      with_topic_def)

theorem topic_endpoints_unreachable_witness:
  "\<forall>B (D :: unit api_deps) rq.
     serve_request (\<lambda>pat path. if path = unescape pat then Some [] else None) B D rq GET ''/doctor/messages/orders'' = Rejected 404"
proof (intro allI)
  fix B and D :: "unit api_deps" and rq
  let ?m = "\<lambda>pat path. if path = unescape pat then Some [] else None"
  have "matchit_braces ?m" by (simp add: matchit_braces_def)
  from topic_endpoints_unreachable[OF this, of B D rq GET "''orders''"]
  show "serve_request ?m B D rq GET ''/doctor/messages/orders'' = Rejected 404" by simp
qed

text \<open>The endpoints without a parameter are served, with the status their handler gives.\<close>

lemma plain_endpoints_served:
  assumes "matchit_braces matches"
  shows "serve_request matches B D rq GET ''/health'' = Answer 200 (JObj [(''status'', JStr ''ok'')])"
    "serve_request matches B D rq GET ''/doctor/topics'' = answer (respond (list_topics (bk_topics B)))"
    "serve_request matches B D rq POST ''/health'' = Rejected 405"
  by (simp_all add: serve_request_def router_literal[OF assms] unescaped_routes method_endpoint_def
      health_handler_def answer_def)

text \<open>A body that is no \<open>CreateTopicRequest\<close> is refused before the admin client is asked.\<close>

lemma malformed_create_rejected:
  assumes "matchit_braces matches" and "rq_body rq = Inr j" and "de_create_request j = None"
  shows "serve_request matches B D rq POST ''/doctor/topics'' = Rejected 422"
  using assms(2-) by (simp add: serve_request_def router_literal[OF assms(1)] unescaped_routes method_endpoint_def
      json_extractor_def with_value_def ok_or_def)

end
