(* ===== verification/Service.thy ===== *)
theory Service
  imports Server Router "HOL-Library.Sublist"
begin

text \<open>
  What surrounds the components: the web server of \<open>src/src/api.rs\<close> with its body limit and the
  semaphore of \<open>latest_messages\<close>; and \<open>main\<close> of \<open>src/src/main.rs\<close> as a whole, from the command line
  to the task that waits for a signal and the end of \<open>run\<close>.
\<close>

section \<open>The web server\<close>

definition BODY_LIMIT :: nat where "BODY_LIMIT = 10 * 1024 * 1024"

text \<open>The JSON extractor looks at the content type first and then reads at most \<open>BODY_LIMIT\<close> bytes.\<close>

definition limited_body :: "bool \<Rightarrow> nat \<Rightarrow> nat + json \<Rightarrow> nat + json" where
  "limited_body is_json len body =
     (if \<not> is_json then Inl 415 else if BODY_LIMIT < len then Inl 413 else body)"

text \<open>The server: an error of the bind, or the function that answers a request with a body of a given
  length. \<open>bind\<close> is the socket's.\<close>

definition serve ::
  "(string \<Rightarrow> string \<Rightarrow> string list option) \<Rightarrow> (string \<Rightarrow> string + unit) \<Rightarrow> api_backend \<Rightarrow> 'peer api_deps
     \<Rightarrow> api_config \<Rightarrow> string + (bool \<Rightarrow> nat \<Rightarrow> api_request \<Rightarrow> http_method \<Rightarrow> string \<Rightarrow> http_response)" where
  "serve matches bind B D cfg =
     bindE (bind (api_listen cfg)) (\<lambda>_.
     Inr (\<lambda>is_json len rq m path.
       serve_request matches B D (rq\<lparr>rq_body := limited_body is_json len (rq_body rq)\<rparr>) m path))"

text \<open>A body over the limit is refused before the broker is asked; one within it changes nothing.\<close>

lemma oversized_body_refused:
  assumes "serve matches bind B D cfg = Inr app" and "matchit_braces matches" and "BODY_LIMIT < len"
  shows "app True len rq POST ''/doctor/topics'' = Rejected 413"
  using assms(1,3)
  by (auto simp: serve_def bindE_eq_Inr limited_body_def serve_request_def router_literal[OF assms(2)]
      unescaped_routes method_endpoint_def json_extractor_def with_value_def)

lemma body_within_limit:
  "serve matches bind B D cfg = Inr app \<Longrightarrow> len \<le> BODY_LIMIT \<Longrightarrow>
     app True len rq m path = serve_request matches B D rq m path"
  by (auto simp: serve_def bindE_eq_Inr limited_body_def)

section \<open>The semaphore of \<open>latest_messages\<close>\<close>

text \<open>Three permits; who finds none waits, and a returned permit goes to the one who has waited longest.
  A request whose client is gone while it waits leaves the queue. \<open>ms_log\<close> is history: the requests in the order in which they came.\<close>

definition MSG_SEM :: nat where "MSG_SEM = 3"

record msg_sem =
  ms_running :: "nat list"
  ms_waiting :: "nat list"
  ms_started :: "nat list"
  ms_log :: "nat list"

inductive sem_step :: "msg_sem \<Rightarrow> msg_sem \<Rightarrow> bool" where
  sem_acquire: "length (ms_running s) < MSG_SEM \<Longrightarrow>
     sem_step s (s\<lparr>ms_running := ms_running s @ [r], ms_started := ms_started s @ [r], ms_log := ms_log s @ [r]\<rparr>)"
| sem_wait: "MSG_SEM \<le> length (ms_running s) \<Longrightarrow>
     sem_step s (s\<lparr>ms_waiting := ms_waiting s @ [r], ms_log := ms_log s @ [r]\<rparr>)"
| sem_release: "r \<in> set (ms_running s) \<Longrightarrow> ms_waiting s = [] \<Longrightarrow>
     sem_step s (s\<lparr>ms_running := remove1 r (ms_running s)\<rparr>)"
| sem_handover: "r \<in> set (ms_running s) \<Longrightarrow> ms_waiting s = w # ws \<Longrightarrow>
     sem_step s (s\<lparr>ms_running := remove1 r (ms_running s) @ [w], ms_waiting := ws, ms_started := ms_started s @ [w]\<rparr>)"
| sem_abandon: "r \<in> set (ms_waiting s) \<Longrightarrow> sem_step s (s\<lparr>ms_waiting := remove1 r (ms_waiting s)\<rparr>)"

inductive_cases sem_stepE: "sem_step s t"

definition sem_init :: "msg_sem \<Rightarrow> bool" where
  "sem_init s \<longleftrightarrow> s = \<lparr>ms_running = [], ms_waiting = [], ms_started = [], ms_log = []\<rparr>"

definition sem_inv :: "msg_sem \<Rightarrow> bool" where
  "sem_inv s \<longleftrightarrow> length (ms_running s) \<le> MSG_SEM \<and> (ms_waiting s \<noteq> [] \<longrightarrow> length (ms_running s) = MSG_SEM)
     \<and> subseq (ms_started s @ ms_waiting s) (ms_log s)"

lemma subseq_remove1: "subseq (remove1 x xs) xs"
  by (induction xs) auto

lemma subseq_remove1_append: "subseq (xs @ ys) zs \<Longrightarrow> subseq (xs @ remove1 x ys) zs"
  by (meson list_emb_append_mono subseq_order.order_trans subseq_order.refl subseq_remove1)

interpretation sem: invariant_system sem_init sem_step sem_inv
proof
  show "sem_inv s" if "sem_init s" for s using that by (simp add: sem_init_def sem_inv_def)
  show "sem_inv t" if "sem_inv s" "sem_step s t" for s t
    using that(2,1)
  proof cases
    case (sem_acquire r)
    then show ?thesis using that(1) list_emb_append_mono[of "(=)" "ms_started s" "ms_log s" "[r]" "[r]"]
      by (auto simp: sem_inv_def)
  next
    case (sem_wait r)
    then show ?thesis using that(1) list_emb_append_mono[of "(=)" "ms_started s @ ms_waiting s" "ms_log s" "[r]" "[r]"]
      by (auto simp: sem_inv_def)
  next
    case (sem_abandon r)
    then show ?thesis using that(1) subseq_remove1_append by (auto simp: sem_inv_def)
  qed (use that(1) in \<open>auto simp: sem_inv_def length_remove1 MSG_SEM_def\<close>)
qed

text \<open>At most three requests read messages at a time, they start in the order in which they came, and
  one waits only while three are running.\<close>

lemma messages_throttled:
  assumes "reach sem_init sem_step s"
  shows "length (ms_running s) \<le> 3" and "subseq (ms_started s @ ms_waiting s) (ms_log s)"
    and "ms_waiting s \<noteq> [] \<Longrightarrow> length (ms_running s) = 3"
  using sem.reach_inv[OF assms] by (simp_all add: sem_inv_def MSG_SEM_def)

section \<open>The command line\<close>

text \<open>The parser is the library's: it ends the program (help, version, an error), or gives the value of
  \<open>-c\<close> or \<open>--config\<close>, if there is one.\<close>

record cli =
  cli_config :: string

definition DEFAULT_CONFIG :: string where "DEFAULT_CONFIG = ''config.toml''"

definition parse_cli :: "(string list \<Rightarrow> 'x + string option) \<Rightarrow> string list \<Rightarrow> 'x + cli" where
  "parse_cli clap args = bindE (clap args) (\<lambda>c. Inr \<lparr>cli_config = or_default c DEFAULT_CONFIG\<rparr>)"

datatype ('x, 'err) main_end = MainExit 'x | MainFailed 'err

text \<open>\<open>main\<close> until \<open>run\<close> waits: the subscriber in force, the configuration, the accept loops.\<close>

definition main_program ::
  "(string list \<Rightarrow> 'x + string option) \<Rightarrow> string list \<Rightarrow> string option \<Rightarrow> (string \<Rightarrow> bool)
     \<Rightarrow> bool \<Rightarrow> (string \<Rightarrow> 't + raw_config) \<Rightarrow> (string \<Rightarrow> string + string)
     \<Rightarrow> ('kc, 'sc, 'b, 'cb, 'addr, 'ke, 'client, 'ip) start_world
     \<Rightarrow> ('x, ('t, 'e, 'ke) main_error) main_end + subscriber option \<times> proxy_config \<times> 'ip started" where
  "main_program clap args env_filter mkdir checks toml read_file W =
     bindE (map_err MainExit (parse_cli clap args)) (\<lambda>c.
     bindE (map_err MainFailed (main_start checks toml read_file (cli_config c) W)) (\<lambda>(cfg, st).
     Inr (main_logging env_filter mkdir (cli_config c) (cfg_log cfg), cfg, st)))"

lemma main_program_started:
  assumes "main_program clap args env_filter mkdir checks toml read_file W =
     (Inr (g, cfg, st) :: ('x, ('t, 'e, 'ke) main_error) main_end + _)"
  obtains c where "clap args = Inr c"
    and "config_load checks toml read_file (or_default c ''config.toml'') = Inr cfg"
    and "run_start W cfg = (Inr st :: ('e, 'ke) proxy_error + _)"
    and "g = Some (StdoutSubscriber (or_default env_filter ''info''))"
  using assms
  by (auto simp: main_program_def parse_cli_def DEFAULT_CONFIG_def main_start_def bindE_eq_Inr map_err_def log_dir_ignored
      split: sum.splits)

section \<open>Signals\<close>

text \<open>The task that waits for a signal. \<open>ctrl_c\<close> counts as a signal even when it fails; if the handler
  of \<open>SIGTERM\<close> cannot be installed the task panics, and nothing is ever cancelled.\<close>

datatype signal_event =
    CtrlC "string + unit"
  | Terminate
  | InstallFailed

datatype signal_wait = SwWaiting | SwCancelled | SwPanicked

fun signal_outcome :: "signal_event \<Rightarrow> signal_wait" where
  "signal_outcome (CtrlC r) = SwCancelled"
| "signal_outcome Terminate = SwCancelled"
| "signal_outcome InstallFailed = SwPanicked"

text \<open>The program: the server without any cancellation but the signal task's, that task, and whether
  \<open>main\<close> has returned.\<close>

record program =
  pg_server :: server_state
  pg_wait :: signal_wait
  pg_done :: bool

inductive program_step :: "u64 option \<Rightarrow> nat \<Rightarrow> nat \<Rightarrow> program \<Rightarrow> program \<Rightarrow> bool"
  for max_rss :: "u64 option" and limit :: nat and listeners :: nat where
  pg_signal: "pg_wait p = SwWaiting \<Longrightarrow>
     program_step max_rss limit listeners p (p\<lparr>pg_wait := signal_outcome e,
       pg_server := (if signal_outcome e = SwCancelled then (pg_server p)\<lparr>sv_cancelled := True\<rparr> else pg_server p)\<rparr>)"
| pg_serve: "server_step max_rss limit listeners (pg_server p) t \<Longrightarrow> sv_cancelled t = sv_cancelled (pg_server p) \<Longrightarrow>
     program_step max_rss limit listeners p (p\<lparr>pg_server := t\<rparr>)"
| pg_finish: "sv_returned (pg_server p) \<Longrightarrow> program_step max_rss limit listeners p (p\<lparr>pg_done := True\<rparr>)"

inductive_cases program_stepE: "program_step max_rss limit n p q"

definition program_init :: "nat \<Rightarrow> program \<Rightarrow> bool" where
  "program_init n p \<longleftrightarrow> server_init n (pg_server p) \<and> pg_wait p = SwWaiting \<and> \<not> pg_done p"

definition program_inv :: "nat \<Rightarrow> program \<Rightarrow> bool" where
  "program_inv n p \<longleftrightarrow> server_inv n (pg_server p) \<and> (sv_cancelled (pg_server p) \<longleftrightarrow> pg_wait p = SwCancelled)
     \<and> (pg_done p \<longrightarrow> sv_returned (pg_server p))"

lemma server_keeps: "server_step rss limit n s t \<Longrightarrow> (sv_cancelled s \<longrightarrow> sv_cancelled t) \<and> (sv_returned s \<longrightarrow> sv_returned t)"
  by (elim server_stepE) auto

interpretation program: invariant_system "program_init n" "program_step rss limit n" "program_inv n"
proof
  show "program_inv n p" if "program_init n p" for p
    using that server.inv_init[of n "pg_server p"] by (auto simp: program_init_def program_inv_def server_init_def)
  show "program_inv n q" if "program_inv n p" "program_step rss limit n p q" for p q
    using that(2,1)
  proof cases
    case (pg_signal e)
    then show ?thesis using that(1) server.inv_step[OF _ srv_cancel]
      by (cases e) (auto simp: program_inv_def)
  next
    case (pg_serve t)
    then show ?thesis using that(1) server_keeps[OF pg_serve(2)] server.inv_step[OF _ pg_serve(2)]
      by (auto simp: program_inv_def)
  qed (simp add: program_inv_def)
qed

text \<open>A cancelled server's steps are steps of the program.\<close>

lemma program_follows:
  assumes "(server_step rss limit n)\<^sup>*\<^sup>* s t" and "sv_cancelled s" and "pg_server p = s"
  shows "(program_step rss limit n)\<^sup>*\<^sup>* p (p\<lparr>pg_server := t\<rparr>) \<and> sv_cancelled t"
  using assms(1)
proof (induction rule: rtranclp_induct)
  case base
  have "p\<lparr>pg_server := s\<rparr> = p" using assms(3) by (cases p) simp
  then show ?case using assms(2) by simp
next
  case (step t u)
  have "program_step rss limit n (p\<lparr>pg_server := t\<rparr>) (p\<lparr>pg_server := t\<rparr>\<lparr>pg_server := u\<rparr>)"
    using step server_keeps[OF step(2)] by (intro pg_serve) auto
  then show ?case using step server_keeps[OF step(2)] by (auto intro: rtranclp.rtrancl_into_rtrancl)
qed

text \<open>\<open>main\<close> returns only after the signal task has cancelled: never without a signal, and never after
  that task has panicked. After a signal it can return, whatever connections are open.\<close>

theorem program_ends_on_signal:
  assumes "reach (program_init n) (program_step rss limit n) p" and "0 < n"
  shows "(pg_done p \<longrightarrow> pg_wait p = SwCancelled)
    \<and> (pg_wait p = SwCancelled \<and> acc_pending (sv_acc (pg_server p)) = {} \<longrightarrow>
         (\<exists>q. (program_step rss limit n)\<^sup>*\<^sup>* p q \<and> pg_done q \<and> sv_acc (pg_server q) = sv_acc (pg_server p)))"
proof (intro conjI impI)
  have inv: "program_inv n p" using assms(1) by (rule program.reach_inv)
  show "pg_wait p = SwCancelled" if "pg_done p"
    using inv that assms(2) by (auto simp: program_inv_def server_inv_def)
  assume "pg_wait p = SwCancelled \<and> acc_pending (sv_acc (pg_server p)) = {}"
  then have c: "sv_cancelled (pg_server p)" and e: "acc_pending (sv_acc (pg_server p)) = {}" using inv by (auto simp: program_inv_def)
  have "finite (sv_running (pg_server p))" using inv by (auto simp: program_inv_def server_inv_def intro: finite_subset)
  from program_follows[OF server_can_stop[OF this c e] c refl]
  have "(program_step rss limit n)\<^sup>*\<^sup>* p (p\<lparr>pg_server := (pg_server p)\<lparr>sv_running := {}, sv_returned := True\<rparr>\<rparr>)" by blast
  moreover have "program_step rss limit n (p\<lparr>pg_server := (pg_server p)\<lparr>sv_running := {}, sv_returned := True\<rparr>\<rparr>)
     (p\<lparr>pg_server := (pg_server p)\<lparr>sv_running := {}, sv_returned := True\<rparr>, pg_done := True\<rparr>)"
    using pg_finish[of "p\<lparr>pg_server := (pg_server p)\<lparr>sv_running := {}, sv_returned := True\<rparr>\<rparr>" rss limit n] by simp
  ultimately show "\<exists>q. (program_step rss limit n)\<^sup>*\<^sup>* p q \<and> pg_done q \<and> sv_acc (pg_server q) = sv_acc (pg_server p)"
    by (intro exI[of _ "p\<lparr>pg_server := (pg_server p)\<lparr>sv_running := {}, sv_returned := True\<rparr>, pg_done := True\<rparr>"]) auto
qed

end
