(* ===== verification/PooledOrder.thy ===== *)
theory PooledOrder
  imports Relay
begin

text \<open>
  The client's side of a pooled relay and the order of its responses: the second task of
  \<open>PooledRelay\<close> in \<open>src/src/relay.rs\<close>, which writes what arrives on the reply channel to the
  client, and what the read loops of \<open>src/src/pool.rs\<close> put there. Responses come in the order in
  which they arrive from the brokers' connections. On one connection this is the order of the
  requests; \<open>MuxSafety\<close> has a run in which the lease moves to another connection in between and the
  order is lost.
\<close>

section \<open>The response task\<close>

text \<open>The outcomes of the task's \<open>select!\<close>: a response from the channel with the result of the
  downstream \<open>send\<close>, the closed channel, the flush timer with its result.\<close>

datatype resp_event =
    RespFrame bytes bool
  | RespClosed
  | RespTick bool

record resp_state =
  rs_down :: "bytes list"
  rs_flushed :: nat
  rs_needs_flush :: bool
  rs_running :: bool

definition resp_start :: resp_state where
  "resp_start = \<lparr>rs_down = [], rs_flushed = 0, rs_needs_flush = False, rs_running = True\<rparr>"

fun resp_step :: "resp_event \<Rightarrow> resp_state \<Rightarrow> resp_state" where
  "resp_step (RespFrame frame send_ok) s =
     (if \<not> send_ok then s\<lparr>rs_running := False\<rparr>
      else s\<lparr>rs_down := rs_down s @ [frame], rs_needs_flush := True\<rparr>)"
| "resp_step RespClosed s = s\<lparr>rs_flushed := length (rs_down s), rs_running := False\<rparr>"
| "resp_step (RespTick flush_ok) s =
     (if rs_needs_flush s then
        (if \<not> flush_ok then s\<lparr>rs_running := False\<rparr>
         else s\<lparr>rs_flushed := length (rs_down s), rs_needs_flush := False\<rparr>)
      else s)"

definition resp_exec :: "resp_event \<Rightarrow> resp_state \<Rightarrow> resp_state" where
  "resp_exec e s = (if rs_running s then resp_step e s else s)"

definition resp_run :: "resp_event list \<Rightarrow> resp_state" where
  "resp_run es = fold resp_exec es resp_start"

fun resp_item :: "resp_event \<Rightarrow> bytes list" where
  "resp_item (RespFrame frame _) = [frame]"
| "resp_item _ = []"

interpretation client_writes: fifo_task resp_exec rs_down rs_running resp_item "(=)"
proof
  show "\<exists>xs ys os. resp_item e = xs @ ys \<and> rs_down (resp_exec e s) = rs_down s @ os \<and> list_all2 (=) xs os \<and>
      (rs_running (resp_exec e s) \<longrightarrow> ys = [])" if "rs_running s" for s e
    using that by (cases e) (auto simp: resp_exec_def)
qed (simp add: resp_exec_def)

text \<open>Nothing is left unflushed once the flag is clear or the channel has closed.\<close>

definition resp_flushed :: "resp_state \<Rightarrow> bool" where
  "resp_flushed s \<longleftrightarrow> rs_running s \<and> \<not> rs_needs_flush s \<longrightarrow> rs_flushed s = length (rs_down s)"

lemma resp_flushed_run: "resp_flushed (resp_run es)"
proof -
  have step: "resp_flushed s \<Longrightarrow> resp_flushed (resp_exec e s)" for e s
    by (cases e) (auto simp: resp_flushed_def resp_exec_def)
  have "resp_flushed s \<Longrightarrow> resp_flushed (fold resp_exec es s)" for s
    by (induction es arbitrary: s) (simp_all add: step)
  then show ?thesis by (simp add: resp_run_def resp_flushed_def resp_start_def)
qed

section \<open>The queue of a reply channel\<close>

text \<open>A response on its way: when it is read, its frame, the id it carries and the route registered
  for the id.\<close>

record arrival =
  ar_at :: instant
  ar_data :: bytes
  ar_cid :: i32
  ar_entry :: route_entry

definition expected :: "reader_state \<Rightarrow> channel \<Rightarrow> arrival \<Rightarrow> bool" where
  "expected s tx x \<longleftrightarrow> parse_response_cid (ar_data x) = Some (ar_cid x)
     \<and> dm_get (remap_map (rd_remap s)) (ar_cid x) = Some (ar_entry x) \<and> re_downstream_tx (ar_entry x) = tx"

definition arriving :: "arrival list \<Rightarrow> (instant \<times> bytes) list" where
  "arriving xs = map (\<lambda>x. (ar_at x, ar_data x)) xs"

lemma read_loop_Cons: "read_loop P rw (f # fs) s = read_loop P rw fs (read_loop_step P rw (fst f) (snd f) s)"
  by (simp add: read_loop_def case_prod_beta)

lemma read_loop_step_found:
  assumes "expected s tx x" and "ch_open (rd_chans s tx)"
    and "length (ch_queue (rd_chans s tx)) < ch_capacity (rd_chans s tx)"
  shows "rd_remap (read_loop_step P rw now (ar_data x) s) =
      (rd_remap s)\<lparr>remap_map := dm_remove (ar_cid x) (remap_map (rd_remap s))\<rparr>"
    and "rd_chans (read_loop_step P rw now (ar_data x) s) tx =
      (rd_chans s tx)\<lparr>ch_queue := ch_queue (rd_chans s tx) @ [route_response P (ar_data x) (ar_entry x) rw]\<rparr>"
  using assms
  by (simp_all add: expected_def read_loop_step_def remap_take_def try_send_def Let_def)

lemma read_loop_queue:
  assumes "remap_inv (rd_remap s)" and "distinct (map ar_cid xs)" and "list_all (expected s tx) xs"
    and "ch_open (rd_chans s tx)"
    and "length (ch_queue (rd_chans s tx)) + length xs \<le> ch_capacity (rd_chans s tx)"
  shows "ch_queue (rd_chans (read_loop P rw (arriving xs) s) tx) =
    ch_queue (rd_chans s tx) @ map (\<lambda>x. route_response P (ar_data x) (ar_entry x) rw) xs"
  using assms
proof (induction xs arbitrary: s)
  case (Cons x xs)
  let ?s = "read_loop_step P rw (ar_at x) (ar_data x) s"
  have x: "expected s tx x" and room: "length (ch_queue (rd_chans s tx)) < ch_capacity (rd_chans s tx)"
    using Cons.prems by auto
  note found = read_loop_step_found[OF x Cons.prems(4) room, where P = P and rw = rw and now = "ar_at x"]
  have inv: "dm_inv (remap_map (rd_remap s))" using Cons.prems(1) by (simp add: remap_inv_def)
  have "list_all (expected ?s tx) xs"
    using Cons.prems(2,3) by (auto simp: list_all_iff expected_def found(1) dm.get_rem[OF inv] rev_image_eqI)
  moreover have "remap_inv (rd_remap ?s)" using inv by (simp add: found(1) remap_inv_def dm.inv_rem)
  ultimately show ?case
    using Cons.IH[of ?s] Cons.prems by (simp add: arriving_def read_loop_Cons found(2))
qed (simp add: arriving_def read_loop_def)

section \<open>Two requests of one client\<close>

definition order_request :: "i32 \<Rightarrow> bytes" where
  "order_request cid = put_i16 1 @ put_i16 11 @ put_i32 cid @ [0]"

lemma order_request_header: "parse_request_header (order_request cid) = Some (1, 11, cid)"
  unfolding parse_request_header_Some order_request_def by blast

definition order_entry :: "i32 \<Rightarrow> instant \<Rightarrow> conn_id \<Rightarrow> route_entry" where
  "order_entry cid started conn = \<lparr>re_downstream_tx = 0, re_cid_d = cid, re_api_key = 1, re_api_version = 11,
     re_started = started, re_conn_id = conn\<rparr>"

definition order_arrivals :: "instant \<Rightarrow> instant \<Rightarrow> bytes \<Rightarrow> bytes \<Rightarrow> arrival list" where
  "order_arrivals t t' b b' =
     [\<lparr>ar_at = t, ar_data = put_i32 3 @ b, ar_cid = 3, ar_entry = order_entry 2 LEASE_DURATION 2\<rparr>,
      \<lparr>ar_at = t', ar_data = put_i32 2 @ b', ar_cid = 2, ar_entry = order_entry 1 50 1\<rparr>]"

lemma order_arrivals_distinct: "distinct (map ar_cid (order_arrivals t t' b b'))"
  by (simp add: order_arrivals_def)

lemma order_arrivals_expected:
  "remap_map (rd_remap r) = [(3, order_entry 2 LEASE_DURATION 2), (2, order_entry 1 50 1)] \<Longrightarrow>
     list_all (expected r 0) (order_arrivals t t' b b')"
  by (simp add: order_arrivals_def expected_def dm_get_def order_entry_def)

lemma order_table_inv:
  "remap_map r = [(3, order_entry 2 LEASE_DURATION 2), (2, order_entry 1 50 1)] \<Longrightarrow> remap_inv r"
  by (simp add: remap_inv_def dm_inv_def)

section \<open>Properties\<close>

text \<open>C8: A pooled client reads the responses to its requests in the order in which they arrive from
  the brokers' connections, each once and under the id of its own request. For arrivals that answer
  distinct registered requests of this client, into an open and empty reply channel that has room for
  all of them: what the response task has written is a prefix of them, and while it runs it has written
  all that it has taken from the channel. (A response that finds the channel full is dropped.)\<close>

theorem responses_in_arrival_order:
  assumes "remap_inv (rd_remap s)" and "distinct (map ar_cid xs)" and "list_all (expected s tx) xs"
    and "ch_open (rd_chans s tx)" and "ch_queue (rd_chans s tx) = []" and "length xs \<le> ch_capacity (rd_chans s tx)"
    and "concat (map resp_item es) @ unread = ch_queue (rd_chans (read_loop P rw (arriving xs) s) tx)"
  shows "\<exists>lost. map (\<lambda>x. route_response P (ar_data x) (ar_entry x) rw) xs = rs_down (resp_run es) @ lost @ unread
    \<and> (rs_running (resp_run es) \<longrightarrow> lost = [])
    \<and> map parse_response_cid (rs_down (resp_run es)) =
        map (\<lambda>x. Some (re_cid_d (ar_entry x))) (take (length (rs_down (resp_run es))) xs)
    \<and> (rs_running (resp_run es) \<and> \<not> rs_needs_flush (resp_run es) \<longrightarrow>
        rs_flushed (resp_run es) = length (rs_down (resp_run es)))"
proof -
  let ?route = "\<lambda>x. route_response P (ar_data x) (ar_entry x) rw"
  obtain lost where "concat (map resp_item es) = rs_down (resp_run es) @ lost"
    and run: "rs_running (resp_run es) \<longrightarrow> lost = []"
    using client_writes.in_order[of resp_start es] by (auto simp: resp_run_def resp_start_def list.rel_eq)
  then have q: "map ?route xs = rs_down (resp_run es) @ lost @ unread"
    using read_loop_queue[OF assms(1-4), where P = P and rw = rw] assms(5-7) by simp
  then have "take (length (rs_down (resp_run es))) (map ?route xs) = rs_down (resp_run es)" by simp
  then have down: "rs_down (resp_run es) = map ?route (take (length (rs_down (resp_run es))) xs)"
    by (simp only: take_map)
  have "map parse_response_cid (map ?route ys) = map (\<lambda>x. Some (re_cid_d (ar_entry x))) ys" for ys
    by (simp add: route_response_cid)
  then have "map parse_response_cid (rs_down (resp_run es)) =
      map (\<lambda>x. Some (re_cid_d (ar_entry x))) (take (length (rs_down (resp_run es))) xs)"
    by (subst down)
  then show ?thesis using q run resp_flushed_run[of es] by (auto simp: resp_flushed_def)
qed

theorem responses_in_arrival_order_witness:
  "map parse_response_cid (rs_down (resp_run [RespFrame (put_i32 2 @ drop 4 (put_i32 3 @ [7])) True, RespTick True])) = [Some 2]"
proof -
  let ?s = "\<lparr>rd_remap = (with_max_in_flight 8)\<lparr>next_cid := 3,
       remap_map := [(3, order_entry 2 LEASE_DURATION 2), (2, order_entry 1 50 1)]\<rparr>, rd_metrics = metrics_new True,
     rd_chans = \<lambda>_. \<lparr>ch_queue = [], ch_capacity = 256, ch_open = True\<rparr>\<rparr>"
  let ?xs = "order_arrivals 60 70 [7] [8]"
  let ?es = "[RespFrame (put_i32 2 @ drop 4 (put_i32 3 @ [7])) True, RespTick True]"
  have tab: "remap_map (rd_remap ?s) = [(3, order_entry 2 LEASE_DURATION 2), (2, order_entry 1 50 1)]" by simp
  note ex = order_table_inv[OF tab] order_arrivals_distinct order_arrivals_expected[OF tab]
  have rr: "rewrite_response demo_protocol 1 11 d demo_rewrite = None" for d
    by (rule rewrite_response_needs) (simp add: needs_rewrite_def api_keys)
  have q: "ch_queue (rd_chans (read_loop demo_protocol demo_rewrite (arriving ?xs) ?s) 0) =
      [put_i32 2 @ drop 4 (put_i32 3 @ [7]), put_i32 1 @ drop 4 (put_i32 2 @ [8])]"
    using read_loop_queue[OF ex(1) ex(2,3)[of 60 70 "[7]" "[8]"], of demo_protocol demo_rewrite]
    by (simp add: order_arrivals_def route_response_def order_entry_def rr)
  have "rs_down (resp_run ?es) = [put_i32 2 @ drop 4 (put_i32 3 @ [7])]"
    by (simp add: resp_run_def resp_exec_def resp_start_def)
  then show ?thesis
    using responses_in_arrival_order[OF ex(1) ex(2,3)[of 60 70 "[7]" "[8]"], of ?es "[put_i32 1 @ drop 4 (put_i32 2 @ [8])]" demo_protocol demo_rewrite] q
    by (simp add: order_arrivals_def order_entry_def)
qed

end
