(* ===== verification/Mux.thy ===== *)
theory Mux
  imports PoolSystem PooledOrder
begin

text \<open>
  Pooled mode as one system: any number of clients and brokers, the request task and the response
  task of every client's \<open>PooledRelay\<close> (\<open>src/src/relay.rs\<close>), the pools, the write and the read
  loop of every upstream connection and the one table of requests they share (\<open>src/src/pool.rs\<close>).
  An action is what one task does between two points at which another can come in, or what a client
  or a broker does; it is built from the functions of \<open>Pool\<close>, \<open>PoolSystem\<close>, \<open>Relay\<close> and
  \<open>PooledOrder\<close>. The tasks run on several threads: a task can be interrupted between two operations
  on the shared table, so the limit check, the allocation of an id, the insertion of the entry and
  the counting are actions of their own, and so are the two length reads of a connection's clean-up,
  and the look-up and the delivery of a response. Updates of the metrics in a row are one action;
  no task reads them. A client's number is also the number of its reply channel.
\<close>

section \<open>State\<close>

type_synonym client = nat
type_synonym broker = nat
type_synonym request_header = "i16 \<times> i16 \<times> i32"

text \<open>A write channel's number identifies a connection within its pool.\<close>

type_synonym conn_key = "broker \<times> channel"

text \<open>Where a request task is: waiting for a frame, before the lease check, in \<open>acquire\<close>, about to
  register; below the limit, with an id, with an entry in the table; about to send what it
  registered; with a cancelled request to count out; returning (with a lease to give back, if any),
  gone.\<close>

datatype relay_pc =
    RlRead
  | RlGot bytes request_header
  | RlAcquire bytes request_header
  | RlReady bytes request_header
  | RlChecked bytes request_header
  | RlAlloc bytes request_header i32 acquired
  | RlCount bytes i32 acquired
  | RlSend bytes i32 acquired
  | RlUncount
  | RlClose
  | RlDone

text \<open>An upstream connection: its id, the write channel, the write loop, the responses the broker has
  sent and the loop has not read, the channel to the read loop, the response the read loop has in
  hand with its id and entry, and how far the end of the write loop has come: the length of the
  table before the clean-up, the entries are removed, the clean-up has run, the write channel is
  closed.\<close>

record mux_conn =
  mc_id :: "conn_id option"
  mc_queue :: "bytes list"
  mc_wl :: wl_state
  mc_wire :: "bytes list"
  mc_read :: "bytes list"
  mc_held :: "(bytes \<times> i32 \<times> route_entry) option"
  mc_before :: "nat option"
  mc_swept :: bool
  mc_cleaned :: bool
  mc_closed :: bool

text \<open>The table and the metrics that all pools share are kept beside them. \<open>mx_sent\<close> and
  \<open>mx_issued\<close> are history: the frames a client has sent, and the ids handed out with the client
  and the request they were for. No action reads them.\<close>

record mux =
  mx_pools :: "broker \<Rightarrow> pool_sys"
  mx_remap :: cid_remap
  mx_metrics :: metrics
  mx_broker :: "client \<Rightarrow> broker"
  mx_pc :: "client \<Rightarrow> relay_pc"
  mx_deadline :: "client \<Rightarrow> instant"
  mx_conn :: "conn_key \<Rightarrow> mux_conn"
  mx_chans :: "channel \<Rightarrow> chan"
  mx_resp :: "client \<Rightarrow> resp_state"
  mx_sent :: "client \<Rightarrow> bytes list"
  mx_issued :: "(i32 \<times> client \<times> bytes) list"

text \<open>The capacities of the write channel and of the channel to the read loop.\<close>

definition WRITE_CAPACITY :: nat where "WRITE_CAPACITY = 256"
definition READ_CAPACITY :: nat where "READ_CAPACITY = 64"
definition REPLY_CAPACITY :: nat where "REPLY_CAPACITY = 256"

definition conn_start :: "conn_id option \<Rightarrow> metrics \<Rightarrow> mux_conn" where
  "conn_start cid m =
     \<lparr>mc_id = cid, mc_queue = [],
      mc_wl = \<lparr>wl_sent = [], wl_flushed = 0, wl_needs_flush = False, wl_fwd = [], wl_metrics = m, wl_running = True\<rparr>,
      mc_wire = [], mc_read = [], mc_held = None, mc_before = None, mc_swept = False, mc_cleaned = False, mc_closed = False\<rparr>"

text \<open>A pool with the shared table and metrics in place, and the way back.\<close>

definition pool_view :: "broker \<Rightarrow> mux \<Rightarrow> pool_sys" where
  "pool_view b s = (mx_pools s b)
     \<lparr>ps_pool := (ps_pool (mx_pools s b))\<lparr>bp_remap := mx_remap s, bp_metrics := mx_metrics s\<rparr>\<rparr>"

definition pool_commit :: "broker \<Rightarrow> pool_sys \<Rightarrow> mux \<Rightarrow> mux" where
  "pool_commit b ps s = s\<lparr>mx_pools := (mx_pools s)(b := ps),
     mx_remap := bp_remap (ps_pool ps), mx_metrics := bp_metrics (ps_pool ps)\<rparr>"

text \<open>The lease of a client's request task.\<close>

definition lease :: "client \<Rightarrow> mux \<Rightarrow> acquired option" where
  "lease i s = (case ps_pc (mx_pools s (mx_broker s i)) i of PcHold a \<Rightarrow> Some a | _ \<Rightarrow> None)"

definition set_pc :: "client \<Rightarrow> relay_pc \<Rightarrow> mux \<Rightarrow> mux" where
  "set_pc i pc s = s\<lparr>mx_pc := (mx_pc s)(i := pc)\<rparr>"

definition set_conn :: "conn_key \<Rightarrow> mux_conn \<Rightarrow> mux \<Rightarrow> mux" where
  "set_conn k c s = s\<lparr>mx_conn := (mx_conn s)(k := c)\<rparr>"

section \<open>Actions\<close>

datatype mux_action =
    MxFrame client bytes
  | MxHangup client
  | MxCheck client instant
  | MxAcquire client pool_action instant
  | MxRegister client
  | MxAlloc client
  | MxInsert client instant
  | MxCount client
  | MxSend client
  | MxSendFailed client
  | MxUncount client
  | MxLeave client instant
  | MxReap broker instant
  | MxTake conn_key bool
  | MxAnswer conn_key bytes
  | MxFetch conn_key bool
  | MxLoop conn_key wl_event
  | MxCleanup conn_key
  | MxRetain conn_key
  | MxRemoved conn_key bool
  | MxShut conn_key
  | MxRoute conn_key
  | MxDeliver conn_key instant
  | MxReply client bool
  | MxTick client bool
  | MxDrained client

subsection \<open>The request task\<close>

definition exec_frame :: "client \<Rightarrow> bytes \<Rightarrow> mux \<Rightarrow> mux option" where
  "exec_frame i data s =
     (case mx_pc s i of
        RlRead \<Rightarrow>
          (let s = s\<lparr>mx_metrics := add_bytes_downstream (of_nat (length data)) (inc_frames_downstream (mx_metrics s)),
                     mx_sent := (mx_sent s)(i := mx_sent s i @ [data])\<rparr>
           in case parse_request_header data of
                None \<Rightarrow> Some s
              | Some hdr \<Rightarrow> Some (set_pc i (RlGot data hdr) s))
      | _ \<Rightarrow> None)"

text \<open>A release by the request task, if it holds a lease.\<close>

definition give_back :: "client \<Rightarrow> instant \<Rightarrow> mux \<Rightarrow> mux option" where
  "give_back i now s =
     (case lease i s of
        None \<Rightarrow> Some s
      | Some _ \<Rightarrow>
          map_option (\<lambda>ps. pool_commit (mx_broker s i) ps s)
            (pool_exec (ActRelease i now) (pool_view (mx_broker s i) s)))"

definition exec_check :: "client \<Rightarrow> instant \<Rightarrow> mux \<Rightarrow> mux option" where
  "exec_check i now s =
     (case mx_pc s i of
        RlGot data hdr \<Rightarrow>
          (if lease i s = None \<or> mx_deadline s i \<le> now
           then map_option (set_pc i (RlAcquire data hdr)) (give_back i now s)
           else Some (set_pc i (RlReady data hdr) s))
      | _ \<Rightarrow> None)"

text \<open>The sections of \<open>acquire\<close>. The channel of a new connection is new, so the connection is as it
  was at the start but for its id; an error ends the task.\<close>

fun acquire_section :: "client \<Rightarrow> pool_action \<Rightarrow> bool" where
  "acquire_section i (ActStart t) \<longleftrightarrow> t = i"
| "acquire_section i (ActIdle t _) \<longleftrightarrow> t = i"
| "acquire_section i (ActReserve t _) \<longleftrightarrow> t = i"
| "acquire_section i (ActCreate t _ _) \<longleftrightarrow> t = i"
| "acquire_section i (ActEnqueue t _) \<longleftrightarrow> t = i"
| "acquire_section i (ActNotified t _) \<longleftrightarrow> t = i"
| "acquire_section i (ActTimeout t) \<longleftrightarrow> t = i"
| "acquire_section i _ \<longleftrightarrow> False"

fun is_create :: "pool_action \<Rightarrow> bool" where
  "is_create (ActCreate _ _ _) \<longleftrightarrow> True"
| "is_create _ \<longleftrightarrow> False"

definition exec_acquire :: "client \<Rightarrow> pool_action \<Rightarrow> instant \<Rightarrow> mux \<Rightarrow> mux option" where
  "exec_acquire i a now s =
     (case mx_pc s i of
        RlAcquire data hdr \<Rightarrow>
          (if acquire_section i a then
             (let b = mx_broker s i in
              case pool_exec a (pool_view b s) of
                None \<Rightarrow> None
              | Some ps \<Rightarrow>
                  (let s = pool_commit b ps s in
                   case ps_pc ps i of
                     PcHold q \<Rightarrow>
                       (let k = (b, acq_write_tx q);
                            s = (if is_create a then set_conn k ((mx_conn s k)\<lparr>mc_id := Some (acq_conn_id q)\<rparr>) s else s)
                        in Some (set_pc i (RlReady data hdr) (s\<lparr>mx_deadline := (mx_deadline s)(i := now + LEASE_DURATION)\<rparr>)))
                   | PcNone \<Rightarrow> Some (set_pc i RlDone s)
                   | _ \<Rightarrow> Some s))
           else None)
      | _ \<Rightarrow> None)"

text \<open>\<open>insert\<close>: the limit check, the id, the entry; then both gauges.\<close>

definition exec_register :: "client \<Rightarrow> mux \<Rightarrow> mux option" where
  "exec_register i s =
     (case mx_pc s i of
        RlReady data hdr \<Rightarrow>
          Some (set_pc i (if insert_check (mx_remap s) then RlChecked data hdr else RlClose) s)
      | _ \<Rightarrow> None)"

definition exec_alloc :: "client \<Rightarrow> mux \<Rightarrow> mux option" where
  "exec_alloc i s =
     (case (mx_pc s i, lease i s) of
        (RlChecked data hdr, Some a) \<Rightarrow>
          (let (u, r) = alloc_cid_u (mx_remap s) in
           Some (set_pc i (RlAlloc data hdr u a) (s\<lparr>mx_remap := r, mx_issued := mx_issued s @ [(u, i, data)]\<rparr>)))
      | _ \<Rightarrow> None)"

definition exec_insert :: "client \<Rightarrow> instant \<Rightarrow> mux \<Rightarrow> mux option" where
  "exec_insert i now s =
     (case mx_pc s i of
        RlAlloc data (k, v, d) u a \<Rightarrow>
          (let entry = \<lparr>re_downstream_tx = i, re_cid_d = d, re_api_key = k, re_api_version = v,
                        re_started = now, re_conn_id = acq_conn_id a\<rparr>
           in Some (set_pc i (RlCount data u a)
                (s\<lparr>mx_remap := (mx_remap s)\<lparr>remap_map := dm_insert u entry (remap_map (mx_remap s))\<rparr>\<rparr>)))
      | _ \<Rightarrow> None)"

definition exec_count :: "client \<Rightarrow> mux \<Rightarrow> mux option" where
  "exec_count i s =
     (case mx_pc s i of
        RlCount data u a \<Rightarrow>
          Some (set_pc i (RlSend data u a) (s\<lparr>mx_metrics := inc_requests_in_flight (inc_cid_map_entries (mx_metrics s))\<rparr>))
      | _ \<Rightarrow> None)"

definition exec_send :: "client \<Rightarrow> mux \<Rightarrow> mux option" where
  "exec_send i s =
     (case mx_pc s i of
        RlSend data u a \<Rightarrow>
          (let k = (mx_broker s i, acq_write_tx a); c = mx_conn s k in
           if \<not> mc_closed c \<and> length (mc_queue c) < WRITE_CAPACITY
           then Some (set_pc i RlRead (set_conn k (c\<lparr>mc_queue := mc_queue c @ [upstream_frame u data]\<rparr>) s))
           else None)
      | _ \<Rightarrow> None)"

text \<open>The channel is closed: the entry is taken out again, if it is still there, and the lease dropped.\<close>

definition exec_send_failed :: "client \<Rightarrow> mux \<Rightarrow> mux option" where
  "exec_send_failed i s =
     (case mx_pc s i of
        RlSend data u a \<Rightarrow>
          (let b = mx_broker s i; ps = pool_view b s; table = remap_map (mx_remap s) in
           if mc_closed (mx_conn s (b, acq_write_tx a))
           then Some (set_pc i (if dm_get table u = None then RlDone else RlUncount)
                  ((pool_commit b (goto i PcNone (ps_pool ps) ps) s)
                     \<lparr>mx_remap := (mx_remap s)\<lparr>remap_map := dm_remove u table\<rparr>\<rparr>))
           else None)
      | _ \<Rightarrow> None)"

definition exec_uncount :: "client \<Rightarrow> mux \<Rightarrow> mux option" where
  "exec_uncount i s =
     (case mx_pc s i of
        RlUncount \<Rightarrow>
          Some (set_pc i RlDone (s\<lparr>mx_metrics := dec_requests_in_flight (dec_cid_map_entries (mx_metrics s))\<rparr>))
      | _ \<Rightarrow> None)"

definition exec_leave :: "client \<Rightarrow> instant \<Rightarrow> mux \<Rightarrow> mux option" where
  "exec_leave i now s =
     (case mx_pc s i of RlClose \<Rightarrow> map_option (set_pc i RlDone) (give_back i now s) | _ \<Rightarrow> None)"

subsection \<open>The tasks of a connection\<close>

text \<open>A step of a write loop, which counts in the shared metrics.\<close>

definition loop_step :: "wl_event \<Rightarrow> mux_conn \<Rightarrow> metrics \<Rightarrow> mux_conn \<times> metrics" where
  "loop_step e c m =
     (let w = write_loop_step e ((mc_wl c)\<lparr>wl_metrics := m\<rparr>) in (c\<lparr>mc_wl := w\<rparr>, wl_metrics w))"

definition exec_take :: "conn_key \<Rightarrow> bool \<Rightarrow> mux \<Rightarrow> mux option" where
  "exec_take k ok s =
     (let c = mx_conn s k in
      case mc_queue c of
        frame # rest \<Rightarrow>
          (if wl_running (mc_wl c) then
             (let (c, m) = loop_step (WlRequest frame ok) (c\<lparr>mc_queue := rest\<rparr>) (mx_metrics s)
              in Some (set_conn k c (s\<lparr>mx_metrics := m\<rparr>)))
           else None)
      | [] \<Rightarrow> None)"

text \<open>What a broker sends is up to it: \<open>broker resp c\<close> says whether the broker at the other end of \<open>c\<close>
  can send \<open>resp\<close>. A broker that keeps to the Kafka protocol answers requests it has received on the
  connection, with their ids; how often and in which order is not restricted.\<close>

type_synonym broker_behaviour = "bytes \<Rightarrow> mux_conn \<Rightarrow> bool"

definition answers :: broker_behaviour where
  "answers resp c \<longleftrightarrow>
     list_ex (\<lambda>f. case parse_request_header f of
        Some (k, v, u) \<Rightarrow> parse_response_cid resp = Some u | None \<Rightarrow> False) (wl_sent (mc_wl c))"

definition kafka_broker :: "broker_behaviour \<Rightarrow> bool" where
  "kafka_broker broker \<longleftrightarrow> (\<forall>resp c. broker resp c \<longrightarrow> answers resp c)"

definition exec_answer :: "broker_behaviour \<Rightarrow> conn_key \<Rightarrow> bytes \<Rightarrow> mux \<Rightarrow> mux option" where
  "exec_answer broker k resp s =
     (let c = mx_conn s k in
      if broker resp c then Some (set_conn k (c\<lparr>mc_wire := mc_wire c @ [resp]\<rparr>) s) else None)"

definition exec_fetch :: "conn_key \<Rightarrow> bool \<Rightarrow> mux \<Rightarrow> mux option" where
  "exec_fetch k ok s =
     (let c = mx_conn s k in
      case mc_wire c of
        resp # rest \<Rightarrow>
          (if wl_running (mc_wl c) \<and> length (mc_read c) < READ_CAPACITY then
             (let (c, m) = loop_step (WlFrame resp ok) (c\<lparr>mc_wire := rest\<rparr>) (mx_metrics s);
                  c = (if ok then c\<lparr>mc_read := mc_read c @ [resp]\<rparr> else c)
              in Some (set_conn k c (s\<lparr>mx_metrics := m\<rparr>)))
           else None)
      | [] \<Rightarrow> None)"

text \<open>The other outcomes of the loop's \<open>select!\<close>.\<close>

fun loop_event :: "wl_event \<Rightarrow> bool" where
  "loop_event (WlRequest _ _) \<longleftrightarrow> False"
| "loop_event (WlFrame _ _) \<longleftrightarrow> False"
| "loop_event _ \<longleftrightarrow> True"

definition exec_loop :: "conn_key \<Rightarrow> wl_event \<Rightarrow> mux \<Rightarrow> mux option" where
  "exec_loop k e s =
     (let c = mx_conn s k in
      if loop_event e \<and> wl_running (mc_wl c) then
        (let (c, m) = loop_step e c (mx_metrics s) in Some (set_conn k c (s\<lparr>mx_metrics := m\<rparr>)))
      else None)"

text \<open>The end of a write loop: \<open>fail_conn\<close> with its two length reads, the gauges, and later the closing of
  the write channel. In a build that checks arithmetic (\<open>checks\<close>) a negative difference panics, and
  what is left of the clean-up is skipped.\<close>

definition exec_cleanup :: "conn_key \<Rightarrow> mux \<Rightarrow> mux option" where
  "exec_cleanup k s =
     (let c = mx_conn s k in
      if mc_id c \<noteq> None \<and> \<not> wl_running (mc_wl c) \<and> mc_before c = None
      then Some (set_conn k (c\<lparr>mc_before := Some (dm_len (remap_map (mx_remap s)))\<rparr>) s) else None)"

definition exec_retain :: "conn_key \<Rightarrow> mux \<Rightarrow> mux option" where
  "exec_retain k s =
     (let c = mx_conn s k in
      case mc_id c of
        None \<Rightarrow> None
      | Some conn \<Rightarrow>
          (if mc_before c \<noteq> None \<and> \<not> mc_swept c then
             Some (set_conn k (c\<lparr>mc_swept := True\<rparr>) (s\<lparr>mx_remap := (mx_remap s)\<lparr>remap_map :=
               dm_retain (\<lambda>_ entry. re_conn_id entry \<noteq> conn) (remap_map (mx_remap s))\<rparr>\<rparr>))
           else None))"

definition exec_removed :: "conn_key \<Rightarrow> bool \<Rightarrow> mux \<Rightarrow> mux option" where
  "exec_removed k checks s =
     (let c = mx_conn s k; after = dm_len (remap_map (mx_remap s)) in
      case mc_before c of
        None \<Rightarrow> None
      | Some before \<Rightarrow>
          (if mc_swept c \<and> \<not> mc_cleaned c then
             (let removed = (of_nat before - of_nat after :: u64);
                  count = inc_pool_evictions \<circ> dec_upstream_connections \<circ>
                    (if 0 < removed then sub_requests_in_flight removed else id) \<circ> sub_cid_map_entries removed
              in Some (set_conn k (c\<lparr>mc_cleaned := True\<rparr>)
                   (if checks \<and> before < after then s else s\<lparr>mx_metrics := count (mx_metrics s)\<rparr>)))
           else None))"

definition exec_shut :: "conn_key \<Rightarrow> mux \<Rightarrow> mux option" where
  "exec_shut k s =
     (let c = mx_conn s k in
      if mc_cleaned c then Some (set_conn k (c\<lparr>mc_closed := True\<rparr>) s) else None)"

text \<open>The read loop looks the id of a response up and takes the entry out; then it counts, rewrites and
  delivers. A response that carries no id, or one that is not in the table, is dropped.\<close>

definition exec_route :: "conn_key \<Rightarrow> mux \<Rightarrow> mux option" where
  "exec_route k s =
     (let c = mx_conn s k; table = remap_map (mx_remap s) in
      case mc_read c of
        resp # rest \<Rightarrow>
          (if mc_held c = None then
             (case parse_response_cid resp of
                None \<Rightarrow> Some (set_conn k (c\<lparr>mc_read := rest\<rparr>) s)
              | Some u \<Rightarrow>
                  (case dm_get table u of
                     None \<Rightarrow> Some (set_conn k (c\<lparr>mc_read := rest\<rparr>) s)
                   | Some e \<Rightarrow>
                       Some (set_conn k (c\<lparr>mc_read := rest, mc_held := Some (resp, u, e)\<rparr>)
                         (s\<lparr>mx_remap := (mx_remap s)\<lparr>remap_map := dm_remove u table\<rparr>\<rparr>))))
           else None)
      | [] \<Rightarrow> None)"

definition exec_deliver ::
  "('r1, 'r2, 'r3) kafka_protocol \<Rightarrow> rewrite_map \<Rightarrow> conn_key \<Rightarrow> instant \<Rightarrow> mux \<Rightarrow> mux option" where
  "exec_deliver P rw k now s =
     (let c = mx_conn s k in
      case mc_held c of
        None \<Rightarrow> None
      | Some (resp, u, e) \<Rightarrow>
          Some (set_conn k (c\<lparr>mc_held := None\<rparr>)
            (s\<lparr>mx_metrics := observe_request (as_secs_f64 (now - re_started e))
                 (dec_requests_in_flight (dec_cid_map_entries (mx_metrics s))),
               mx_chans := snd (try_send (re_downstream_tx e) (route_response P resp e rw) (mx_chans s))\<rparr>)))"

subsection \<open>The response task\<close>

text \<open>When the task returns its channel closes, and what is still in it is lost.\<close>

definition resp_after :: "client \<Rightarrow> resp_event \<Rightarrow> mux \<Rightarrow> mux" where
  "resp_after i e s =
     (let r = resp_step e (mx_resp s i); c = mx_chans s i in
      s\<lparr>mx_resp := (mx_resp s)(i := r),
        mx_chans := (mx_chans s)(i := if rs_running r then c else c\<lparr>ch_queue := [], ch_open := False\<rparr>)\<rparr>)"

definition exec_reply :: "client \<Rightarrow> bool \<Rightarrow> mux \<Rightarrow> mux option" where
  "exec_reply i ok s =
     (case ch_queue (mx_chans s i) of
        frame # rest \<Rightarrow>
          (if rs_running (mx_resp s i)
           then Some (resp_after i (RespFrame frame ok)
                  (s\<lparr>mx_chans := (mx_chans s)(i := (mx_chans s i)\<lparr>ch_queue := rest\<rparr>)\<rparr>))
           else None)
      | [] \<Rightarrow> None)"

definition exec_tick :: "client \<Rightarrow> bool \<Rightarrow> mux \<Rightarrow> mux option" where
  "exec_tick i ok s = (if rs_running (mx_resp s i) then Some (resp_after i (RespTick ok) s) else None)"

text \<open>The channel has no sender left: the request task is gone, and so are its entries in the table and
  in the hands of read loops.\<close>

definition held_for :: "client \<Rightarrow> mux_conn \<Rightarrow> bool" where
  "held_for i c \<longleftrightarrow> (case mc_held c of Some (resp, u, e) \<Rightarrow> re_downstream_tx e = i | None \<Rightarrow> False)"

definition exec_drained :: "client \<Rightarrow> mux \<Rightarrow> mux option" where
  "exec_drained i s =
     (if rs_running (mx_resp s i) \<and> mx_pc s i \<in> {RlDone, RlUncount} \<and> ch_queue (mx_chans s i) = []
         \<and> list_all (\<lambda>(u, e). re_downstream_tx e \<noteq> i) (remap_map (mx_remap s))
         \<and> (\<forall>k. \<not> held_for i (mx_conn s k))
      then Some (resp_after i RespClosed s) else None)"

subsection \<open>The system\<close>

fun mux_exec ::
  "('r1, 'r2, 'r3) kafka_protocol \<Rightarrow> rewrite_map \<Rightarrow> broker_behaviour \<Rightarrow> mux_action \<Rightarrow> mux \<Rightarrow> mux option" where
  "mux_exec P rw br (MxFrame i data) s = exec_frame i data s"
| "mux_exec P rw br (MxHangup i) s = (if mx_pc s i = RlRead then Some (set_pc i RlClose s) else None)"
| "mux_exec P rw br (MxCheck i now) s = exec_check i now s"
| "mux_exec P rw br (MxAcquire i a now) s = exec_acquire i a now s"
| "mux_exec P rw br (MxRegister i) s = exec_register i s"
| "mux_exec P rw br (MxAlloc i) s = exec_alloc i s"
| "mux_exec P rw br (MxInsert i now) s = exec_insert i now s"
| "mux_exec P rw br (MxCount i) s = exec_count i s"
| "mux_exec P rw br (MxSend i) s = exec_send i s"
| "mux_exec P rw br (MxSendFailed i) s = exec_send_failed i s"
| "mux_exec P rw br (MxUncount i) s = exec_uncount i s"
| "mux_exec P rw br (MxLeave i now) s = exec_leave i now s"
| "mux_exec P rw br (MxReap b now) s =
     map_option (\<lambda>ps. pool_commit b ps s) (pool_exec (ActReap now) (pool_view b s))"
| "mux_exec P rw br (MxTake k ok) s = exec_take k ok s"
| "mux_exec P rw br (MxAnswer k resp) s = exec_answer br k resp s"
| "mux_exec P rw br (MxFetch k ok) s = exec_fetch k ok s"
| "mux_exec P rw br (MxLoop k e) s = exec_loop k e s"
| "mux_exec P rw br (MxCleanup k) s = exec_cleanup k s"
| "mux_exec P rw br (MxRetain k) s = exec_retain k s"
| "mux_exec P rw br (MxRemoved k checks) s = exec_removed k checks s"
| "mux_exec P rw br (MxShut k) s = exec_shut k s"
| "mux_exec P rw br (MxRoute k) s = exec_route k s"
| "mux_exec P rw br (MxDeliver k now) s = exec_deliver P rw k now s"
| "mux_exec P rw br (MxReply i ok) s = exec_reply i ok s"
| "mux_exec P rw br (MxTick i ok) s = exec_tick i ok s"
| "mux_exec P rw br (MxDrained i) s = exec_drained i s"

inductive mux_step ::
  "('r1, 'r2, 'r3) kafka_protocol \<Rightarrow> rewrite_map \<Rightarrow> broker_behaviour \<Rightarrow> mux \<Rightarrow> mux \<Rightarrow> bool"
  for P :: "('r1, 'r2, 'r3) kafka_protocol" and rw :: rewrite_map and br :: broker_behaviour where
  mux_act: "mux_exec P rw br a s = Some s' \<Longrightarrow> mux_step P rw br s s'"

inductive_cases mux_stepE: "mux_step P rw br s s'"

text \<open>After the start: an empty table and gauges at zero, warm connections known by their ids, no
  lease, nothing read or sent.\<close>

definition mux_start :: "mux \<Rightarrow> bool" where
  "mux_start s \<longleftrightarrow>
     remap_map (mx_remap s) = dm_new \<and> next_cid (mx_remap s) = 1
     \<and> requests_in_flight (mx_metrics s) = 0 \<and> cid_map_entries (mx_metrics s) = 0
     \<and> (\<forall>b i. ps_pc (mx_pools s b) i = PcNone)
     \<and> (\<forall>k. mx_conn s k = conn_start (mc_id (mx_conn s k)) (wl_metrics (mc_wl (mx_conn s k))))
     \<and> (\<forall>b. \<forall>c \<in> set (bp_idle (ps_pool (mx_pools s b))). mc_id (mx_conn s (b, pc_write_tx c)) = Some (pc_conn_id c))
     \<and> (\<forall>i. mx_pc s i = RlRead \<and> mx_resp s i = resp_start \<and> mx_sent s i = []
          \<and> mx_chans s i = \<lparr>ch_queue = [], ch_capacity = REPLY_CAPACITY, ch_open = True\<rparr>)
     \<and> mx_issued s = []"

text \<open>A run of actions, for examples.\<close>

fun mux_run ::
  "('r1, 'r2, 'r3) kafka_protocol \<Rightarrow> rewrite_map \<Rightarrow> broker_behaviour \<Rightarrow> mux_action list \<Rightarrow> mux \<Rightarrow> mux option" where
  "mux_run P rw br [] s = Some s"
| "mux_run P rw br (a # as) s = Option.bind (mux_exec P rw br a s) (mux_run P rw br as)"

lemma mux_run_reach:
  "mux_run P rw br as s = Some s' \<Longrightarrow> reach init (mux_step P rw br) s \<Longrightarrow> reach init (mux_step P rw br) s'"
proof (induction as arbitrary: s)
  case (Cons a as)
  then obtain t where t: "mux_exec P rw br a s = Some t" "mux_run P rw br as t = Some s'"
    by (auto simp: bind_eq_Some_conv)
  show ?case by (rule Cons.IH[OF t(2) reach_step[OF Cons.prems(2) mux_act[OF t(1)]]])
qed simp

text \<open>The updates of the shared state and of the tables of tasks.\<close>

lemmas mux_updates = set_pc_def set_conn_def pool_commit_def pool_view_def

text \<open>Between a client's frame and its write channel nothing is lost by cutting the request task into
  sections: run without interruption under a live lease they do what \<open>pooled_step\<close> does.\<close>

lemma request_sections:
  assumes "mx_pc s i = RlRead" and "lease i s = Some a" and "now < mx_deadline s i"
    and "parse_request_header data = Some (k, v, d)"
    and "in_flight (mx_remap s) < remap_limit (mx_remap s)"
    and "c = mx_conn s (mx_broker s i, acq_write_tx a)" and "\<not> mc_closed c" and "length (mc_queue c) < WRITE_CAPACITY"
    and "pr_pool r = ps_pool (pool_view (mx_broker s i) s)" and "pr_resp_tx r = i" and "pr_lease r = Some a"
    and "pr_deadline r = mx_deadline s i"
    and "pooled_step envs now now True (PrFrame data) r = Some r'"
  shows "\<exists>s' frame. mux_run P rw br
      [MxFrame i data, MxCheck i now, MxRegister i, MxAlloc i, MxInsert i now, MxCount i, MxSend i] s = Some s'
    \<and> pr_sent r' = pr_sent r @ [(acq_write_tx a, frame)]
    \<and> mc_queue (mx_conn s' (mx_broker s i, acq_write_tx a)) = mc_queue c @ [frame]
    \<and> mx_remap s' = bp_remap (pr_pool r') \<and> mx_metrics s' = bp_metrics (pr_pool r') \<and> mx_pc s' i = RlRead"
proof -
  let ?m = "add_bytes_downstream (of_nat (length data)) (inc_frames_downstream (mx_metrics s))"
  obtain u rm m where ins: "remap_insert i d k v (acq_conn_id a) now (mx_remap s) ?m = (Some u, rm, m)"
    using assms(5) by (auto simp: remap_insert_Some)
  have l: "lease i (s\<lparr>mx_metrics := x, mx_sent := y, mx_pc := z\<rparr>) = Some a" for x y z
    using assms(2) by (simp add: lease_def)
  have chk: "insert_check (mx_remap s)" using assms(5) by (simp add: insert_check_def in_flight_def)
  have "\<not> lease_expired now r" using assms(3,11,12) by (simp add: lease_expired_def)
  note fw = assms(13)[unfolded forwarded[OF assms(4,11) this], unfolded option.inject, symmetric]
  have r': "pr_sent r' = pr_sent r @ [(acq_write_tx a, upstream_frame u data)]"
    "bp_remap (pr_pool r') = rm" "bp_metrics (pr_pool r') = inc_requests_in_flight m"
    unfolding fw using ins
    by (auto simp: assms(9,10) forward_request_def register_request_def Let_def pool_view_def)
  show ?thesis
    using assms(1-8) ins r'
    by (simp add: exec_frame_def exec_check_def exec_register_def exec_alloc_def exec_insert_def exec_count_def
        exec_send_def Let_def mux_updates l chk remap_insert_Some alloc_cid_u_def)
qed

text \<open>The same for a response, for a request whose connection is closed and for a clean-up: without
  interruption the sections do what \<open>read_loop_step\<close>, \<open>cancel_request\<close> and \<open>write_loop_exit\<close> do.\<close>

lemma response_sections:
  assumes "mc_read (mx_conn s k) = resp # rest" and "mc_held (mx_conn s k) = None"
    and "parse_response_cid resp = Some u" and "dm_get (remap_map (mx_remap s)) u = Some e"
    and "r = read_loop_step P rw now resp \<lparr>rd_remap = mx_remap s, rd_metrics = mx_metrics s, rd_chans = mx_chans s\<rparr>"
  shows "\<exists>s'. mux_run P rw br [MxRoute k, MxDeliver k now] s = Some s'
    \<and> mx_remap s' = rd_remap r \<and> mx_metrics s' = rd_metrics r \<and> mx_chans s' = rd_chans r
    \<and> mc_read (mx_conn s' k) = rest \<and> mc_held (mx_conn s' k) = None"
  using assms
  by (simp add: exec_route_def exec_deliver_def set_conn_def read_loop_step_def remap_take_def Let_def case_prod_beta)

lemma cancel_sections:
  assumes "mx_pc s i = RlSend data u a" and "mc_closed (mx_conn s (mx_broker s i, acq_write_tx a))"
    and "p = cancel_request u (ps_pool (pool_view (mx_broker s i) s))"
  shows "\<exists>s'. mux_run P rw br (MxSendFailed i # (if dm_get (remap_map (mx_remap s)) u = None then [] else [MxUncount i])) s = Some s'
    \<and> mx_remap s' = bp_remap p \<and> mx_metrics s' = bp_metrics p \<and> mx_pc s' i = RlDone \<and> lease i s' = None"
  using assms
  by (auto simp: exec_send_failed_def exec_uncount_def cancel_request_def remap_take_def mux_updates goto_def
      lease_def Let_def split: prod.splits option.splits)

lemma cleanup_sections:
  assumes "mc_id (mx_conn s k) = Some conn" and "\<not> wl_running (mc_wl (mx_conn s k))" and "mc_before (mx_conn s k) = None"
    and "\<not> mc_swept (mx_conn s k)" and "\<not> mc_cleaned (mx_conn s k)"
    and "write_loop_exit True id id conn (ps_pool (pool_view b s)) = Some p"
  shows "\<exists>s'. mux_run P rw br [MxCleanup k, MxRetain k, MxRemoved k True] s = Some s'
    \<and> mx_remap s' = bp_remap p \<and> mx_metrics s' = bp_metrics p \<and> mc_cleaned (mx_conn s' k)"
  using assms
  by (auto simp: exec_cleanup_def exec_retain_def exec_removed_def set_conn_def write_loop_exit_def fail_conn_def
      pool_view_def Let_def on_metrics_def split: if_splits)

end
