(* ===== verification/MuxCore.thy ===== *)
theory MuxCore
  imports Mux "HOL-Library.Sublist"
begin

text \<open>
  What holds of pooled mode under every interleaving and whatever the brokers send: how ids are
  issued, what the table, the request tasks and the frames on the connections have to do with the
  requests the ids were issued for, and that an id is at one place at a time.
\<close>

section \<open>What the actions leave alone\<close>

text \<open>Of the shared state only these parts matter: the table and its counter.\<close>

definition table_view :: "cid_remap \<Rightarrow> (i32, route_entry) dashmap \<times> i32" where
  "table_view r = (remap_map r, next_cid r)"

definition shared_view :: "broker_pool \<Rightarrow> (i32, route_entry) dashmap \<times> i32" where
  "shared_view p = table_view (bp_remap p)"

lemma shared_acquire [frame_simps]:
  "shared_view (snd (acquire_idle el p)) = shared_view p"
  "shared_view (snd (acquire_reserve el p)) = shared_view p"
  "shared_view (snd (acquire_create con el p)) = shared_view p"
  "shared_view (snd (acquire_enqueue p)) = shared_view p"
  "shared_view (acquire_woken el p) = shared_view p"
  "shared_view (take_notification p) = shared_view p"
  "shared_view (acquire_timed_out p) = shared_view p"
  "shared_view (release now c tx p) = shared_view p"
  "shared_view (reaper_tick now p) = shared_view p"
  by (simp_all add: shared_view_def table_view_def acquire_idle_def acquire_reserve_def acquire_create_def
      create_conn_def alloc_conn_id_def acquire_enqueue_def acquire_woken_def take_notification_def
      acquire_timed_out_def release_def reaper_tick_def Let_def split: list.splits sum.splits)

lemma shared_acquire_eq [frame_simps]:
  "acquire_idle el p = (x, p') \<Longrightarrow> shared_view p' = shared_view p"
  "acquire_reserve el p = (y, p') \<Longrightarrow> shared_view p' = shared_view p"
  "acquire_create con el p = (z, p') \<Longrightarrow> shared_view p' = shared_view p"
  "acquire_enqueue p = (y, p') \<Longrightarrow> shared_view p' = shared_view p"
  using shared_acquire(1)[of el p] shared_acquire(2)[of el p] shared_acquire(3)[of con el p] shared_acquire(4)[of p]
  by simp_all

definition calm :: "pool_action \<Rightarrow> bool" where
  "calm a \<longleftrightarrow> (case a of ActRegister _ _ _ _ _ _ \<Rightarrow> False | ActConnExit _ \<Rightarrow> False | _ \<Rightarrow> True)"

lemma acquire_section_calm: "acquire_section i a \<Longrightarrow> calm a"
  by (cases a) (simp_all add: calm_def)

lemma shared_calm:
  "pool_exec a s = Some s' \<Longrightarrow> calm a \<Longrightarrow> shared_view (ps_pool s') = shared_view (ps_pool s)"
  by (cases a) (auto simp: calm_def goto_def shared_acquire dest: shared_acquire_eq
      split: acq_pc.splits prod.splits option.splits sum.splits if_splits bool.splits)

lemma table_view_eq: "table_view r' = table_view r \<longleftrightarrow> remap_map r' = remap_map r \<and> next_cid r' = next_cid r"
  by (auto simp: table_view_def)

lemma view_fields:
  assumes "pool_exec a (pool_view b s) = Some ps" and "calm a"
  shows "remap_map (bp_remap (ps_pool ps)) = remap_map (mx_remap s) \<and> next_cid (bp_remap (ps_pool ps)) = next_cid (mx_remap s)"
  using shared_calm[OF assms] by (simp add: shared_view_def pool_view_def table_view_eq)

lemma give_back_view:
  assumes "give_back i now s = Some s'"
  shows "remap_map (mx_remap s') = remap_map (mx_remap s) \<and> next_cid (mx_remap s') = next_cid (mx_remap s)
    \<and> mx_issued s' = mx_issued s \<and> mx_sent s' = mx_sent s \<and> mx_pc s' = mx_pc s \<and> mx_conn s' = mx_conn s
    \<and> mx_chans s' = mx_chans s \<and> mx_resp s' = mx_resp s \<and> mx_broker s' = mx_broker s"
proof (cases "lease i s")
  case (Some a)
  then obtain ps where ps: "pool_exec (ActRelease i now) (pool_view (mx_broker s i) s) = Some ps"
    and s': "s' = pool_commit (mx_broker s i) ps s"
    using assms by (auto simp: give_back_def)
  show ?thesis using view_fields[OF ps] by (simp add: s' pool_commit_def calm_def)
qed (use assms in \<open>simp add: give_back_def\<close>)

text \<open>A section of \<open>acquire\<close> seen from outside: of the data path it changes only the id of a new
  connection, and of its own task only the place.\<close>

lemma acquire_fields:
  assumes "exec_acquire i a now s = Some s'"
  obtains data hdr where "mx_pc s i = RlAcquire data hdr"
    and "\<forall>j. j \<noteq> i \<longrightarrow> mx_pc s' j = mx_pc s j" and "mx_pc s' i \<in> {RlAcquire data hdr, RlReady data hdr, RlDone}"
    and "remap_map (mx_remap s') = remap_map (mx_remap s)" "next_cid (mx_remap s') = next_cid (mx_remap s)"
    and "mx_issued s' = mx_issued s" "mx_sent s' = mx_sent s" "mx_chans s' = mx_chans s" "mx_resp s' = mx_resp s"
    and "\<forall>k. mx_conn s' k = (mx_conn s k)\<lparr>mc_id := mc_id (mx_conn s' k)\<rparr>"
proof -
  let ?b = "mx_broker s i"
  obtain data hdr where pc: "mx_pc s i = RlAcquire data hdr" and sec: "acquire_section i a"
    using assms by (auto simp: exec_acquire_def split: relay_pc.splits if_splits)
  obtain ps where ps: "pool_exec a (pool_view ?b s) = Some ps"
    using assms pc sec by (auto simp: exec_acquire_def Let_def split: option.splits)
  note view = view_fields[OF ps acquire_section_calm[OF sec]]
  show thesis
    using assms that[OF pc] view
    by (cases "ps_pc ps i"; cases "is_create a") (auto simp: pc exec_acquire_def pc sec ps Let_def set_pc_def set_conn_def pool_commit_def)
qed

text \<open>The parts of the state the actions other than these leave alone. \<open>data_path\<close> unfolds the actions of
  the data path.\<close>

lemmas data_path =
  exec_frame_def exec_check_def exec_register_def exec_alloc_def exec_insert_def exec_count_def exec_send_def
  exec_send_failed_def exec_uncount_def exec_leave_def exec_take_def exec_answer_def exec_fetch_def exec_loop_def
  exec_cleanup_def exec_retain_def exec_removed_def exec_shut_def exec_route_def exec_deliver_def exec_reply_def
  exec_tick_def exec_drained_def resp_after_def mux_updates Let_def

lemma alloc_fields:
  assumes "exec_alloc i s = Some s'"
  obtains data hdr q u where "mx_pc s i = RlChecked data hdr" and "u = next_cid_u (next_cid (mx_remap s))"
    and "s' = set_pc i (RlAlloc data hdr u q)
      (s\<lparr>mx_remap := (mx_remap s)\<lparr>next_cid := u\<rparr>, mx_issued := mx_issued s @ [(u, i, data)]\<rparr>)"
  using assms by (auto simp: exec_alloc_def alloc_cid_u_def Let_def split: relay_pc.splits option.splits)

text \<open>Ids are only issued by an allocation.\<close>

lemma issued_same:
  assumes "mux_exec P rw br a s = Some s'" and "\<forall>i. a \<noteq> MxAlloc i"
  shows "mx_issued s' = mx_issued s \<and> next_cid (mx_remap s') = next_cid (mx_remap s)"
proof (cases a)
  case (MxAcquire i b now)
  then have "exec_acquire i b now s = Some s'" using assms(1) by simp
  then show ?thesis by (rule acquire_fields) blast
next
  case (MxReap b now)
  then show ?thesis using assms(1) view_fields[of "ActReap now" b s]
    by (auto simp: pool_commit_def calm_def simp del: pool_exec.simps)
qed (use assms in \<open>auto simp: data_path goto_def loop_step_def split: relay_pc.splits option.splits if_splits list.splits prod.splits
    dest!: give_back_view\<close>)

text \<open>An insertion, the only action that adds to the table.\<close>

lemma insert_fields:
  assumes "exec_insert i now s = Some s'"
  obtains data k v d u a e where "mx_pc s i = RlAlloc data (k, v, d) u a"
    and "e = \<lparr>re_downstream_tx = i, re_cid_d = d, re_api_key = k, re_api_version = v, re_started = now,
           re_conn_id = acq_conn_id a\<rparr>"
    and "s' = set_pc i (RlCount data u a) (s\<lparr>mx_remap := (mx_remap s)\<lparr>remap_map := dm_insert u e (remap_map (mx_remap s))\<rparr>\<rparr>)"
  using assms by (auto simp: exec_insert_def Let_def split: relay_pc.splits)

lemma send_fields:
  assumes "exec_send i s = Some s'"
  obtains data u q where "mx_pc s i = RlSend data u q" and "\<not> mc_closed (mx_conn s (mx_broker s i, acq_write_tx q))"
    and "length (mc_queue (mx_conn s (mx_broker s i, acq_write_tx q))) < WRITE_CAPACITY"
    and "s' = set_pc i RlRead (set_conn (mx_broker s i, acq_write_tx q)
       ((mx_conn s (mx_broker s i, acq_write_tx q))
          \<lparr>mc_queue := mc_queue (mx_conn s (mx_broker s i, acq_write_tx q)) @ [upstream_frame u data]\<rparr>) s)"
  using assms by (auto simp: exec_send_def Let_def split: relay_pc.splits if_splits)

definition table_shrinks :: "mux \<Rightarrow> mux \<Rightarrow> bool" where
  "table_shrinks s s' \<longleftrightarrow> (dm_inv (remap_map (mx_remap s)) \<longrightarrow> dm_inv (remap_map (mx_remap s'))
     \<and> dm_get (remap_map (mx_remap s')) \<subseteq>\<^sub>m dm_get (remap_map (mx_remap s)))"

lemma shrinks_same: "remap_map (mx_remap s') = remap_map (mx_remap s) \<Longrightarrow> table_shrinks s s'"
  by (simp add: table_shrinks_def)

lemma shrinks_remove: "remap_map (mx_remap s') = dm_remove u (remap_map (mx_remap s)) \<Longrightarrow> table_shrinks s s'"
  by (auto simp: table_shrinks_def dm.inv_rem dm.get_rem map_le_def)

lemma shrinks_retain: "remap_map (mx_remap s') = dm_retain p (remap_map (mx_remap s)) \<Longrightarrow> table_shrinks s s'"
  by (auto simp: table_shrinks_def dm.inv_ret dm.get_ret map_le_def split: option.splits if_splits)

lemma table_step:
  assumes "mux_exec P rw br a s = Some s'" and "\<forall>i now. a \<noteq> MxInsert i now"
  shows "table_shrinks s s'"
proof (cases a)
  case (MxAcquire i b now)
  then have "exec_acquire i b now s = Some s'" using assms(1) by simp
  then show ?thesis by (rule acquire_fields) (blast intro: shrinks_same)
next
  case (MxReap b now)
  then show ?thesis using assms(1) view_fields[of "ActReap now" b s]
    by (intro shrinks_same) (auto simp: pool_commit_def calm_def simp del: pool_exec.simps)
next
  case (MxSendFailed i)
  then obtain data u q where pc: "mx_pc s i = RlSend data u q"
    using assms(1) by (auto simp: exec_send_failed_def split: relay_pc.splits)
  show ?thesis using assms(1) MxSendFailed
    by (intro shrinks_remove[of _ u]) (auto simp: pc exec_send_failed_def mux_updates goto_def Let_def split: if_splits)
next
  case (MxRetain k)
  then obtain conn where c: "mc_id (mx_conn s k) = Some conn"
    using assms(1) by (auto simp: exec_retain_def Let_def split: option.splits)
  show ?thesis using assms(1) MxRetain
    by (intro shrinks_retain[of _ "\<lambda>_ e. re_conn_id e \<noteq> conn"]) (auto simp: c exec_retain_def set_conn_def Let_def split: if_splits)
next
  case (MxRoute k)
  then show ?thesis using assms(1)
    by (auto simp: exec_route_def set_conn_def Let_def split: list.splits if_splits option.splits
        intro: shrinks_same shrinks_remove)
qed (rule shrinks_same; use assms in \<open>auto simp: data_path loop_step_def alloc_cid_u_def
    split: relay_pc.splits option.splits if_splits list.splits prod.splits dest!: give_back_view\<close>)+

section \<open>The history of the requests\<close>

text \<open>An entry of the table stands for a request it was issued for.\<close>

definition entry_ok :: "(i32 \<times> client \<times> bytes) list \<Rightarrow> i32 \<Rightarrow> route_entry \<Rightarrow> bool" where
  "entry_ok iss u e \<longleftrightarrow> (\<exists>data. (u, re_downstream_tx e, data) \<in> set iss
     \<and> parse_request_header data = Some (re_api_key e, re_api_version e, re_cid_d e))"

definition requests_of :: "client \<Rightarrow> (i32 \<times> client \<times> bytes) list \<Rightarrow> bytes list" where
  "requests_of i iss = map (\<lambda>(u, j, data). data) (filter (\<lambda>(u, j, data). j = i) iss)"

text \<open>The frame a request task has read and got no id for yet, and the id of the one it is working on.\<close>

fun pending_frame :: "relay_pc \<Rightarrow> bytes list" where
  "pending_frame (RlGot data hdr) = [data]"
| "pending_frame (RlAcquire data hdr) = [data]"
| "pending_frame (RlReady data hdr) = [data]"
| "pending_frame (RlChecked data hdr) = [data]"
| "pending_frame _ = []"

fun task_cid :: "relay_pc \<Rightarrow> i32 option" where
  "task_cid (RlAlloc data hdr u a) = Some u"
| "task_cid (RlCount data u a) = Some u"
| "task_cid (RlSend data u a) = Some u"
| "task_cid _ = None"

fun pc_ok :: "(i32 \<times> client \<times> bytes) list \<Rightarrow> client \<Rightarrow> relay_pc \<Rightarrow> bool" where
  "pc_ok iss i (RlGot data hdr) \<longleftrightarrow> parse_request_header data = Some hdr"
| "pc_ok iss i (RlAcquire data hdr) \<longleftrightarrow> parse_request_header data = Some hdr"
| "pc_ok iss i (RlReady data hdr) \<longleftrightarrow> parse_request_header data = Some hdr"
| "pc_ok iss i (RlChecked data hdr) \<longleftrightarrow> parse_request_header data = Some hdr"
| "pc_ok iss i (RlAlloc data hdr u a) \<longleftrightarrow> parse_request_header data = Some hdr \<and> (u, i, data) \<in> set iss"
| "pc_ok iss i (RlCount data u a) \<longleftrightarrow> parse_request_header data \<noteq> None \<and> (u, i, data) \<in> set iss"
| "pc_ok iss i (RlSend data u a) \<longleftrightarrow> parse_request_header data \<noteq> None \<and> (u, i, data) \<in> set iss"
| "pc_ok iss i _ \<longleftrightarrow> True"

definition ids_inv :: "mux \<Rightarrow> bool" where
  "ids_inv s \<longleftrightarrow> map fst (mx_issued s) = map cid_seq [0..<length (mx_issued s)]
     \<and> next_cid (mx_remap s) = (next_cid_u ^^ length (mx_issued s)) 1"

definition table_inv :: "mux \<Rightarrow> bool" where
  "table_inv s \<longleftrightarrow> dm_inv (remap_map (mx_remap s))
     \<and> (\<forall>u e. dm_get (remap_map (mx_remap s)) u = Some e \<longrightarrow> entry_ok (mx_issued s) u e)"

definition task_inv :: "client \<Rightarrow> mux \<Rightarrow> bool" where
  "task_inv i s \<longleftrightarrow> pc_ok (mx_issued s) i (mx_pc s i)
     \<and> subseq (requests_of i (mx_issued s) @ pending_frame (mx_pc s i)) (mx_sent s i)"

lemma pc_ok_mono: "pc_ok iss i pc \<Longrightarrow> set iss \<subseteq> set iss' \<Longrightarrow> pc_ok iss' i pc"
  by (cases pc) auto

lemma entry_ok_mono: "entry_ok iss u e \<Longrightarrow> set iss \<subseteq> set iss' \<Longrightarrow> entry_ok iss' u e"
  by (auto simp: entry_ok_def)

lemma entry_ok_issued: "entry_ok iss u e \<Longrightarrow> u \<in> fst ` set iss"
  by (force simp: entry_ok_def)

lemma task_cid_issued: "pc_ok iss i pc \<Longrightarrow> task_cid pc = Some u \<Longrightarrow> u \<in> fst ` set iss"
  by (cases pc) force+

lemma distinct_issued: "ids_inv s \<Longrightarrow> length (mx_issued s) \<le> 2 ^ 31 - 1 \<Longrightarrow> distinct (map fst (mx_issued s))"
  using distinct_cid_seq[of "length (mx_issued s)" 0] by (simp add: ids_inv_def)

lemma issued_grows:
  assumes "mux_exec P rw br a s = Some s'"
  shows "set (mx_issued s) \<subseteq> set (mx_issued s')" and "length (mx_issued s) \<le> length (mx_issued s')"
proof -
  have "\<exists>xs. mx_issued s' = mx_issued s @ xs"
  proof (cases "\<exists>i. a = MxAlloc i")
    case True
    then obtain i where "exec_alloc i s = Some s'" using assms by auto
    then show ?thesis by (rule alloc_fields) (auto simp: set_pc_def)
  next
    case False
    then show ?thesis using issued_same[OF assms] by simp
  qed
  then show "set (mx_issued s) \<subseteq> set (mx_issued s')" and "length (mx_issued s) \<le> length (mx_issued s')" by auto
qed

text \<open>An allocated id is new, as long as the ids have not wrapped.\<close>

lemma ids_step:
  assumes "mux_exec P rw br a s = Some s'" and "ids_inv s"
  shows "ids_inv s'"
proof (cases "\<exists>i. a = MxAlloc i")
  case True
  then obtain i where "exec_alloc i s = Some s'" using assms(1) by auto
  then show ?thesis by (rule alloc_fields) (use assms(2) in \<open>simp add: ids_inv_def set_pc_def cid_seq_def\<close>)
next
  case False
  then show ?thesis using issued_same[OF assms(1)] assms(2) by (simp add: ids_inv_def)
qed

lemma alloc_fresh:
  assumes "exec_alloc i s = Some s'" and "ids_inv s'" and "length (mx_issued s') \<le> 2 ^ 31 - 1"
    and "task_cid (mx_pc s' i) = Some u"
  shows "u \<notin> fst ` set (mx_issued s)"
  using assms(1)
proof (rule alloc_fields)
  fix data hdr q c
  assume s': "s' = set_pc i (RlAlloc data hdr c q)
      (s\<lparr>mx_remap := (mx_remap s)\<lparr>next_cid := c\<rparr>, mx_issued := mx_issued s @ [(c, i, data)]\<rparr>)"
  have "distinct (map fst (mx_issued s'))" by (rule distinct_issued[OF assms(2,3)])
  then show ?thesis using assms(4) by (auto simp: s' set_pc_def)
qed

lemma table_inv_step:
  assumes "mux_exec P rw br a s = Some s'" and "table_inv s" and "\<forall>i. task_inv i s"
  shows "table_inv s'"
proof (cases "\<exists>i now. a = MxInsert i now")
  case False
  then have "table_shrinks s s'" using table_step[OF assms(1)] by blast
  then show ?thesis using assms(2) issued_grows(1)[OF assms(1)] entry_ok_mono
    unfolding table_shrinks_def table_inv_def map_le_def dom_def by (metis (mono_tags, lifting) mem_Collect_eq option.distinct(1))
next
  case True
  then obtain i now where "exec_insert i now s = Some s'" using assms(1) by auto
  then show ?thesis
  proof (rule insert_fields)
    fix data k v d u a e
    assume pc: "mx_pc s i = RlAlloc data (k, v, d) u a"
      and e: "e = \<lparr>re_downstream_tx = i, re_cid_d = d, re_api_key = k, re_api_version = v, re_started = now, re_conn_id = acq_conn_id a\<rparr>"
      and s': "s' = set_pc i (RlCount data u a) (s\<lparr>mx_remap := (mx_remap s)\<lparr>remap_map := dm_insert u e (remap_map (mx_remap s))\<rparr>\<rparr>)"
    have "pc_ok (mx_issued s) i (RlAlloc data (k, v, d) u a)" using assms(3) pc by (metis task_inv_def)
    then have "entry_ok (mx_issued s) u e" by (auto simp: entry_ok_def e)
    then show ?thesis using assms(2) by (simp add: table_inv_def s' set_pc_def dm.get_ins dm.inv_ins)
  qed
qed

section \<open>The request tasks\<close>

text \<open>The tasks of a connection and the response tasks leave the request tasks alone.\<close>

fun request_task :: "mux_action \<Rightarrow> client option" where
  "request_task (MxFrame i _) = Some i"
| "request_task (MxHangup i) = Some i"
| "request_task (MxCheck i _) = Some i"
| "request_task (MxAcquire i _ _) = Some i"
| "request_task (MxRegister i) = Some i"
| "request_task (MxAlloc i) = Some i"
| "request_task (MxInsert i _) = Some i"
| "request_task (MxCount i) = Some i"
| "request_task (MxSend i) = Some i"
| "request_task (MxSendFailed i) = Some i"
| "request_task (MxUncount i) = Some i"
| "request_task (MxLeave i _) = Some i"
| "request_task _ = None"

lemma other_task:
  "mux_exec P rw br a s = Some s' \<Longrightarrow> request_task a = None \<Longrightarrow>
     mx_pc s' = mx_pc s \<and> mx_sent s' = mx_sent s \<and> mx_issued s' = mx_issued s"
  by (cases a) (auto simp: data_path loop_step_def
      simp del: pool_exec.simps split: list.splits if_splits prod.splits option.splits)

lemma task_fields:
  assumes "mux_exec P rw br a s = Some s'" and "request_task a = Some i" and "j \<noteq> i"
  shows "mx_pc s' j = mx_pc s j \<and> mx_sent s' j = mx_sent s j \<and>
    (mx_issued s' = mx_issued s \<or> (\<exists>u data. mx_issued s' = mx_issued s @ [(u, i, data)]))"
proof (cases a)
  case (MxAcquire t b now)
  then have "exec_acquire t b now s = Some s'" using assms(1) by simp
  then show ?thesis by (rule acquire_fields) (use assms(2,3) MxAcquire in auto)
next
  case (MxAlloc t)
  then have "exec_alloc t s = Some s'" using assms(1) by simp
  then show ?thesis by (rule alloc_fields) (use assms(2,3) MxAlloc in \<open>auto simp: set_pc_def\<close>)
qed (use assms in \<open>auto simp: data_path split: relay_pc.splits option.splits if_splits dest!: give_back_view\<close>)

lemma subseq_prefix: "subseq (xs @ ys) zs \<Longrightarrow> subseq xs zs"
  by (meson subseq_order.order_refl subseq_order.order_trans subseq_rev_drop_many)

lemma requests_of_append [simp]:
  "requests_of i (iss @ [(u, j, data)]) = (if j = i then requests_of i iss @ [data] else requests_of i iss)"
  by (simp add: requests_of_def)

text \<open>An action of one request task leaves the others as they are, apart from what the history gains.\<close>

lemma task_inv_others:
  assumes "task_inv j s" and "mx_pc s' j = mx_pc s j" and "mx_sent s' j = mx_sent s j"
    and "mx_issued s' = mx_issued s \<or> (\<exists>u i data. i \<noteq> j \<and> mx_issued s' = mx_issued s @ [(u, i, data)])"
  shows "task_inv j s'"
proof -
  have "set (mx_issued s) \<subseteq> set (mx_issued s')" using assms(4) by auto
  then have "pc_ok (mx_issued s') j (mx_pc s j)" using assms(1) unfolding task_inv_def by (blast intro: pc_ok_mono)
  then show ?thesis using assms by (auto simp: task_inv_def)
qed

lemma task_step:
  assumes "mux_exec P rw br a s = Some s'" and "task_inv j s"
  shows "task_inv j s'"
proof (cases "request_task a = Some j")
  case False
  then show ?thesis
    using other_task[OF assms(1)] task_fields[OF assms(1), of _ j]
    by (cases "request_task a") (auto intro!: task_inv_others[OF assms(2)])
next
  case True
  have goto: "task_inv j s'" if "mx_issued s' = mx_issued s" "mx_sent s' j = mx_sent s j"
    "pc_ok (mx_issued s) j (mx_pc s' j)" "pending_frame (mx_pc s' j) \<in> {[], pending_frame (mx_pc s j)}"
    using that assms(2) by (auto simp: task_inv_def intro: subseq_prefix)
  have ok: "pc_ok (mx_issued s) j (mx_pc s j)" using assms(2) by (simp add: task_inv_def)
  show ?thesis
  proof (cases a)
    case (MxAcquire t b now)
    then have "exec_acquire j b now s = Some s'" using assms(1) True by simp
    then show ?thesis by (rule acquire_fields) (use ok in \<open>auto intro!: goto\<close>)
  next
    case (MxAlloc t)
    then have "exec_alloc j s = Some s'" using assms(1) True by simp
    then show ?thesis by (rule alloc_fields) (use assms(2) in \<open>simp add: task_inv_def set_pc_def\<close>)
  next
    case (MxFrame t data)
    then show ?thesis using assms True
      by (auto simp: exec_frame_def set_pc_def Let_def task_inv_def split: relay_pc.splits option.splits
          intro: subseq_rev_drop_many)
  qed (rule goto; use assms(1) True ok in \<open>auto simp: data_path
      split: relay_pc.splits option.splits if_splits dest!: give_back_view\<close>)+
qed

text \<open>Only an allocation brings an id to a task.\<close>

lemma task_cid_step:
  assumes "mux_exec P rw br a s = Some s'" and "task_cid (mx_pc s' j) = Some u"
  shows "task_cid (mx_pc s j) = Some u \<and> a \<noteq> MxSend j \<and> a \<noteq> MxSendFailed j \<or> a = MxAlloc j"
proof (cases "request_task a = Some j")
  case False
  then show ?thesis
    using other_task[OF assms(1)] task_fields[OF assms(1), of _ j] assms(2) by (cases "request_task a") auto
next
  case True
  show ?thesis
  proof (cases a)
    case (MxAcquire t b now)
    then have "exec_acquire j b now s = Some s'" using assms(1) True by simp
    then show ?thesis using assms(2) by (elim acquire_fields) auto
  qed (use assms True in \<open>auto simp: data_path split: relay_pc.splits option.splits if_splits dest!: give_back_view\<close>)
qed

section \<open>What travels on a connection\<close>

text \<open>Requests on a connection are requests that were issued, under their ids; a frame in the channel
  of a write loop that has ended goes no further.\<close>

definition issued_frame :: "(i32 \<times> client \<times> bytes) list \<Rightarrow> bytes \<Rightarrow> bool" where
  "issued_frame iss f \<longleftrightarrow> (\<exists>u i data. (u, i, data) \<in> set iss
     \<and> parse_request_header data \<noteq> None \<and> f = upstream_frame u data)"

definition frame_cid :: "bytes \<Rightarrow> i32 option" where
  "frame_cid f = map_option (\<lambda>(k, v, u). u) (parse_request_header f)"

definition frames_on :: "mux_conn \<Rightarrow> bytes set" where
  "frames_on c = set (mc_queue c) \<union> set (wl_sent (mc_wl c))"

definition frames_moving :: "mux_conn \<Rightarrow> bytes set" where
  "frames_moving c = set (wl_sent (mc_wl c)) \<union> (if wl_running (mc_wl c) then set (mc_queue c) else {})"

lemma frame_cid_upstream: "parse_request_header data \<noteq> None \<Longrightarrow> frame_cid (upstream_frame u data) = Some u"
  using upstream_frame_header[of data _ _ _ u] by (cases "parse_request_header data") (auto simp: frame_cid_def)

lemma frame_issued: "issued_frame iss f \<Longrightarrow> \<exists>u. frame_cid f = Some u \<and> u \<in> fst ` set iss"
  unfolding issued_frame_def using frame_cid_upstream by force

text \<open>Every action keeps what the broker has received and the progress of a clean-up; only a send brings
  a frame onto a connection.\<close>

definition grows :: "mux_conn \<Rightarrow> mux_conn \<Rightarrow> bool" where
  "grows c c' \<longleftrightarrow> set (wl_sent (mc_wl c)) \<subseteq> set (wl_sent (mc_wl c')) \<and> (wl_running (mc_wl c') \<longrightarrow> wl_running (mc_wl c))
     \<and> (mc_swept c \<longrightarrow> mc_swept c')"

definition flows :: "mux_conn \<Rightarrow> mux_conn \<Rightarrow> bool" where
  "flows c c' \<longleftrightarrow> grows c c' \<and> frames_on c' \<subseteq> frames_on c \<and> frames_moving c' \<subseteq> frames_moving c"

lemmas flow_defs = flows_def grows_def frames_on_def frames_moving_def

lemma flows_refl [simp]: "flows c c" "flows c (c\<lparr>mc_id := x\<rparr>)" "flows c (c\<lparr>mc_wire := y\<rparr>)" "flows c (c\<lparr>mc_read := y\<rparr>)"
  "flows c (c\<lparr>mc_held := h\<rparr>)" "flows c (c\<lparr>mc_read := y, mc_held := h\<rparr>)" "flows c (c\<lparr>mc_before := b\<rparr>)"
  "flows c (c\<lparr>mc_swept := True\<rparr>)" "flows c (c\<lparr>mc_cleaned := z\<rparr>)" "flows c (c\<lparr>mc_closed := z\<rparr>)"
  by (auto simp: flow_defs)

lemma flows_take: "mc_queue c = f # rest \<Longrightarrow> wl_running (mc_wl c) \<Longrightarrow>
    loop_step (WlRequest f ok) (c\<lparr>mc_queue := rest\<rparr>) m = (c', m') \<Longrightarrow> flows c c'"
  by (auto simp: flow_defs loop_step_def Let_def split: if_splits)

lemma flows_loop: "wl_running (mc_wl c) \<Longrightarrow> \<forall>f ok. e \<noteq> WlRequest f ok \<Longrightarrow>
    loop_step e (c\<lparr>mc_wire := w\<rparr>) m = (c', m') \<Longrightarrow> flows c c' \<and> flows c (c'\<lparr>mc_read := r\<rparr>)"
  by (cases e) (auto simp: flow_defs loop_step_def Let_def split: if_splits)

lemma conns_flow:
  assumes "mux_exec P rw br a s = Some s'" and "\<forall>i. a \<noteq> MxSend i"
  shows "flows (mx_conn s k) (mx_conn s' k)"
proof (cases a)
  case (MxAcquire i b now)
  then have "exec_acquire i b now s = Some s'" using assms(1) by simp
  then show ?thesis by (rule acquire_fields) (metis flows_refl(2))
next
  case (MxTake q ok)
  then show ?thesis using assms(1)
    by (auto simp: exec_take_def Let_def set_conn_def dest: flows_take split: list.splits if_splits prod.splits)
next
  case (MxFetch q ok)
  then show ?thesis using assms(1)
    by (auto simp: exec_fetch_def Let_def set_conn_def split: list.splits if_splits prod.splits dest!: flows_loop[rotated -1])
next
  case (MxLoop q e)
  moreover have "loop_event e \<Longrightarrow> e \<noteq> WlRequest f ok" for f ok by auto
  ultimately show ?thesis using assms(1) flows_loop[of "mx_conn s k" e "mc_wire (mx_conn s k)"]
    by (auto simp: exec_loop_def Let_def set_conn_def split: if_splits prod.splits)
qed (use assms in \<open>auto simp: data_path alloc_cid_u_def simp del: pool_exec.simps
    split: relay_pc.splits option.splits if_splits list.splits prod.splits dest!: give_back_view\<close>)

lemma send_conns:
  assumes "exec_send i s = Some s'"
  obtains data u q where "mx_pc s i = RlSend data u q" and "mx_pc s' = (mx_pc s)(i := RlRead)"
    and "\<forall>k. grows (mx_conn s k) (mx_conn s' k)"
    and "\<forall>k. frames_on (mx_conn s' k) \<subseteq> insert (upstream_frame u data) (frames_on (mx_conn s k))"
    and "\<forall>k. frames_moving (mx_conn s' k) \<subseteq> insert (upstream_frame u data) (frames_moving (mx_conn s k))"
  using assms
proof (rule send_fields)
  fix data u and q :: acquired
  let ?k = "(mx_broker s i, acq_write_tx q)"
  assume pc: "mx_pc s i = RlSend data u q"
    and s': "s' = set_pc i RlRead (set_conn ?k ((mx_conn s ?k)\<lparr>mc_queue := mc_queue (mx_conn s ?k) @ [upstream_frame u data]\<rparr>) s)"
  show thesis by (rule that[OF pc]) (auto simp: s' mux_updates flow_defs)
qed

lemma conns_grow:
  assumes "mux_exec P rw br a s = Some s'"
  shows "grows (mx_conn s k) (mx_conn s' k)"
proof (cases "\<exists>i. a = MxSend i")
  case True
  then obtain i where "exec_send i s = Some s'" using assms by auto
  then show ?thesis by (rule send_conns) blast
next
  case False
  then show ?thesis using conns_flow[OF assms, of k] by (simp add: flows_def)
qed

text \<open>Only a look-up puts a response in the hands of a read loop, with the entry of its id.\<close>

definition held_ok :: "(i32 \<times> client \<times> bytes) list \<Rightarrow> mux_conn \<Rightarrow> bool" where
  "held_ok iss c \<longleftrightarrow> (\<forall>resp u e. mc_held c = Some (resp, u, e) \<longrightarrow> parse_response_cid resp = Some u \<and> entry_ok iss u e)"

definition held_cid :: "mux_conn \<Rightarrow> i32 option" where
  "held_cid c = map_option (\<lambda>(resp, u, e). u) (mc_held c)"

lemma loop_step_fields: "loop_step e c m = (c', m') \<Longrightarrow> mc_held c' = mc_held c \<and> mc_id c' = mc_id c \<and> mc_read c' = mc_read c
    \<and> mc_wire c' = mc_wire c \<and> mc_queue c' = mc_queue c \<and> mc_swept c' = mc_swept c \<and> mc_before c' = mc_before c
    \<and> mc_cleaned c' = mc_cleaned c \<and> mc_closed c' = mc_closed c"
  by (auto simp: loop_step_def Let_def)

lemma held_step:
  assumes "mux_exec P rw br a s = Some s'" and "a \<noteq> MxRoute k"
  shows "mc_held (mx_conn s' k) \<in> {None, mc_held (mx_conn s k)}"
proof (cases a)
  case (MxAcquire i b now)
  then have "exec_acquire i b now s = Some s'" using assms(1) by simp
  then have "mx_conn s' k = (mx_conn s k)\<lparr>mc_id := mc_id (mx_conn s' k)\<rparr>" by (rule acquire_fields) blast
  then have "mc_held (mx_conn s' k) = mc_held ((mx_conn s k)\<lparr>mc_id := mc_id (mx_conn s' k)\<rparr>)" by (rule arg_cong)
  then show ?thesis by simp
qed (use assms in \<open>auto simp: data_path alloc_cid_u_def simp del: pool_exec.simps
    split: relay_pc.splits option.splits if_splits list.splits prod.splits dest!: give_back_view loop_step_fields\<close>)

lemma route_fields:
  assumes "exec_route k s = Some s'"
  obtains (dropped) resp rest where "mc_read (mx_conn s k) = resp # rest" and "mc_held (mx_conn s k) = None"
      and "s' = set_conn k ((mx_conn s k)\<lparr>mc_read := rest\<rparr>) s"
  | (found) resp rest u e where "mc_read (mx_conn s k) = resp # rest" and "mc_held (mx_conn s k) = None"
      and "parse_response_cid resp = Some u" and "dm_get (remap_map (mx_remap s)) u = Some e"
      and "s' = set_conn k ((mx_conn s k)\<lparr>mc_read := rest, mc_held := Some (resp, u, e)\<rparr>)
             (s\<lparr>mx_remap := (mx_remap s)\<lparr>remap_map := dm_remove u (remap_map (mx_remap s))\<rparr>\<rparr>)"
  using assms by (auto simp: exec_route_def Let_def split: list.splits if_splits option.splits)

definition conn_frames_ok :: "(i32 \<times> client \<times> bytes) list \<Rightarrow> mux_conn \<Rightarrow> bool" where
  "conn_frames_ok iss c \<longleftrightarrow> (\<forall>f \<in> frames_on c. issued_frame iss f) \<and> held_ok iss c"

lemma conn_frames_step:
  assumes "mux_exec P rw br a s = Some s'" and "table_inv s" and "\<forall>i. task_inv i s"
    and "conn_frames_ok (mx_issued s) (mx_conn s k)"
  shows "conn_frames_ok (mx_issued s') (mx_conn s' k)"
proof -
  note more = issued_grows(1)[OF assms(1)]
  have held: "held_ok (mx_issued s') (mx_conn s' k)"
  proof (cases "a = MxRoute k")
    case False
    from held_step[OF assms(1) False] have "held_ok (mx_issued s) (mx_conn s' k)"
      using assms(4) by (auto simp: conn_frames_ok_def held_ok_def)
    then show ?thesis using more entry_ok_mono unfolding held_ok_def by blast
  next
    case True
    then have "exec_route k s = Some s'" using assms(1) by simp
    then show ?thesis
      by (cases rule: route_fields) (use assms(2,4) in \<open>auto simp: held_ok_def conn_frames_ok_def set_conn_def table_inv_def\<close>)
  qed
  have "issued_frame (mx_issued s) f" if f: "f \<in> frames_on (mx_conn s' k)" for f
  proof (cases "\<exists>i. a = MxSend i")
    case True
    then obtain i where "exec_send i s = Some s'" using assms(1) by auto
    then show ?thesis
    proof (rule send_conns)
      fix data u and q :: acquired
      assume pc: "mx_pc s i = RlSend data u q"
        and "\<forall>k. frames_on (mx_conn s' k) \<subseteq> insert (upstream_frame u data) (frames_on (mx_conn s k))"
      then have "f = upstream_frame u data \<or> f \<in> frames_on (mx_conn s k)" using f by blast
      moreover have "pc_ok (mx_issued s) i (RlSend data u q)" using assms(3) pc by (metis task_inv_def)
      then have "issued_frame (mx_issued s) (upstream_frame u data)" unfolding issued_frame_def pc_ok.simps by blast
      ultimately show ?thesis using assms(4) by (auto simp: conn_frames_ok_def)
    qed
  next
    case False
    then show ?thesis using conns_flow[OF assms(1), of k] assms(4) f by (auto simp: flows_def conn_frames_ok_def)
  qed
  then show ?thesis using held more unfolding conn_frames_ok_def issued_frame_def by blast
qed

section \<open>An id is at one place\<close>

text \<open>At one request task, and then in no frame on a connection; once allocated and not yet inserted,
  neither in the table nor in the hands of a read loop; in the hands of one read loop, and then not
  in the table.\<close>

definition tasks_apart :: "mux \<Rightarrow> bool" where
  "tasks_apart s \<longleftrightarrow> (\<forall>i u. task_cid (mx_pc s i) = Some u \<longrightarrow>
     (\<forall>j. task_cid (mx_pc s j) = Some u \<longrightarrow> j = i) \<and> (\<forall>k. \<forall>f \<in> frames_on (mx_conn s k). frame_cid f \<noteq> Some u))"

definition allocs_apart :: "mux \<Rightarrow> bool" where
  "allocs_apart s \<longleftrightarrow> (\<forall>i data hdr u q. mx_pc s i = RlAlloc data hdr u q \<longrightarrow>
     dm_get (remap_map (mx_remap s)) u = None \<and> (\<forall>k. held_cid (mx_conn s k) \<noteq> Some u))"

definition held_apart :: "mux \<Rightarrow> bool" where
  "held_apart s \<longleftrightarrow> (\<forall>k u. held_cid (mx_conn s k) = Some u \<longrightarrow>
     dm_get (remap_map (mx_remap s)) u = None \<and> (\<forall>k'. held_cid (mx_conn s k') = Some u \<longrightarrow> k' = k))"

definition core_inv :: "mux \<Rightarrow> bool" where
  "core_inv s \<longleftrightarrow> ids_inv s \<and> table_inv s \<and> (\<forall>i. task_inv i s) \<and> (\<forall>k. conn_frames_ok (mx_issued s) (mx_conn s k))
     \<and> (length (mx_issued s) \<le> 2 ^ 31 - 1 \<longrightarrow> tasks_apart s \<and> allocs_apart s \<and> held_apart s)"

text \<open>An id that has not been issued is nowhere.\<close>

lemma new_id_nowhere:
  assumes "core_inv s" and "u \<notin> fst ` set (mx_issued s)"
  shows "task_cid (mx_pc s i) \<noteq> Some u" and "dm_get (remap_map (mx_remap s)) u = None"
    and "f \<in> frames_on (mx_conn s k) \<Longrightarrow> frame_cid f \<noteq> Some u" and "held_cid (mx_conn s k) \<noteq> Some u"
proof -
  have k: "\<forall>f \<in> frames_on (mx_conn s k). issued_frame (mx_issued s) f" "held_ok (mx_issued s) (mx_conn s k)"
    using assms(1) unfolding core_inv_def conn_frames_ok_def by blast+
  show "task_cid (mx_pc s i) \<noteq> Some u"
    using assms task_cid_issued[of "mx_issued s" i "mx_pc s i" u] by (auto simp: core_inv_def task_inv_def)
  show "dm_get (remap_map (mx_remap s)) u = None"
    using assms entry_ok_issued[of "mx_issued s" u]
    by (cases "dm_get (remap_map (mx_remap s)) u") (auto simp: core_inv_def table_inv_def)
  show "frame_cid f \<noteq> Some u" if "f \<in> frames_on (mx_conn s k)"
    using that assms(2) frame_issued k(1) by (metis option.inject)
  show "held_cid (mx_conn s k) \<noteq> Some u"
    using assms(2) k(2) entry_ok_issued unfolding held_cid_def held_ok_def by (cases "mc_held (mx_conn s k)") auto
qed

text \<open>How an id gets to a place.\<close>

lemma table_cid_step:
  assumes "mux_exec P rw br a s = Some s'" and "table_inv s" and "dm_get (remap_map (mx_remap s')) u \<noteq> None"
  shows "dm_get (remap_map (mx_remap s)) u \<noteq> None
    \<or> (\<exists>i now data hdr q. a = MxInsert i now \<and> mx_pc s i = RlAlloc data hdr u q)"
proof (cases "\<exists>i now. a = MxInsert i now")
  case False
  then have "table_shrinks s s'" using table_step[OF assms(1)] by blast
  then show ?thesis using assms(2,3) unfolding table_shrinks_def table_inv_def map_le_def dom_def
    by (metis (mono_tags, lifting) mem_Collect_eq)
next
  case True
  then obtain i now where a: "a = MxInsert i now" "exec_insert i now s = Some s'" using assms(1) by auto
  from a(2) show ?thesis
    by (rule insert_fields) (use assms(2,3) a(1) in \<open>auto simp: set_pc_def dm.get_ins table_inv_def split: if_splits\<close>)
qed

lemma held_cid_step:
  assumes "mux_exec P rw br a s = Some s'" and "table_inv s" and "held_cid (mx_conn s' k) = Some u"
  shows "held_cid (mx_conn s k) = Some u
    \<or> a = MxRoute k \<and> dm_get (remap_map (mx_remap s)) u \<noteq> None \<and> dm_get (remap_map (mx_remap s')) u = None"
proof (cases "a = MxRoute k")
  case False
  then show ?thesis using held_step[OF assms(1) False] assms(3) by (auto simp: held_cid_def)
next
  case True
  then have "exec_route k s = Some s'" using assms(1) by simp
  then show ?thesis
    by (cases rule: route_fields)
      (use assms(2,3) True in \<open>auto simp: held_cid_def set_conn_def table_inv_def dm.get_rem\<close>)
qed

lemma alloc_pc_step:
  assumes "mux_exec P rw br a s = Some s'" and "mx_pc s' i = RlAlloc data hdr u q"
  shows "mx_pc s i = RlAlloc data hdr u q \<and> (\<forall>now. a \<noteq> MxInsert i now) \<or> a = MxAlloc i"
proof (cases "request_task a = Some i")
  case False
  then show ?thesis
    using other_task[OF assms(1)] task_fields[OF assms(1), of _ i] assms(2) by (cases "request_task a") auto
next
  case True
  show ?thesis
  proof (cases a)
    case (MxAcquire t b now)
    then have "exec_acquire i b now s = Some s'" using assms(1) True by simp
    then show ?thesis using assms(2) by (elim acquire_fields) auto
  qed (use assms True in \<open>auto simp: data_path split: relay_pc.splits option.splits if_splits dest!: give_back_view\<close>)
qed

lemma alloc_new:
  assumes "mux_exec P rw br a s = Some s'" and "core_inv s" and "ids_inv s'" and "length (mx_issued s') \<le> 2 ^ 31 - 1"
    and "a = MxAlloc i" and "task_cid (mx_pc s' i) = Some u"
  shows "u \<notin> fst ` set (mx_issued s)"
  using alloc_fresh[OF _ assms(3,4,6)] assms(1,5) by simp

lemma alloc_conns:
  "mux_exec P rw br (MxAlloc i) s = Some s' \<Longrightarrow> mx_conn s' = mx_conn s \<and> remap_map (mx_remap s') = remap_map (mx_remap s)"
  by (auto simp: set_pc_def elim!: alloc_fields)

lemma core_apart:
  "core_inv s \<Longrightarrow> mux_exec P rw br a s = Some s' \<Longrightarrow> length (mx_issued s') \<le> 2 ^ 31 - 1 \<Longrightarrow>
     tasks_apart s \<and> allocs_apart s \<and> held_apart s"
  using issued_grows(2)[of P rw br a s s'] by (auto simp: core_inv_def)

lemma tasks_apart_step:
  assumes step: "mux_exec P rw br a s = Some s'" and core: "core_inv s" and ids: "ids_inv s'"
    and b: "length (mx_issued s') \<le> 2 ^ 31 - 1"
  shows "tasks_apart s'"
  unfolding tasks_apart_def
proof (intro allI impI conjI ballI)
  fix i u
  assume i: "task_cid (mx_pc s' i) = Some u"
  have apart: "task_cid (mx_pc s m) = Some u \<Longrightarrow> task_cid (mx_pc s j) = Some u \<Longrightarrow> j = m"
    "task_cid (mx_pc s m) = Some u \<Longrightarrow> f \<in> frames_on (mx_conn s k) \<Longrightarrow> frame_cid f \<noteq> Some u" for m j k f
    using core_apart[OF core step b] unfolding tasks_apart_def by blast+
  note new = alloc_new[OF step core ids b] and nowhere = new_id_nowhere[OF core]
  show "j = i" if j: "task_cid (mx_pc s' j) = Some u" for j
    using task_cid_step[OF step i] task_cid_step[OF step j] apart(1)[of i j] new[OF _ i] new[OF _ j] nowhere(1) by blast
  show "frame_cid f \<noteq> Some u" if f: "f \<in> frames_on (mx_conn s' k)" for k f
  proof (cases "\<exists>m. a = MxSend m")
    case False
    then have "f \<in> frames_on (mx_conn s k)" using conns_flow[OF step, of k] f by (auto simp: flows_def)
    then show ?thesis using task_cid_step[OF step i] apart(2)[of i f k] new[OF _ i] nowhere(3)[of u f k] by blast
  next
    case True
    then obtain m where m: "a = MxSend m" "exec_send m s = Some s'" using step by auto
    have pi: "task_cid (mx_pc s i) = Some u" "m \<noteq> i" using task_cid_step[OF step i] m(1) by auto
    from m(2) show ?thesis
    proof (rule send_conns)
      fix data c and q :: acquired
      assume pm: "mx_pc s m = RlSend data c q"
        and "\<forall>k. frames_on (mx_conn s' k) \<subseteq> insert (upstream_frame c data) (frames_on (mx_conn s k))"
      then have f: "f = upstream_frame c data \<or> f \<in> frames_on (mx_conn s k)" using f by blast
      have "pc_ok (mx_issued s) m (RlSend data c q)" using core pm unfolding core_inv_def task_inv_def by metis
      then have "frame_cid (upstream_frame c data) = Some c" by (simp add: frame_cid_upstream)
      moreover have "c \<noteq> u" using apart(1)[OF pi(1), of m] pi(2) pm by auto
      ultimately show ?thesis using f apart(2)[OF pi(1), of f k] by auto
    qed
  qed
qed

lemma allocs_apart_step:
  assumes step: "mux_exec P rw br a s = Some s'" and core: "core_inv s" and ids: "ids_inv s'"
    and b: "length (mx_issued s') \<le> 2 ^ 31 - 1"
  shows "allocs_apart s'"
  unfolding allocs_apart_def
proof (intro allI impI)
  fix i data hdr u q
  assume i: "mx_pc s' i = RlAlloc data hdr u q"
  have inv: "table_inv s" using core by (simp add: core_inv_def)
  note apart = core_apart[OF core step b]
  show "dm_get (remap_map (mx_remap s')) u = None \<and> (\<forall>k. held_cid (mx_conn s' k) \<noteq> Some u)"
  proof (cases "a = MxAlloc i")
    case True
    then have "u \<notin> fst ` set (mx_issued s)" using alloc_new[OF step core ids b True] i by simp
    then show ?thesis using new_id_nowhere(2,4)[OF core] alloc_conns[of P rw br i s s'] step True by simp
  next
    case False
    then have pi: "mx_pc s i = RlAlloc data hdr u q" "a \<noteq> MxInsert i now" for now
      using alloc_pc_step[OF step i] by blast+
    then have old: "dm_get (remap_map (mx_remap s)) u = None" "held_cid (mx_conn s k) \<noteq> Some u" for k
      using apart unfolding allocs_apart_def by blast+
    have "dm_get (remap_map (mx_remap s')) u = None"
    proof (rule ccontr)
      assume "dm_get (remap_map (mx_remap s')) u \<noteq> None"
      then obtain j now data' hdr' q' where j: "a = MxInsert j now" "mx_pc s j = RlAlloc data' hdr' u q'"
        using table_cid_step[OF step inv] old(1) by blast
      then have "task_cid (mx_pc s j) = Some u" "task_cid (mx_pc s i) = Some u" using pi(1) by simp_all
      then have "j = i" using apart unfolding tasks_apart_def by blast
      then show False using j(1) pi(2) by blast
    qed
    then show ?thesis using held_cid_step[OF step inv] old by blast
  qed
qed

lemma held_apart_step:
  assumes step: "mux_exec P rw br a s = Some s'" and core: "core_inv s" and b: "length (mx_issued s') \<le> 2 ^ 31 - 1"
  shows "held_apart s'"
  unfolding held_apart_def
proof (intro allI impI)
  fix k u
  assume k: "held_cid (mx_conn s' k) = Some u"
  have inv: "table_inv s" using core by (simp add: core_inv_def)
  note apart = core_apart[OF core step b]
  show "dm_get (remap_map (mx_remap s')) u = None \<and> (\<forall>k'. held_cid (mx_conn s' k') = Some u \<longrightarrow> k' = k)"
  proof (cases "held_cid (mx_conn s k) = Some u")
    case True
    then have old: "dm_get (remap_map (mx_remap s)) u = None" "held_cid (mx_conn s k') = Some u \<Longrightarrow> k' = k" for k'
      using apart unfolding held_apart_def by blast+
    moreover have "mx_pc s j \<noteq> RlAlloc data hdr u q" for j data hdr q using apart True unfolding allocs_apart_def by blast
    ultimately have new: "dm_get (remap_map (mx_remap s')) u = None" using table_cid_step[OF step inv] by metis
    have "k' = k" if "held_cid (mx_conn s' k') = Some u" for k'
      using held_cid_step[OF step inv that] old by metis
    with new show ?thesis by blast
  next
    case False
    then have a: "a = MxRoute k" "dm_get (remap_map (mx_remap s)) u \<noteq> None" "dm_get (remap_map (mx_remap s')) u = None"
      using held_cid_step[OF step inv k] by blast+
    then have none: "held_cid (mx_conn s k') \<noteq> Some u" for k' using apart unfolding held_apart_def by metis
    have "k' = k" if "held_cid (mx_conn s' k') = Some u" for k'
      using held_cid_step[OF step inv that] none a(1) by (metis mux_action.inject(22))
    with a(3) show ?thesis by blast
  qed
qed

lemma core_start: "mux_start s \<Longrightarrow> core_inv s"
proof -
  assume st: "mux_start s"
  have "conn_frames_ok iss (conn_start cid m) \<and> held_cid (conn_start cid m) = None" for iss cid m
    by (simp add: conn_frames_ok_def conn_start_def frames_on_def held_ok_def held_cid_def)
  then have "conn_frames_ok (mx_issued s) (mx_conn s k) \<and> held_cid (mx_conn s k) = None" for k
    using st unfolding mux_start_def by metis
  then have "\<forall>k. conn_frames_ok (mx_issued s) (mx_conn s k)" "held_apart s" unfolding held_apart_def by simp_all
  then show ?thesis using st
    by (simp add: core_inv_def mux_start_def ids_inv_def table_inv_def dm.inv_new dm.get_new task_inv_def
        requests_of_def tasks_apart_def allocs_apart_def)
qed

lemma core_step:
  assumes "core_inv s" and "mux_exec P rw br a s = Some s'"
  shows "core_inv s'"
proof -
  have i: "ids_inv s" "table_inv s" "\<forall>i. task_inv i s" "\<forall>k. conn_frames_ok (mx_issued s) (mx_conn s k)"
    using assms(1) by (simp_all add: core_inv_def)
  note ids = ids_step[OF assms(2) i(1)]
  have "\<forall>k. conn_frames_ok (mx_issued s') (mx_conn s' k)" using conn_frames_step[OF assms(2) i(2,3)] i(4) by blast
  then show ?thesis
    using ids table_inv_step[OF assms(2) i(2,3)] task_step[OF assms(2)] i(3)
      tasks_apart_step[OF assms(2,1) ids] allocs_apart_step[OF assms(2,1) ids] held_apart_step[OF assms(2,1)]
    unfolding core_inv_def by blast
qed

interpretation mux_core: invariant_system mux_start "mux_step P rw br" core_inv
  by unfold_locales (auto intro: core_start core_step elim: mux_stepE)

end
