(* ===== verification/MuxSafety.thy ===== *)
theory MuxSafety
  imports MuxCore
begin

text \<open>
  What the pooled mode guarantees when the brokers keep to the Kafka protocol: a client gets only
  responses to its own requests, each at most once and under the id of the request.
\<close>

section \<open>Answers\<close>

text \<open>The responses on their way, and the one in the hands of the read loop, answer requests the broker
  has received on the connection.\<close>

definition responses_on :: "mux_conn \<Rightarrow> bytes set" where
  "responses_on c = set (mc_wire c) \<union> set (mc_read c) \<union> {resp. \<exists>u e. mc_held c = Some (resp, u, e)}"

definition answered :: "mux_conn \<Rightarrow> bool" where
  "answered c \<longleftrightarrow> (\<forall>r \<in> responses_on c. answers r c)"

lemma answers_mono: "answers r c \<Longrightarrow> grows c c' \<Longrightarrow> answers r c'"
  by (auto simp: answers_def list_ex_iff grows_def)

lemma responses_loop: "loop_step e c m = (c', m') \<Longrightarrow> responses_on c' = responses_on c"
  by (auto simp: loop_step_def Let_def responses_on_def)

lemma responses_on_simps [simp]:
  "responses_on (c\<lparr>mc_id := x\<rparr>) = responses_on c" "responses_on (c\<lparr>mc_queue := q\<rparr>) = responses_on c"
  by (simp_all add: responses_on_def)

lemma responses_step:
  assumes "mux_exec P rw br a s = Some s'" and "r \<in> responses_on (mx_conn s' k)"
  shows "r \<in> responses_on (mx_conn s k) \<or> br r (mx_conn s k)"
proof (cases a)
  case (MxAcquire i b now)
  then have "exec_acquire i b now s = Some s'" using assms(1) by simp
  then have "mx_conn s' k = (mx_conn s k)\<lparr>mc_id := mc_id (mx_conn s' k)\<rparr>" by (rule acquire_fields) blast
  then have "responses_on (mx_conn s' k) = responses_on ((mx_conn s k)\<lparr>mc_id := mc_id (mx_conn s' k)\<rparr>)" by (rule arg_cong)
  then show ?thesis using assms(2) by simp
next
  case (MxRoute q)
  then have "exec_route q s = Some s'" using assms(1) by simp
  then show ?thesis
    by (cases rule: route_fields) (use assms(2) in \<open>auto simp: responses_on_def set_conn_def split: if_splits\<close>)
next
  case (MxTake q ok)
  then show ?thesis using assms
    by (auto simp: exec_take_def set_conn_def Let_def split: list.splits if_splits prod.splits dest!: responses_loop)
next
  case (MxFetch q ok)
  then obtain resp rest where q: "mc_wire (mx_conn s q) = resp # rest"
    using assms(1) by (auto simp: exec_fetch_def Let_def split: list.splits)
  have sub: "responses_on ((mx_conn s q)\<lparr>mc_wire := rest\<rparr>) \<subseteq> responses_on (mx_conn s q)"
    "resp \<in> responses_on (mx_conn s q)" by (auto simp: responses_on_def q)
  have more: "x = resp \<or> x \<in> responses_on c" if "x \<in> responses_on (c\<lparr>mc_read := mc_read c @ [resp]\<rparr>)" for x and c :: mux_conn
    using that
    by (auto simp: responses_on_def)
  show ?thesis using assms MxFetch sub(2)
    by (auto simp: exec_fetch_def q set_conn_def Let_def split: if_splits prod.splits dest!: responses_loop more subsetD[OF sub(1)])
next
  case (MxLoop q e)
  then show ?thesis using assms
    by (auto simp: exec_loop_def set_conn_def Let_def split: if_splits prod.splits dest!: responses_loop)
next
  case (MxAnswer q r)
  then show ?thesis using assms
    by (auto simp: exec_answer_def set_conn_def responses_on_def Let_def split: if_splits)
qed (use assms in \<open>auto simp: exec_frame_def exec_check_def exec_register_def exec_alloc_def alloc_cid_u_def
    exec_insert_def exec_count_def exec_send_def exec_send_failed_def exec_uncount_def exec_leave_def exec_cleanup_def
    exec_retain_def exec_removed_def exec_shut_def exec_deliver_def exec_reply_def exec_tick_def exec_drained_def
    resp_after_def mux_updates Let_def responses_on_def simp del: pool_exec.simps
    split: relay_pc.splits option.splits if_splits list.splits dest!: give_back_view\<close>)

lemma answered_step:
  assumes "mux_exec P rw br a s = Some s'" and "kafka_broker br" and "answered (mx_conn s k)"
  shows "answered (mx_conn s' k)"
  using responses_step[OF assms(1)] assms(2,3) answers_mono conns_grow[OF assms(1)]
  unfolding answered_def kafka_broker_def by blast

section \<open>What a client gets\<close>

text \<open>The frame a client gets for the response \<open>resp\<close> to its request \<open>data\<close>.\<close>

definition reply_frame :: "('r1, 'r2, 'r3) kafka_protocol \<Rightarrow> rewrite_map \<Rightarrow> bytes \<Rightarrow> bytes \<Rightarrow> bytes" where
  "reply_frame P rw data resp =
     (case parse_request_header data of
        None \<Rightarrow> []
      | Some (k, v, d) \<Rightarrow>
          put_i32 d @ drop 4 (case rewrite_response P k v resp rw of Some out \<Rightarrow> out | None \<Rightarrow> resp))"

text \<open>An answered request of client \<open>i\<close>: the id it was issued under, the request, and a response with
  that id, after a broker has received the request.\<close>

definition heard :: "mux \<Rightarrow> i32 \<Rightarrow> bytes \<Rightarrow> bool" where
  "heard s u data \<longleftrightarrow> (\<exists>k. upstream_frame u data \<in> set (wl_sent (mc_wl (mx_conn s k))))"

fun own_reply :: "mux \<Rightarrow> client \<Rightarrow> i32 \<times> bytes \<times> bytes \<Rightarrow> bool" where
  "own_reply s i (u, data, resp) \<longleftrightarrow> (u, i, data) \<in> set (mx_issued s) \<and> parse_request_header data \<noteq> None
     \<and> heard s u data \<and> parse_response_cid resp = Some u"

text \<open>The id of an answered request is used up: it is neither in the table nor in the hands of a read
  loop, and no task has it.\<close>

definition used_up :: "mux \<Rightarrow> i32 \<Rightarrow> bool" where
  "used_up s u \<longleftrightarrow> dm_get (remap_map (mx_remap s)) u = None \<and> (\<forall>k. held_cid (mx_conn s k) \<noteq> Some u)"

definition replies_ok :: "('r1, 'r2, 'r3) kafka_protocol \<Rightarrow> rewrite_map \<Rightarrow> client \<Rightarrow> mux \<Rightarrow> bool" where
  "replies_ok P rw i s \<longleftrightarrow> (\<exists>ds lost.
     map (\<lambda>(u, data, resp). reply_frame P rw data resp) ds = rs_down (mx_resp s i) @ lost @ ch_queue (mx_chans s i)
     \<and> (rs_running (mx_resp s i) \<longrightarrow> lost = []) \<and> distinct (map fst ds)
     \<and> (\<forall>x \<in> set ds. own_reply s i x \<and> used_up s (fst x)))"

lemma heard_step: "mux_exec P rw br a s = Some s' \<Longrightarrow> heard s u data \<Longrightarrow> heard s' u data"
  using conns_grow unfolding heard_def grows_def by blast

lemma own_reply_step: "mux_exec P rw br a s = Some s' \<Longrightarrow> own_reply s i x \<Longrightarrow> own_reply s' i x"
  using heard_step issued_grows(1) by (cases x) fastforce

lemma heard_frame:
  "heard s u data \<Longrightarrow> parse_request_header data \<noteq> None \<Longrightarrow> \<exists>k. \<exists>f \<in> frames_on (mx_conn s k). frame_cid f = Some u"
  using frame_cid_upstream unfolding heard_def frames_on_def by blast

lemma used_up_step:
  assumes step: "mux_exec P rw br a s = Some s'" and core: "core_inv s" and b: "length (mx_issued s') \<le> 2 ^ 31 - 1"
    and own: "own_reply s i x" and used: "used_up s (fst x)"
  shows "used_up s' (fst x)"
proof -
  obtain u data resp where x: "x = (u, data, resp)" by (cases x)
  have inv: "table_inv s" using core by (simp add: core_inv_def)
  obtain k f where f: "f \<in> frames_on (mx_conn s k)" "frame_cid f = Some u"
    using own heard_frame[of s u data] by (auto simp: x)
  have "mx_pc s j \<noteq> RlAlloc d hdr u q" for j d hdr q
  proof
    assume "mx_pc s j = RlAlloc d hdr u q"
    then have "task_cid (mx_pc s j) = Some u" by simp
    then show False using core_apart[OF core step b] f unfolding tasks_apart_def by blast
  qed
  moreover have old: "dm_get (remap_map (mx_remap s)) u = None" "held_cid (mx_conn s k) \<noteq> Some u" for k
    using used unfolding used_up_def x fst_conv by blast+
  ultimately have "dm_get (remap_map (mx_remap s')) u = None" using table_cid_step[OF step inv] by metis
  then show ?thesis using held_cid_step[OF step inv] old unfolding used_up_def x by (metis fst_conv)
qed

text \<open>The response task moves frames from the channel to the client; where it stops it loses them.\<close>

definition reply_moved :: "client \<Rightarrow> mux \<Rightarrow> mux \<Rightarrow> bool" where
  "reply_moved i s s' \<longleftrightarrow>
     mx_resp s' i = mx_resp s i \<and> ch_queue (mx_chans s' i) = ch_queue (mx_chans s i)
   \<or> rs_running (mx_resp s i)
     \<and> (\<exists>lost. rs_down (mx_resp s' i) @ lost @ ch_queue (mx_chans s' i) = rs_down (mx_resp s i) @ ch_queue (mx_chans s i)
         \<and> (rs_running (mx_resp s' i) \<longrightarrow> lost = []))"

lemma replies_kept:
  assumes step: "mux_exec P rw br a s = Some s'" and core: "core_inv s" and b: "length (mx_issued s') \<le> 2 ^ 31 - 1"
    and "replies_ok P rw i s" and moved: "reply_moved i s s'"
  shows "replies_ok P rw i s'"
proof -
  obtain ds lost where ds: "map (\<lambda>(u, data, resp). reply_frame P rw data resp) ds =
      rs_down (mx_resp s i) @ lost @ ch_queue (mx_chans s i)" "rs_running (mx_resp s i) \<longrightarrow> lost = []"
    "distinct (map fst ds)" "\<forall>x \<in> set ds. own_reply s i x \<and> used_up s (fst x)"
    using assms(4) by (auto simp: replies_ok_def)
  have x: "\<forall>x \<in> set ds. own_reply s' i x \<and> used_up s' (fst x)"
    using ds(4) own_reply_step[OF step] used_up_step[OF step core b] by blast
  show ?thesis
  proof (cases "mx_resp s' i = mx_resp s i \<and> ch_queue (mx_chans s' i) = ch_queue (mx_chans s i)")
    case True
    then show ?thesis using ds x unfolding replies_ok_def by metis
  next
    case False
    then obtain lost' where l: "rs_down (mx_resp s' i) @ lost' @ ch_queue (mx_chans s' i) = rs_down (mx_resp s i) @ ch_queue (mx_chans s i)"
      "rs_running (mx_resp s' i) \<longrightarrow> lost' = []" "lost = []" using moved ds(2) unfolding reply_moved_def by blast
    then show ?thesis using ds(1,3) x unfolding replies_ok_def
      by (intro exI[of _ ds] exI[of _ lost']) simp
  qed
qed

lemma resp_after_moved:
  assumes "rs_running (mx_resp s i)" and "ch_queue (mx_chans s i) = fs @ ch_queue (mx_chans t i)"
    and "mx_resp t = mx_resp s" and "fs = resp_item e" and "e = RespClosed \<longrightarrow> ch_queue (mx_chans s i) = []"
    and "j \<noteq> i \<longrightarrow> mx_chans t j = mx_chans s j"
  shows "reply_moved j s (resp_after i e t)"
proof (cases "j = i")
  case True
  show ?thesis
  proof (cases e)
    case (RespFrame frame ok)
    then show ?thesis using assms True
      by (auto simp: reply_moved_def resp_after_def Let_def)
  next
    case RespClosed
    then show ?thesis using assms True by (auto simp: reply_moved_def resp_after_def Let_def)
  next
    case (RespTick ok)
    then show ?thesis using assms True by (auto simp: reply_moved_def resp_after_def Let_def)
  qed
qed (use assms in \<open>simp add: reply_moved_def resp_after_def Let_def\<close>)

lemma replies_moved:
  assumes "mux_exec P rw br a s = Some s'" and "\<forall>k now. a \<noteq> MxDeliver k now"
  shows "reply_moved j s s'"
proof -
  have same: "mx_resp s' = mx_resp s \<Longrightarrow> mx_chans s' = mx_chans s \<Longrightarrow> reply_moved j s s'"
    by (simp add: reply_moved_def)
  show ?thesis
  proof (cases a)
    case (MxAcquire i b now)
    then have "exec_acquire i b now s = Some s'" using assms(1) by simp
    then show ?thesis by (rule acquire_fields) (rule same)
  next
    case (MxReply i ok)
    then show ?thesis using assms(1)
      by (auto simp: exec_reply_def split: list.splits if_splits intro!: resp_after_moved)
  next
    case (MxTick i ok)
    then show ?thesis using assms(1)
      by (auto simp: exec_tick_def split: if_splits intro!: resp_after_moved)
  next
    case (MxDrained i)
    then show ?thesis using assms(1)
      by (auto simp: exec_drained_def split: if_splits intro!: resp_after_moved)
  qed (rule same; use assms in \<open>auto simp: data_path alloc_cid_u_def simp del: pool_exec.simps
    split: relay_pc.splits option.splits if_splits list.splits prod.splits dest!: give_back_view\<close>)+
qed

text \<open>The step that matters: a read loop delivers a response. The response answers a request issued
  under its id, and only one was.\<close>

lemma issued_unique:
  assumes "distinct (map fst iss)" and "(u, x) \<in> set iss" and "(u, y) \<in> set iss"
  shows "x = y"
  using assms by (metis eq_key_imp_eq_value)

lemma answered_request:
  assumes "conn_frames_ok (mx_issued s) (mx_conn s k)" and "answers resp (mx_conn s k)"
    and "parse_response_cid resp = Some u" and "(u, i, data) \<in> set (mx_issued s)"
    and "distinct (map fst (mx_issued s))"
  shows "heard s u data"
proof -
  obtain f k' v' where f: "f \<in> set (wl_sent (mc_wl (mx_conn s k)))" "parse_request_header f = Some (k', v', u)"
    using that assms(2,3) by (auto simp: answers_def list_ex_iff split: option.splits)
  then obtain u' j data' where d: "(u', j, data') \<in> set (mx_issued s)" "parse_request_header data' \<noteq> None"
    "f = upstream_frame u' data'" using assms(1) unfolding conn_frames_ok_def frames_on_def issued_frame_def by blast
  then have "u' = u" using f(2) upstream_frame_header[of data' _ _ _ u'] by (cases "parse_request_header data'") auto
  then have "data' = data" using issued_unique[OF assms(5), of u "(j, data')" "(i, data)"] d(1) assms(4) by simp
  then show ?thesis using f(1) d(3) \<open>u' = u\<close> unfolding heard_def by blast
qed

lemma deliver_reply:
  assumes step: "mux_exec P rw br (MxDeliver k now) s = Some s'" and core: "core_inv s" and ids: "ids_inv s'"
    and b: "length (mx_issued s') \<le> 2 ^ 31 - 1" and answered: "answered (mx_conn s k)" and ok: "replies_ok P rw i s"
  shows "replies_ok P rw i s'"
proof -
  obtain resp u e where h: "mc_held (mx_conn s k) = Some (resp, u, e)"
    using step by (auto simp: exec_deliver_def Let_def split: option.splits)
  let ?out = "route_response P resp e rw"
  have s': "mx_conn s' = (mx_conn s)(k := (mx_conn s k)\<lparr>mc_held := None\<rparr>)" "mx_remap s' = mx_remap s"
    "mx_issued s' = mx_issued s" "mx_resp s' = mx_resp s" "mx_chans s' = snd (try_send (re_downstream_tx e) ?out (mx_chans s))"
    using step by (auto simp: exec_deliver_def h Let_def set_conn_def)
  show ?thesis
  proof (cases "ch_queue (mx_chans s' i) = ch_queue (mx_chans s i)")
    case True
    then show ?thesis using replies_kept[OF step core b ok] by (simp add: reply_moved_def s'(4))
  next
    case False
    then have q: "re_downstream_tx e = i" "ch_queue (mx_chans s' i) = ch_queue (mx_chans s i) @ [?out]"
      by (auto simp: s'(5) try_send_def Let_def split: if_splits)
    have c: "conn_frames_ok (mx_issued s) (mx_conn s k)" using core unfolding core_inv_def by blast
    then have u: "parse_response_cid resp = Some u" "entry_ok (mx_issued s) u e"
      using h by (auto simp: conn_frames_ok_def held_ok_def)
    then obtain data where data: "(u, i, data) \<in> set (mx_issued s)"
      "parse_request_header data = Some (re_api_key e, re_api_version e, re_cid_d e)"
      using q(1) by (auto simp: entry_ok_def)
    have "answers resp (mx_conn s k)" using answered h by (auto simp: answered_def responses_on_def)
    then have "heard s u data"
      using answered_request[OF c _ u(1) data(1)] distinct_issued[OF ids b] by (simp add: s'(3))
    then have own: "own_reply s' i (u, data, resp)" using data u(1) heard_step[OF step] by (simp add: s'(3))
    have apart: "dm_get (remap_map (mx_remap s)) u = None" "held_cid (mx_conn s k') = Some u \<Longrightarrow> k' = k" for k'
      using core_apart[OF core step b] h unfolding held_apart_def held_cid_def
      by (metis (mono_tags, lifting) case_prod_conv option.map(2))+
    have "held_cid (mx_conn s' k') \<noteq> Some u" for k'
      using apart(2)[of k'] by (cases "k' = k") (auto simp: s'(1) held_cid_def)
    then have used: "used_up s' u" using apart(1) by (simp add: used_up_def s'(2))
    have out: "?out = reply_frame P rw data resp" by (simp add: route_response_def reply_frame_def data(2))
    obtain ds lost where ds: "map (\<lambda>(u, data, resp). reply_frame P rw data resp) ds =
        rs_down (mx_resp s i) @ lost @ ch_queue (mx_chans s i)" "rs_running (mx_resp s i) \<longrightarrow> lost = []"
      "distinct (map fst ds)" "\<forall>x \<in> set ds. own_reply s i x \<and> used_up s (fst x)"
      using ok by (auto simp: replies_ok_def)
    have "held_cid (mx_conn s k) = Some u" using h by (simp add: held_cid_def)
    then have "u \<notin> fst ` set ds" using ds(4) unfolding used_up_def by blast
    moreover have "\<forall>x \<in> set (ds @ [(u, data, resp)]). own_reply s' i x \<and> used_up s' (fst x)"
      using ds(4) own used own_reply_step[OF step] used_up_step[OF step core b] by auto
    ultimately show ?thesis using ds(1-3) q(2) out s'(4) unfolding replies_ok_def
      by (intro exI[of _ "ds @ [(u, data, resp)]"] exI[of _ lost]) simp
  qed
qed

section \<open>The invariant\<close>

definition mux_inv :: "('r1, 'r2, 'r3) kafka_protocol \<Rightarrow> rewrite_map \<Rightarrow> broker_behaviour \<Rightarrow> mux \<Rightarrow> bool" where
  "mux_inv P rw br s \<longleftrightarrow> core_inv s \<and> (kafka_broker br \<longrightarrow> (\<forall>k. answered (mx_conn s k))
     \<and> (length (mx_issued s) \<le> 2 ^ 31 - 1 \<longrightarrow> (\<forall>i. replies_ok P rw i s)))"

lemma mux_inv_start: "mux_start s \<Longrightarrow> mux_inv P rw br s"
proof -
  assume st: "mux_start s"
  have "answered (conn_start cid m)" for cid m by (simp add: answered_def responses_on_def conn_start_def)
  then have "answered (mx_conn s k)" for k using st unfolding mux_start_def by metis
  then show ?thesis using st core_start[OF st]
    by (simp add: mux_inv_def mux_start_def replies_ok_def resp_start_def)
qed

lemma mux_inv_step:
  assumes "mux_inv P rw br s" and "mux_exec P rw br a s = Some s'"
  shows "mux_inv P rw br s'"
proof -
  have core: "core_inv s" using assms(1) by (simp add: mux_inv_def)
  note core' = core_step[OF core assms(2)]
  have "replies_ok P rw i s'" if br: "kafka_broker br" and b: "length (mx_issued s') \<le> 2 ^ 31 - 1" for i
  proof -
    have "length (mx_issued s) \<le> 2 ^ 31 - 1" using b issued_grows(2)[OF assms(2)] by linarith
    then have i: "\<forall>k. answered (mx_conn s k)" "replies_ok P rw i s" using assms(1) br by (simp_all add: mux_inv_def)
    show ?thesis
    proof (cases "\<exists>k now. a = MxDeliver k now")
      case True
      then obtain k now where a: "a = MxDeliver k now" by blast
      have "answered (mx_conn s k)" using i(1) by blast
      then show ?thesis using deliver_reply[OF assms(2)[unfolded a] core _ b] i(2) core' by (simp add: core_inv_def)
    next
      case False
      then show ?thesis using replies_kept[OF assms(2) core b i(2)] replies_moved[OF assms(2)] by blast
    qed
  qed
  then show ?thesis
    using core' answered_step[OF assms(2)] assms(1) unfolding mux_inv_def by blast
qed

interpretation mux: invariant_system mux_start "mux_step P rw br" "mux_inv P rw br"
  by unfold_locales (auto intro: mux_inv_start mux_inv_step elim: mux_stepE)

section \<open>A run\<close>

text \<open>The state after the start of the pools, with a limit of \<open>l\<close> requests in flight: broker 0 has \<open>n\<close> warm
  connections, made by \<open>warmup\<close>, the other brokers have none.\<close>

definition demo_pool :: "nat \<Rightarrow> nat \<Rightarrow> broker_pool" where
  "demo_pool l n = warmup (\<lambda>_. Inr () :: string + unit) (\<lambda>_. (0, 0))
     (broker_pool_new \<lparr>max_per_broker = 2, min_idle = n, idle_timeout = from_secs 300,
        acquire_timeout = from_secs 5, pl_max_in_flight = l\<rparr> (with_max_in_flight l) (metrics_new True))"

definition demo_start :: "nat \<Rightarrow> nat \<Rightarrow> mux" where
  "demo_start l n =
     \<lparr>mx_pools = \<lambda>b. \<lparr>ps_pool = (if b = 0 then demo_pool l n else demo_pool l 0), ps_pc = \<lambda>_. PcNone, ps_dead = {}\<rparr>,
      mx_remap = bp_remap (demo_pool l n), mx_metrics = bp_metrics (demo_pool l n), mx_broker = \<lambda>_. 0,
      mx_pc = \<lambda>_. RlRead, mx_deadline = \<lambda>_. 0,
      mx_conn = \<lambda>k. conn_start
        (map_option pc_conn_id (find (\<lambda>c. k = (0, pc_write_tx c)) (bp_idle (demo_pool l n)))) (metrics_new True),
      mx_chans = \<lambda>_. \<lparr>ch_queue = [], ch_capacity = REPLY_CAPACITY, ch_open = True\<rparr>,
      mx_resp = \<lambda>_. resp_start, mx_sent = \<lambda>_. [], mx_issued = []\<rparr>"

text \<open>With one warm connection: two clients of one broker send requests under the same correlation id;
  the second client's connection is new, and its response comes first.\<close>

definition demo_mux :: mux where
  "demo_mux = demo_start 8 1"

definition demo_acts :: "mux_action list" where
  "demo_acts =
     [MxFrame 0 (order_request 1), MxCheck 0 5, MxAcquire 0 (ActStart 0) 5, MxAcquire 0 (ActIdle 0 0) 5,
      MxFrame 1 (order_request 1), MxCheck 1 6, MxAcquire 1 (ActStart 1) 6, MxAcquire 1 (ActIdle 1 0) 6,
      MxAcquire 1 (ActReserve 1 0) 6, MxAcquire 1 (ActCreate 1 (Inr ()) 3) 7,
      MxRegister 0, MxRegister 1, MxAlloc 0, MxAlloc 1, MxInsert 1 8, MxInsert 0 8, MxCount 1, MxCount 0,
      MxSend 1, MxSend 0, MxTake (0, 0) True, MxTake (0, 1) True,
      MxAnswer (0, 1) (put_i32 3 @ [8]), MxFetch (0, 1) True, MxRoute (0, 1),
      MxAnswer (0, 0) (put_i32 2 @ [7]), MxFetch (0, 0) True, MxRoute (0, 0), MxDeliver (0, 0) 9, MxDeliver (0, 1) 9,
      MxReply 0 True, MxReply 1 True]"

lemma demo_pool_idle:
  "bp_idle (demo_pool l 0) = []" "bp_idle (demo_pool l 1) = [\<lparr>pc_write_tx = 0, pc_alive = True, pc_last_used = 0, pc_conn_id = 1\<rparr>]"
  "bp_idle (demo_pool l 2) = [\<lparr>pc_write_tx = 0, pc_alive = True, pc_last_used = 0, pc_conn_id = 1\<rparr>,
     \<lparr>pc_write_tx = 1, pc_alive = True, pc_last_used = 0, pc_conn_id = 2\<rparr>]"
  by (simp_all add: demo_pool_def warmup_def create_conn_def alloc_conn_id_def broker_pool_new_def with_max_in_flight_def
      Let_def upt_rec[of _ 2])

lemma demo_start_ok: "mux_start (demo_start l 1)" "mux_start (demo_start l 2)"
proof -
  have table: "remap_map (bp_remap (demo_pool l n)) = dm_new" "next_cid (bp_remap (demo_pool l n)) = 1"
    "requests_in_flight (bp_metrics (demo_pool l n)) = 0" "cid_map_entries (bp_metrics (demo_pool l n)) = 0" if "n \<in> {1, 2}" for n
    using that by (auto simp: demo_pool_def warmup_def create_conn_def alloc_conn_id_def broker_pool_new_def
        with_max_in_flight_def metrics_new_def metrics_ops metrics_observations Let_def upt_rec[of _ 2])
  show "mux_start (demo_start l 1)" "mux_start (demo_start l 2)"
    by (simp_all add: mux_start_def demo_start_def table demo_pool_idle conn_start_def del: One_nat_def)
qed

lemmas mux_eval =
  demo_mux_def demo_start_def demo_pool_def warmup_def upt_rec[of _ 2]
  exec_frame_def exec_check_def lease_def give_back_def exec_acquire_def goto_def acquire_idle_def acquire_reserve_def
  acquire_create_def create_conn_def alloc_conn_id_def broker_pool_new_def exec_register_def exec_alloc_def
  exec_insert_def exec_count_def remap_ops release_def
  with_max_in_flight_def dm_len_def dm_new_def dm_insert_def dm_remove_def dm_retain_def dm_get_def next_cid_one exec_send_def
  exec_take_def loop_step_def exec_answer_def exec_fetch_def exec_loop_def exec_cleanup_def exec_retain_def
  exec_removed_def exec_shut_def exec_leave_def exec_route_def exec_deliver_def exec_reply_def conn_start_def
  WRITE_CAPACITY_def READ_CAPACITY_def REPLY_CAPACITY_def answers_def order_request_header
  upstream_frame_header[OF order_request_header] try_send_def resp_after_def resp_start_def
  route_response_def mux_updates Let_def

lemma fetch_not_rewritten: "rewrite_response P 1 11 d rw = None"
  by (rule rewrite_response_needs) (simp add: needs_rewrite_def api_keys)

lemma demo_run: "\<exists>s. mux_run demo_protocol demo_rewrite answers demo_acts demo_mux = Some s
    \<and> rs_down (mx_resp s 0) = [put_i32 1 @ [7]] \<and> rs_down (mx_resp s 1) = [put_i32 1 @ [8]]
    \<and> mx_issued s = [(2, 0, order_request 1), (3, 1, order_request 1)]"
  by (simp add: demo_acts_def mux_eval fetch_not_rewritten)

text \<open>With two warm connections: the lease of a client expires between two requests.\<close>

definition order_acts :: "bytes \<Rightarrow> bytes \<Rightarrow> mux_action list" where
  "order_acts b b' =
     [MxFrame 0 (order_request 1), MxCheck 0 5, MxAcquire 0 (ActStart 0) 5, MxAcquire 0 (ActIdle 0 0) 5,
      MxRegister 0, MxAlloc 0, MxInsert 0 6, MxCount 0, MxSend 0,
      MxFrame 0 (order_request 2), MxCheck 0 (5 + LEASE_DURATION), MxAcquire 0 (ActStart 0) (5 + LEASE_DURATION),
      MxAcquire 0 (ActIdle 0 0) (6 + LEASE_DURATION),
      MxRegister 0, MxAlloc 0, MxInsert 0 (7 + LEASE_DURATION), MxCount 0, MxSend 0,
      MxTake (0, 0) True, MxTake (0, 1) True,
      MxAnswer (0, 1) (put_i32 3 @ b'), MxFetch (0, 1) True, MxRoute (0, 1), MxDeliver (0, 1) (8 + LEASE_DURATION), MxReply 0 True,
      MxAnswer (0, 0) (put_i32 2 @ b), MxFetch (0, 0) True, MxRoute (0, 0), MxDeliver (0, 0) (9 + LEASE_DURATION), MxReply 0 True]"

lemma order_run: "\<exists>s. mux_run P rw answers (order_acts b b') (demo_start 8 2) = Some s
    \<and> mx_sent s 0 = [order_request 1, order_request 2]
    \<and> wl_sent (mc_wl (mx_conn s (0, 0))) = [upstream_frame 2 (order_request 1)]
    \<and> wl_sent (mc_wl (mx_conn s (0, 1))) = [upstream_frame 3 (order_request 2)]
    \<and> rs_down (mx_resp s 0) = [put_i32 2 @ b', put_i32 1 @ b]"
  by (simp add: order_acts_def mux_eval fetch_not_rewritten LEASE_DURATION_def)

section \<open>Properties\<close>



text \<open>C9: The order of a client's requests is not kept. From a start with two warm connections, and with
  brokers that answer only what they have received, a run is reachable in which a client's lease
  expires between its two requests, the requests go out over different connections, and the client
  gets the second one's response first. A Kafka client expects the responses of a connection in the
  order of its requests.\<close>

theorem lease_switch_reorders:
  "\<exists>s. reach mux_start (mux_step P rw answers) s \<and> mx_sent s 0 = [order_request 1, order_request 2]
     \<and> wl_sent (mc_wl (mx_conn s (0, 0))) = [upstream_frame 2 (order_request 1)]
     \<and> wl_sent (mc_wl (mx_conn s (0, 1))) = [upstream_frame 3 (order_request 2)]
     \<and> rs_down (mx_resp s 0) = [put_i32 2 @ b', put_i32 1 @ b]"
proof -
  obtain s where s: "mux_run P rw answers (order_acts b b') (demo_start 8 2) = Some s"
    "mx_sent s 0 = [order_request 1, order_request 2]"
    "wl_sent (mc_wl (mx_conn s (0, 0))) = [upstream_frame 2 (order_request 1)]"
    "wl_sent (mc_wl (mx_conn s (0, 1))) = [upstream_frame 3 (order_request 2)]"
    "rs_down (mx_resp s 0) = [put_i32 2 @ b', put_i32 1 @ b]"
    using order_run by blast
  have "reach mux_start (mux_step P rw answers) s"
    by (rule mux_run_reach[OF s(1)]) (rule reach_init, rule demo_start_ok(2))
  then show ?thesis using s(2-5) by blast
qed

end
