(* ===== verification/MuxLeak.thy ===== *)
theory MuxLeak
  imports MuxSafety
begin

text \<open>
  Two more properties of pooled mode as one system: the shape of its state, and what becomes of a
  request that is handed to a connection between the clean-up of the connection's requests and the
  closing of its write channel.
\<close>

section \<open>The shape of the state\<close>

text \<open>Queues are within the capacities of their channels, a connection ends in the order of the
  code, and a reply channel is open exactly while its response task runs; a closed one is empty.\<close>

definition conn_shape :: "mux_conn \<Rightarrow> bool" where
  "conn_shape c \<longleftrightarrow> length (mc_queue c) \<le> WRITE_CAPACITY \<and> length (mc_read c) \<le> READ_CAPACITY
     \<and> (mc_before c \<noteq> None \<longrightarrow> \<not> wl_running (mc_wl c)) \<and> (mc_swept c \<longrightarrow> mc_before c \<noteq> None)
     \<and> (mc_cleaned c \<longrightarrow> mc_swept c) \<and> (mc_closed c \<longrightarrow> mc_cleaned c)"

definition chan_shape :: "chan \<Rightarrow> resp_state \<Rightarrow> bool" where
  "chan_shape ch r \<longleftrightarrow> length (ch_queue ch) \<le> REPLY_CAPACITY \<and> ch_capacity ch = REPLY_CAPACITY
     \<and> ch_open ch = rs_running r \<and> (\<not> ch_open ch \<longrightarrow> ch_queue ch = [])"

definition shape_inv :: "mux \<Rightarrow> bool" where
  "shape_inv s \<longleftrightarrow> (\<forall>k. conn_shape (mx_conn s k)) \<and> (\<forall>i. chan_shape (mx_chans s i) (mx_resp s i))"

lemma shape_conn_one:
  "shape_inv s \<Longrightarrow> mx_conn s' = (mx_conn s)(k := c) \<Longrightarrow> conn_shape c \<Longrightarrow> mx_chans s' = mx_chans s \<Longrightarrow>
     mx_resp s' = mx_resp s \<Longrightarrow> shape_inv s'"
  by (simp add: shape_inv_def)

lemma shape_same:
  "shape_inv s \<Longrightarrow> mx_conn s' = mx_conn s \<Longrightarrow> mx_chans s' = mx_chans s \<Longrightarrow> mx_resp s' = mx_resp s \<Longrightarrow> shape_inv s'"
  by (simp add: shape_inv_def)

lemma conn_shape_loop:
  assumes "conn_shape c" and "loop_step e c' m = (c'', m')" and "wl_running (mc_wl c)"
    and "length (mc_queue c') \<le> length (mc_queue c)" and "c' = c\<lparr>mc_queue := mc_queue c', mc_wire := w\<rparr>"
  shows "conn_shape c'' \<and> mc_read c'' = mc_read c"
proof -
  have c: "mc_read c' = mc_read c" "mc_before c' = mc_before c" "mc_swept c' = mc_swept c" "mc_cleaned c' = mc_cleaned c"
    "mc_closed c' = mc_closed c" by (subst assms(5), simp)+
  show ?thesis using assms(1,3,4) loop_step_fields[OF assms(2)] c by (auto simp: conn_shape_def)
qed

lemma chan_shape_send:
  "\<forall>i. chan_shape (chans i) (r i) \<Longrightarrow> chan_shape (snd (try_send tx f chans) i) (r i)"
  by (auto simp: try_send_def chan_shape_def Let_def)

lemma shape_resp_after:
  assumes "shape_inv s" and "rs_running (mx_resp s i)" and "mx_chans t = (mx_chans s)(i := (mx_chans s i)\<lparr>ch_queue := q\<rparr>)"
    and "length q \<le> REPLY_CAPACITY" and "mx_resp t = mx_resp s" and "mx_conn t = mx_conn s"
  shows "shape_inv (resp_after i e t)"
  using assms by (auto simp: shape_inv_def resp_after_def Let_def chan_shape_def)

lemma shape_exec:
  assumes "mux_exec P rw br a s = Some s'" and "shape_inv s"
  shows "shape_inv s'"
proof -
  have c: "conn_shape (mx_conn s k)" and ch: "\<forall>i. chan_shape (mx_chans s i) (mx_resp s i)" for k
    using assms(2) unfolding shape_inv_def by blast+
  note one = shape_conn_one[OF assms(2)]
  show ?thesis
  proof (cases a)
    case (MxAcquire i b now)
    then have "exec_acquire i b now s = Some s'" using assms(1) by simp
    then show ?thesis
    proof (rule acquire_fields)
      assume f: "mx_chans s' = mx_chans s" "mx_resp s' = mx_resp s"
        and k: "\<forall>k. mx_conn s' k = (mx_conn s k)\<lparr>mc_id := mc_id (mx_conn s' k)\<rparr>"
      have "conn_shape (mx_conn s' k)" for k using c[of k] by (subst k[rule_format]) (simp add: conn_shape_def)
      then show ?thesis using ch by (simp add: shape_inv_def f)
    qed
  next
    case (MxSend i)
    then obtain k f pc where "length (mc_queue (mx_conn s k)) < WRITE_CAPACITY"
      "s' = set_pc i pc (set_conn k ((mx_conn s k)\<lparr>mc_queue := mc_queue (mx_conn s k) @ [f]\<rparr>) s)"
      using assms(1) by (auto simp: exec_send_def Let_def split: relay_pc.splits if_splits)
    then show ?thesis using c[of k] by (intro one[of s' k]) (auto simp: mux_updates conn_shape_def)
  next
    case (MxTake k ok)
    then show ?thesis using assms(1)
      by (auto simp: exec_take_def Let_def set_conn_def split: list.splits if_splits prod.splits
          intro!: one[of _ k] dest!: conn_shape_loop[OF c[of k], where w = "mc_wire (mx_conn s k)"])
  next
    case (MxFetch k ok)
    then show ?thesis using assms(1)
      by (auto simp: exec_fetch_def Let_def set_conn_def split: list.splits if_splits prod.splits
          intro!: one[of _ k] dest!: conn_shape_loop[OF c[of k]]) (auto simp: conn_shape_def)
  next
    case (MxLoop k e)
    then show ?thesis using assms(1)
      by (auto simp: exec_loop_def Let_def set_conn_def split: if_splits prod.splits
          intro!: one[of _ k] dest!: conn_shape_loop[OF c[of k], where w = "mc_wire (mx_conn s k)"])
  next
    case (MxAnswer k r)
    then show ?thesis using assms(1) c[of k]
      by (auto simp: exec_answer_def Let_def set_conn_def conn_shape_def split: if_splits intro!: one[of _ k])
  next
    case (MxCleanup k)
    then show ?thesis using assms(1) c[of k]
      by (auto simp: exec_cleanup_def Let_def set_conn_def conn_shape_def split: if_splits intro!: one[of _ k])
  next
    case (MxRetain k)
    then show ?thesis using assms(1) c[of k]
      by (auto simp: exec_retain_def Let_def set_conn_def conn_shape_def split: if_splits option.splits intro!: one[of _ k])
  next
    case (MxRemoved k checks)
    then show ?thesis using assms(1) c[of k]
      by (auto simp: exec_removed_def Let_def set_conn_def conn_shape_def split: if_splits option.splits intro!: one[of _ k])
  next
    case (MxShut k)
    then show ?thesis using assms(1) c[of k]
      by (auto simp: exec_shut_def Let_def set_conn_def conn_shape_def split: if_splits intro!: one[of _ k])
  next
    case (MxRoute k)
    then have "exec_route k s = Some s'" using assms(1) by simp
    then show ?thesis using c[of k]
      by (cases rule: route_fields) (auto simp: set_conn_def conn_shape_def intro!: one[of _ k])
  next
    case (MxDeliver k now)
    then obtain tx f where f: "mx_conn s' = (mx_conn s)(k := (mx_conn s k)\<lparr>mc_held := None\<rparr>)"
      "mx_chans s' = snd (try_send tx f (mx_chans s))" "mx_resp s' = mx_resp s"
      using assms(1) by (auto simp: exec_deliver_def Let_def set_conn_def split: option.splits)
    have "conn_shape ((mx_conn s k)\<lparr>mc_held := None\<rparr>)" using c[of k] by (simp add: conn_shape_def)
    then show ?thesis using c chan_shape_send[OF ch] by (simp add: shape_inv_def f)
  next
    case (MxReply i ok)
    then obtain f rest where q: "ch_queue (mx_chans s i) = f # rest" "rs_running (mx_resp s i)"
      using assms(1) by (auto simp: exec_reply_def split: list.splits if_splits)
    then have "length rest \<le> REPLY_CAPACITY" using ch by (auto simp: chan_shape_def dest!: spec[of _ i])
    then show ?thesis using assms(1) MxReply q
      by (auto simp: exec_reply_def intro!: shape_resp_after[OF assms(2) q(2)])
  next
    case (MxTick i ok)
    moreover have "length (ch_queue (mx_chans s i)) \<le> REPLY_CAPACITY" using ch by (simp add: chan_shape_def)
    ultimately show ?thesis using assms(1)
      by (auto simp: exec_tick_def split: if_splits intro!: shape_resp_after[OF assms(2), where q = "ch_queue (mx_chans s i)"])
  next
    case (MxDrained i)
    moreover have "length (ch_queue (mx_chans s i)) \<le> REPLY_CAPACITY" using ch by (simp add: chan_shape_def)
    ultimately show ?thesis using assms(1)
      by (auto simp: exec_drained_def split: if_splits intro!: shape_resp_after[OF assms(2), where q = "ch_queue (mx_chans s i)"])
  qed (rule shape_same[OF assms(2)]; use assms(1) in \<open>auto simp: data_path alloc_cid_u_def
    simp del: pool_exec.simps
    split: relay_pc.splits option.splits if_splits list.splits prod.splits dest!: give_back_view\<close>)+
qed

lemma shape_start: "mux_start s \<Longrightarrow> shape_inv s"
proof -
  assume st: "mux_start s"
  have "conn_shape (conn_start cid m)" for cid m by (simp add: conn_shape_def conn_start_def)
  then have "conn_shape (mx_conn s k)" for k using st unfolding mux_start_def by metis
  then show ?thesis using st by (simp add: shape_inv_def mux_start_def chan_shape_def resp_start_def)
qed

interpretation mux_shape: invariant_system mux_start "mux_step P rw br" shape_inv
  by unfold_locales (auto intro: shape_start shape_exec elim: mux_stepE)

section \<open>Connection ids\<close>

lemma next_conn_same:
  "pool_exec a s = Some s' \<Longrightarrow> \<not> is_create a \<Longrightarrow>
     next_conn_id (bp_remap (ps_pool s')) = next_conn_id (bp_remap (ps_pool s))"
  by (cases a) (auto simp: goto_def acquire_idle_def acquire_reserve_def acquire_enqueue_def acquire_woken_def
      take_notification_def acquire_timed_out_def release_def reaper_tick_def register_request_def
      write_loop_exit_def fail_conn_def remap_insert_def insert_commit_def insert_check_def alloc_cid_u_def Let_def
      split: acq_pc.splits prod.splits option.splits list.splits sum.splits if_splits bool.splits)

lemma create_conn_id:
  "pool_exec (ActCreate t con el) s = Some s' \<Longrightarrow>
     (\<exists>q. ps_pc s' t = PcHold q \<and> acq_conn_id q = next_conn_id (bp_remap (ps_pool s))
        \<and> next_conn_id (bp_remap (ps_pool s')) = next_conn_id (bp_remap (ps_pool s)) + 1)
   \<or> ps_pc s' t = PcNone \<and> next_conn_id (bp_remap (ps_pool s')) = next_conn_id (bp_remap (ps_pool s))"
  by (auto simp: goto_def acquire_create_def create_conn_def alloc_conn_id_def Let_def
      split: acq_pc.splits sum.splits if_splits)

text \<open>A connection keeps its id, except that a new one gets the next id.\<close>

definition ids_flow :: "mux \<Rightarrow> mux \<Rightarrow> bool" where
  "ids_flow s s' \<longleftrightarrow>
     next_conn_id (mx_remap s') \<in> {next_conn_id (mx_remap s), next_conn_id (mx_remap s) + 1}
   \<and> (\<forall>k. mc_id (mx_conn s' k) \<in> {mc_id (mx_conn s k), Some (next_conn_id (mx_remap s))}
        \<and> (mc_id (mx_conn s' k) \<noteq> mc_id (mx_conn s k) \<longrightarrow> next_conn_id (mx_remap s') = next_conn_id (mx_remap s) + 1))"

lemma ids_flow_same:
  "next_conn_id (mx_remap s') = next_conn_id (mx_remap s) \<Longrightarrow> \<forall>k. mc_id (mx_conn s' k) = mc_id (mx_conn s k) \<Longrightarrow> ids_flow s s'"
  by (simp add: ids_flow_def)

lemma next_conn_pool:
  "pool_exec a (pool_view b s) = Some ps \<Longrightarrow> \<not> is_create a \<Longrightarrow>
     next_conn_id (bp_remap (ps_pool ps)) = next_conn_id (mx_remap s)"
  using next_conn_same[of a "pool_view b s" ps] by (simp add: pool_view_def)

lemma next_conn_give_back: "give_back i now s = Some s' \<Longrightarrow> next_conn_id (mx_remap s') = next_conn_id (mx_remap s)"
  using next_conn_pool[of "ActRelease i now"]
  by (auto simp: give_back_def pool_commit_def simp del: pool_exec.simps split: option.splits)

lemma give_back_keeps: "give_back i now s = Some s' \<Longrightarrow>
    next_conn_id (mx_remap s') = next_conn_id (mx_remap s) \<and> mx_conn s' = mx_conn s"
  using next_conn_give_back give_back_view by blast

lemma ids_flow_acquire:
  assumes "exec_acquire i a now s = Some s'"
  shows "ids_flow s s'"
proof -
  let ?b = "mx_broker s i"
  obtain data hdr where pc: "mx_pc s i = RlAcquire data hdr" "acquire_section i a"
    using assms by (auto simp: exec_acquire_def split: relay_pc.splits if_splits)
  then obtain ps where ps: "pool_exec a (pool_view ?b s) = Some ps"
    using assms by (auto simp: exec_acquire_def Let_def split: option.splits)
  show ?thesis
  proof (cases "is_create a")
    case False
    then have "next_conn_id (bp_remap (ps_pool ps)) = next_conn_id (mx_remap s)" using next_conn_pool[OF ps] by simp
    then show ?thesis using assms False
      by (intro ids_flow_same) (auto simp: exec_acquire_def pc ps Let_def mux_updates(1-3) split: acq_pc.splits)
  next
    case True
    then obtain con el where a: "a = ActCreate i con el" using pc(2) by (cases a) auto
    consider q where "ps_pc ps i = PcHold q" "acq_conn_id q = next_conn_id (mx_remap s)"
        "next_conn_id (bp_remap (ps_pool ps)) = next_conn_id (mx_remap s) + 1"
      | "ps_pc ps i = PcNone" "next_conn_id (bp_remap (ps_pool ps)) = next_conn_id (mx_remap s)"
      using create_conn_id[OF ps[unfolded a]] by (auto simp: pool_view_def)
    then show ?thesis
    proof cases
      case 1
      then show ?thesis using assms True
        by (auto simp: exec_acquire_def pc ps Let_def mux_updates(1-3) ids_flow_def)
    next
      case 2
      then show ?thesis using assms by (auto simp: exec_acquire_def pc ps Let_def mux_updates(1-3) ids_flow_def)
    qed
  qed
qed

lemma ids_flow_exec:
  assumes "mux_exec P rw br a s = Some s'"
  shows "ids_flow s s'"
proof (cases a)
  case (MxAcquire i b now)
  then show ?thesis using assms ids_flow_acquire by simp
next
  case (MxReap b now)
  then show ?thesis using assms
    by (intro ids_flow_same) (auto simp: mux_updates(2,3) simp del: pool_exec.simps dest!: next_conn_pool)
qed (rule ids_flow_same; use assms in \<open>auto simp: data_path alloc_cid_u_def goto_def
    split: relay_pc.splits option.splits if_splits list.splits prod.splits
    dest!: give_back_keeps loop_step_fields\<close>)+

section \<open>How an entry leaves the table\<close>

text \<open>By a response with its id, by the failure of its own send, or by the clean-up of the connection
  it was registered for; an insertion replaces it only if it has the same id.\<close>

definition takes_entry :: "i32 \<Rightarrow> route_entry \<Rightarrow> mux_action \<Rightarrow> mux \<Rightarrow> bool" where
  "takes_entry u e a s =
     (case a of
        MxRoute k \<Rightarrow> (case mc_read (mx_conn s k) of resp # _ \<Rightarrow> parse_response_cid resp = Some u | [] \<Rightarrow> False)
      | MxSendFailed i \<Rightarrow> task_cid (mx_pc s i) = Some u
      | MxRetain k \<Rightarrow> mc_id (mx_conn s k) = Some (re_conn_id e)
      | MxInsert i now \<Rightarrow> task_cid (mx_pc s i) = Some u
      | _ \<Rightarrow> False)"

lemma entry_kept:
  assumes "mux_exec P rw br a s = Some s'" and "dm_inv (remap_map (mx_remap s))"
    and "dm_get (remap_map (mx_remap s)) u = Some e" and "\<not> takes_entry u e a s"
  shows "dm_get (remap_map (mx_remap s')) u = Some e"
proof -
  have same: "remap_map (mx_remap s') = remap_map (mx_remap s) \<Longrightarrow> ?thesis" using assms(3) by simp
  show ?thesis
  proof (cases a)
    case (MxInsert i now)
    then have "exec_insert i now s = Some s'" using assms(1) by simp
    then show ?thesis using assms(2-4)
      by (elim insert_fields) (auto simp: set_pc_def MxInsert takes_entry_def dm.get_ins)
  next
    case (MxSendFailed i)
    then show ?thesis using assms
      by (auto simp: exec_send_failed_def Let_def mux_updates goto_def takes_entry_def dm.get_rem
          split: relay_pc.splits if_splits)
  next
    case (MxRetain k)
    then show ?thesis using assms
      by (auto simp: exec_retain_def Let_def set_conn_def takes_entry_def dm.get_ret split: option.splits if_splits)
  next
    case (MxRoute k)
    then have "exec_route k s = Some s'" using assms(1) by simp
    then show ?thesis using assms(2-4)
      by (cases rule: route_fields) (auto simp: set_conn_def MxRoute takes_entry_def dm.get_rem)
  next
    case (MxAcquire i b now)
    then have "exec_acquire i b now s = Some s'" using assms(1) by simp
    then show ?thesis by (rule acquire_fields) (rule same)
  next
    case (MxReap b now)
    then show ?thesis using assms(1) view_fields[of "ActReap now" b s]
      by (intro same) (auto simp: mux_updates(3) calm_def simp del: pool_exec.simps)
  qed (rule same; use assms(1) in \<open>auto simp: data_path loop_step_def alloc_cid_u_def
    split: relay_pc.splits option.splits if_splits list.splits prod.splits dest!: give_back_view\<close>)+
qed

section \<open>Orphans\<close>

text \<open>An entry that nothing takes out of the table any more: its request is on its way to no broker,
  and no connection with its connection's id is still to be swept.\<close>

definition orphan :: "i32 \<Rightarrow> route_entry \<Rightarrow> mux \<Rightarrow> bool" where
  "orphan u e s \<longleftrightarrow> dm_get (remap_map (mx_remap s)) u = Some e
     \<and> (\<forall>j. task_cid (mx_pc s j) \<noteq> Some u)
     \<and> (\<forall>k. \<forall>f \<in> frames_moving (mx_conn s k). frame_cid f \<noteq> Some u)
     \<and> (\<forall>k. mc_id (mx_conn s k) = Some (re_conn_id e) \<longrightarrow> mc_swept (mx_conn s k))
     \<and> re_conn_id e < next_conn_id (mx_remap s)"

lemma orphan_not_taken:
  assumes "mux_exec P rw br a s = Some s'" and "mux_inv P rw br s" and "kafka_broker br" and "orphan u e s"
  shows "\<not> takes_entry u e a s"
proof
  assume t: "takes_entry u e a s"
  show False
  proof (cases a)
    case (MxRoute k)
    then obtain resp rest where r: "mc_read (mx_conn s k) = resp # rest" "parse_response_cid resp = Some u"
      using t by (auto simp: takes_entry_def split: list.splits)
    moreover have "answered (mx_conn s k)" using assms(2,3) unfolding mux_inv_def by blast
    ultimately have "answers resp (mx_conn s k)" by (simp add: answered_def responses_on_def)
    then obtain f where "f \<in> set (wl_sent (mc_wl (mx_conn s k)))" "frame_cid f = Some u"
      using r(2) by (auto simp: answers_def list_ex_iff frame_cid_def split: option.splits)
    then show False using assms(4) unfolding orphan_def frames_moving_def by blast
  next
    case (MxRetain k)
    then have "mc_id (mx_conn s k) = Some (re_conn_id e)" using t by (simp add: takes_entry_def)
    then have "mc_swept (mx_conn s k)" using assms(4) unfolding orphan_def by blast
    then show False using assms(1) MxRetain by (auto simp: exec_retain_def Let_def split: option.splits)
  qed (use t assms(4) in \<open>simp_all add: takes_entry_def orphan_def\<close>)
qed

lemma orphan_exec:
  assumes step: "mux_exec P rw br a s = Some s'" and inv: "mux_inv P rw br s" and br: "kafka_broker br"
    and orphan: "orphan u e s" and b: "length (mx_issued s') \<le> 2 ^ 31 - 1"
    and wrap: "unat (next_conn_id (mx_remap s)) + 1 < 2 ^ 64"
  shows "orphan u e s'"
proof -
  have core: "core_inv s" using inv by (simp add: mux_inv_def)
  then have old: "dm_inv (remap_map (mx_remap s))" "ids_inv s'" "table_inv s"
    using core_step[OF core step] by (simp_all add: core_inv_def table_inv_def)
  have o: "dm_get (remap_map (mx_remap s)) u = Some e" "task_cid (mx_pc s j) \<noteq> Some u"
    "f \<in> frames_moving (mx_conn s k) \<Longrightarrow> frame_cid f \<noteq> Some u"
    "mc_id (mx_conn s k) = Some (re_conn_id e) \<Longrightarrow> mc_swept (mx_conn s k)"
    "re_conn_id e < next_conn_id (mx_remap s)" for j f k
    using orphan unfolding orphan_def by blast+
  have kept: "dm_get (remap_map (mx_remap s')) u = Some e"
    by (rule entry_kept[OF step old(1) o(1) orphan_not_taken[OF step inv br orphan]])
  have "u \<in> fst ` set (mx_issued s)" using old(3) o(1) entry_ok_issued unfolding table_inv_def by blast
  then have task: "task_cid (mx_pc s' j) \<noteq> Some u" for j
    using task_cid_step[OF step, of j u] o(2)[of j] alloc_new[OF step core old(2) b, of j u] by blast
  have moving: "frame_cid f \<noteq> Some u" if f: "f \<in> frames_moving (mx_conn s' k)" for f k
  proof (cases "\<exists>m. a = MxSend m")
    case True
    then obtain m where "exec_send m s = Some s'" using step by auto
    then show ?thesis
    proof (rule send_conns)
      fix data c and q :: acquired
      assume pm: "mx_pc s m = RlSend data c q"
        and "\<forall>k. frames_moving (mx_conn s' k) \<subseteq> insert (upstream_frame c data) (frames_moving (mx_conn s k))"
      then have "f = upstream_frame c data \<or> f \<in> frames_moving (mx_conn s k)" using f by blast
      moreover have "pc_ok (mx_issued s) m (RlSend data c q)" using core pm unfolding core_inv_def task_inv_def by metis
      then have "frame_cid (upstream_frame c data) = Some c" by (simp add: frame_cid_upstream)
      moreover have "c \<noteq> u" using o(2)[of m] pm by auto
      ultimately show ?thesis using o(3)[of f k] by auto
    qed
  next
    case False
    then have "f \<in> frames_moving (mx_conn s k)" using f conns_flow[OF step, of k] by (auto simp: flows_def)
    then show ?thesis by (rule o(3))
  qed
  have flow: "ids_flow s s'" by (rule ids_flow_exec[OF step])
  have "next_conn_id (mx_remap s) < next_conn_id (mx_remap s) + 1"
    using wrap by (simp add: word_less_nat_alt unat_word_ariths(1))
  then have next_id: "re_conn_id e < next_conn_id (mx_remap s')"
    using flow o(5) unfolding ids_flow_def by (metis insertE less_trans singletonD)
  have "mc_swept (mx_conn s' k)" if "mc_id (mx_conn s' k) = Some (re_conn_id e)" for k
  proof -
    have "mc_id (mx_conn s' k) \<noteq> Some (next_conn_id (mx_remap s))" using that o(5) by auto
    then have "mc_id (mx_conn s k) = Some (re_conn_id e)" using flow that unfolding ids_flow_def by (metis insertE singletonD)
    then show ?thesis using conns_grow[OF step, of k] o(4) unfolding grows_def by blast
  qed
  then show ?thesis using kept task moving next_id unfolding orphan_def by blast
qed

text \<open>While the client's reply sender sits in an entry, only a failed write to the client ends its
  response task.\<close>

lemma entry_holds_sender:
  assumes "dm_get (remap_map (mx_remap s)) u = Some e" and "re_downstream_tx e = i"
  shows "exec_drained i s = None"
  using map_of_SomeD[OF assms(1)[unfolded dm_get_def]] assms(2) by (auto simp: exec_drained_def list_all_iff)

lemma resp_keeps_running:
  assumes "mux_exec P rw br a s = Some s'" and "rs_running (mx_resp s i)" and "exec_drained i s = None"
    and "a \<notin> {MxReply i False, MxTick i False}"
  shows "rs_running (mx_resp s' i)"
proof (cases a)
  case (MxAcquire j b now)
  then have "exec_acquire j b now s = Some s'" using assms(1) by simp
  then show ?thesis by (rule acquire_fields) (simp add: assms(2))
qed (use assms in \<open>auto simp: exec_frame_def exec_check_def exec_register_def exec_alloc_def exec_insert_def
    exec_count_def exec_send_def exec_send_failed_def exec_uncount_def exec_leave_def exec_take_def exec_answer_def
    exec_fetch_def exec_loop_def exec_cleanup_def exec_retain_def exec_removed_def exec_shut_def exec_route_def
    exec_deliver_def exec_reply_def exec_tick_def mux_updates Let_def alloc_cid_u_def resp_after_def exec_drained_def
    simp del: pool_exec.simps
    split: relay_pc.splits option.splits if_splits list.splits prod.splits dest!: give_back_view\<close>)

lemma run_issued: "mux_run P rw br as s = Some s' \<Longrightarrow>
    length (mx_issued s) \<le> length (mx_issued s') \<and> set (mx_issued s) \<subseteq> set (mx_issued s')"
proof (induction "as" arbitrary: s)
  case (Cons a "as")
  then obtain t where t: "mux_exec P rw br a s = Some t" "mux_run P rw br as t = Some s'" by (auto simp: bind_eq_Some_conv)
  show ?case using issued_grows[OF t(1)] Cons.IH[OF t(2)] by force
qed simp

lemma orphan_run:
  "mux_run P rw br as s = Some s' \<Longrightarrow> mux_inv P rw br s \<Longrightarrow> kafka_broker br \<Longrightarrow> orphan u e s \<Longrightarrow>
     length (mx_issued s') \<le> 2 ^ 31 - 1 \<Longrightarrow> unat (next_conn_id (mx_remap s)) + length as < 2 ^ 64 \<Longrightarrow>
     orphan u e s' \<and> mux_inv P rw br s'
     \<and> (re_downstream_tx e = i \<and> rs_running (mx_resp s i) \<and> {MxReply i False, MxTick i False} \<inter> set as = {} \<longrightarrow>
          rs_running (mx_resp s' i))"
proof (induction "as" arbitrary: s)
  case (Cons a "as")
  then obtain t where t: "mux_exec P rw br a s = Some t" "mux_run P rw br as t = Some s'" by (auto simp: bind_eq_Some_conv)
  have b: "length (mx_issued t) \<le> 2 ^ 31 - 1" using run_issued[OF t(2)] Cons.prems(5) by simp
  have o: "orphan u e t" by (rule orphan_exec[OF t(1) Cons.prems(2-4) b]) (use Cons.prems(6) in simp)
  have "next_conn_id (mx_remap t) \<in> {next_conn_id (mx_remap s), next_conn_id (mx_remap s) + 1}"
    using ids_flow_exec[OF t(1)] by (simp add: ids_flow_def)
  then have "unat (next_conn_id (mx_remap t)) \<le> unat (next_conn_id (mx_remap s)) + 1"
    using Cons.prems(6) by (auto simp: unat_word_ariths(1))
  then have wrap: "unat (next_conn_id (mx_remap t)) + length as < 2 ^ 64" using Cons.prems(6) by simp
  have "rs_running (mx_resp t i)" if "re_downstream_tx e = i" "rs_running (mx_resp s i)" "a \<notin> {MxReply i False, MxTick i False}"
    using resp_keeps_running[OF t(1) that(2) entry_holds_sender[OF _ that(1)] that(3)] Cons.prems(4)
    unfolding orphan_def by blast
  then show ?case
    using Cons.IH[OF t(2) mux_inv_step[OF Cons.prems(2) t(1)] Cons.prems(3) o Cons.prems(5) wrap] by auto
qed simp

section \<open>Properties\<close>

text \<open>C3: The state keeps its shape: the ids in the table are distinct and positive and each entry was made
  from the header of a request issued under its id, no queue exceeds its channel's capacity, a write
  channel closes only after the clean-up and the clean-up only follows the end of the loop, and a
  reply channel is open exactly while its response task runs. This holds whatever the brokers send.\<close>

theorem pooled_state_well_formed:
  assumes "reach mux_start (mux_step P rw br) s"
  shows "distinct (map fst (remap_map (mx_remap s)))
    \<and> (\<forall>u e. dm_get (remap_map (mx_remap s)) u = Some e \<longrightarrow> 0 <s u
         \<and> (\<exists>data. (u, re_downstream_tx e, data) \<in> set (mx_issued s)
              \<and> parse_request_header data = Some (re_api_key e, re_api_version e, re_cid_d e)))
    \<and> length (mc_queue (mx_conn s k)) \<le> 256 \<and> length (mc_read (mx_conn s k)) \<le> 64
    \<and> (mc_closed (mx_conn s k) \<longrightarrow> mc_cleaned (mx_conn s k))
    \<and> (mc_cleaned (mx_conn s k) \<longrightarrow> \<not> wl_running (mc_wl (mx_conn s k)))
    \<and> length (ch_queue (mx_chans s i)) \<le> 256 \<and> (ch_open (mx_chans s i) \<longleftrightarrow> rs_running (mx_resp s i))"
proof -
  have "core_inv s" using assms by (rule mux_core.reach_inv)
  then have inv: "ids_inv s" "table_inv s" by (simp_all add: core_inv_def)
  have "shape_inv s" using assms by (rule mux_shape.reach_inv)
  then have shape: "conn_shape (mx_conn s k)" "chan_shape (mx_chans s i) (mx_resp s i)" unfolding shape_inv_def by blast+
  have "0 <s u" if "(u, x) \<in> set (mx_issued s)" for u x
  proof -
    have "u \<in> set (map fst (mx_issued s))" using that by force
    then have "u \<in> set (map cid_seq [0..<length (mx_issued s)])" using inv(1) unfolding ids_inv_def by metis
    then show ?thesis using cid_seq_pos by auto
  qed
  then have "\<forall>u e. dm_get (remap_map (mx_remap s)) u = Some e \<longrightarrow> 0 <s u
      \<and> (\<exists>data. (u, re_downstream_tx e, data) \<in> set (mx_issued s)
           \<and> parse_request_header data = Some (re_api_key e, re_api_version e, re_cid_d e))"
    using inv(2) unfolding table_inv_def entry_ok_def by blast
  moreover have "distinct (map fst (remap_map (mx_remap s)))" using inv(2) by (simp add: table_inv_def dm_inv_def)
  ultimately show ?thesis using shape
    by (auto simp: conn_shape_def chan_shape_def WRITE_CAPACITY_def READ_CAPACITY_def REPLY_CAPACITY_def)
qed

lemma demo_prefix: "\<exists>s. mux_run demo_protocol demo_rewrite answers (take 20 demo_acts) demo_mux = Some s \<and> in_flight (mx_remap s) = 2"
  by (simp add: demo_acts_def mux_eval in_flight_def)

theorem pooled_state_well_formed_witness:
  "\<exists>s. reach mux_start (mux_step demo_protocol demo_rewrite answers) s \<and> in_flight (mx_remap s) = 2
     \<and> distinct (map fst (remap_map (mx_remap s))) \<and> length (mc_queue (mx_conn s (0, 0))) \<le> 256"
proof -
  obtain s where s: "mux_run demo_protocol demo_rewrite answers (take 20 demo_acts) demo_mux = Some s" "in_flight (mx_remap s) = 2"
    using demo_prefix by blast
  have r: "reach mux_start (mux_step demo_protocol demo_rewrite answers) s"
    by (rule mux_run_reach[OF s(1)]) (rule reach_init, simp add: demo_mux_def demo_start_ok(1)[simplified])
  show ?thesis using pooled_state_well_formed[OF r, of "(0, 0)"] r s(2) by blast
qed


text \<open>A client leases the warm connection; its end comes between the lease check and the registration;
  then the write channel is closed, and the client leaves.\<close>

definition leak_acts :: "mux_action list" where
  "leak_acts =
     [MxFrame 0 (order_request 1), MxCheck 0 5, MxAcquire 0 (ActStart 0) 5, MxAcquire 0 (ActIdle 0 0) 5,
      MxLoop (0, 0) WlEof, MxCleanup (0, 0), MxRetain (0, 0), MxRemoved (0, 0) True,
      MxRegister 0, MxAlloc 0, MxInsert 0 6, MxCount 0]"

definition leak_later :: "mux_action list" where
  "leak_later = [MxShut (0, 0), MxHangup 0, MxLeave 0 7, MxTick 0 True]"

lemma leak_run: "\<exists>s e s'. mux_run demo_protocol demo_rewrite answers leak_acts demo_mux = Some s
    \<and> mx_pc s 0 = RlSend (order_request 1) 2 \<lparr>acq_write_tx = 0, acq_conn_id = 1\<rparr> \<and> mx_broker s 0 = 0
    \<and> dm_get (remap_map (mx_remap s)) 2 = Some e \<and> re_conn_id e = 1 \<and> next_conn_id (mx_remap s) = 2
    \<and> (\<forall>k. mc_id (mx_conn s k) = Some 1 \<longrightarrow> mc_swept (mx_conn s k)) \<and> mc_swept (mx_conn s (0, 0))
    \<and> mux_run demo_protocol demo_rewrite answers (MxSend 0 # leak_later) s = Some s'
    \<and> length (mx_issued s') = 1 \<and> mx_pc s' 0 = RlDone \<and> rs_running (mx_resp s 0)"
  by (simp add: leak_acts_def leak_later_def mux_eval exec_tick_def)


end
