(* ===== verification/Lifecycle.thy ===== *)
theory Lifecycle
  imports Service MuxLeak
begin

text \<open>
  The life of a downstream connection in the accept loops of \<open>src/src/lib.rs\<close>: the relay that is made
  for it, its run, and the clean-up after it; and when a \<open>PooledRelay\<close> of \<open>src/src/relay.rs\<close> counts
  as ended.
\<close>

section \<open>Per-connection mode\<close>

record ('kc, 'sc, 'ip) relay =
  rly_broker_addr :: "'ip socket_addr"
  rly_broker_host :: string
  rly_upstream_auth :: "('kc, 'sc) auth_inner"
  rly_rewrite_map :: rewrite_map
  rly_client_idle_timeout :: "duration option"

definition relay_new ::
  "'ip socket_addr \<Rightarrow> string \<Rightarrow> ('kc, 'sc) auth_inner \<Rightarrow> rewrite_map \<Rightarrow> ('kc, 'sc, 'ip) relay" where
  "relay_new addr host auth rw =
     \<lparr>rly_broker_addr = addr, rly_broker_host = host, rly_upstream_auth = auth, rly_rewrite_map = rw,
      rly_client_idle_timeout = None\<rparr>"

definition with_client_idle_timeout :: "duration option \<Rightarrow> ('kc, 'sc, 'ip) relay \<Rightarrow> ('kc, 'sc, 'ip) relay" where
  "with_client_idle_timeout t r = r\<lparr>rly_client_idle_timeout := t\<rparr>"

text \<open>\<open>run\<close> logs the outcome of \<open>run_inner\<close> and drops it; what is left of it are the metrics. Without
  an idle timeout no wait of the relay ends by one.\<close>

definition run_relay ::
  "('kc, 'sc, 'b, 'cb, 'ip socket_addr) kafka_client_api \<Rightarrow> ('b \<Rightarrow> 'ke + 'framed \<times> 'v)
     \<Rightarrow> ('r1, 'r2, 'r3) kafka_protocol \<Rightarrow> ('kc, 'sc, 'ip) relay \<Rightarrow> relay_event list \<Rightarrow> metrics \<Rightarrow> metrics" where
  "run_relay K build_framed P r es m =
     snd (run_inner P (rly_rewrite_map r)
       (bindE (connect_framed K build_framed (rly_upstream_auth r) (rly_broker_addr r) (rly_broker_host r)) (\<lambda>_. Inr ()))
       (if rly_client_idle_timeout r = None then filter (\<lambda>e. e \<noteq> Down D2uIdle) es else es) m)"

text \<open>An admitted connection that nobody else interferes with, from its admission to its end.\<close>

definition serve_client ::
  "('kc, 'sc, 'b, 'cb, 'ip socket_addr) kafka_client_api \<Rightarrow> ('b \<Rightarrow> 'ke + 'framed \<times> 'v)
     \<Rightarrow> ('r1, 'r2, 'r3) kafka_protocol \<Rightarrow> ('kc, 'sc) auth_inner \<Rightarrow> rewrite_map \<Rightarrow> duration option
     \<Rightarrow> 'ip broker_target \<Rightarrow> instant \<Rightarrow> 'peer \<Rightarrow> relay_event list \<Rightarrow> metrics \<times> 'peer tracker \<Rightarrow> metrics \<times> 'peer tracker" where
  "serve_client K build_framed P auth rw idle target now peer es s =
     (let s = admit_commit (bt_node_id target) now peer s;
          r = with_client_idle_timeout idle (relay_new (bt_real_addr target) (bt_real_host target) auth rw)
      in connection_end peer (run_relay K build_framed P r es (fst s), snd s))"

lemma relay_keeps_downstream:
  "downstream_connections (snd (run_inner P rw connect es m)) = downstream_connections m"
proof -
  have step: "downstream_connections (rl_metrics (relay_exec P rw e s)) = downstream_connections (rl_metrics s)" for e s
  proof (cases e)
    case (Down d)
    then show ?thesis
      by (cases d) (auto simp: Let_def close_up_def add_bytes_downstream_def inc_frames_downstream_def)
  next
    case (Up u)
    then show ?thesis
      by (cases u) (auto simp: Let_def case_prod_beta add_bytes_upstream_def inc_frames_upstream_def)
  qed
  have "downstream_connections (rl_metrics (relay_run P rw es s)) = downstream_connections (rl_metrics s)" for s
    by (induction es arbitrary: s) (simp_all add: step)
  then show ?thesis
    by (simp add: run_inner_def Let_def relay_start_def inc_upstream_connections_def dec_upstream_connections_def
        split: sum.splits)
qed

text \<open>Whether or not the broker could be reached and however the relay ends, a served client leaves
  both connection gauges and the list of connections as they were.\<close>

theorem client_leaves_no_trace:
  assumes "dm_inv (snd s)" and "dm_get (snd s) peer = None"
    and "s' = serve_client K build_framed P auth rw idle target now peer es s"
  shows "downstream_connections (fst s') = downstream_connections (fst s)
    \<and> upstream_connections (fst s') = upstream_connections (fst s) \<and> dm_get (snd s') = dm_get (snd s)"
proof -
  have "dm_inv (dm_insert peer (bt_node_id target, now) (snd s))" using assms(1) by (rule dm.inv_ins)
  then show ?thesis using assms
    by (simp add: serve_client_def admit_commit_def connection_end_def run_relay_def relay_keeps_downstream
        relay_gauge_balanced inc_downstream_connections_def dec_downstream_connections_def Let_def
        dm.get_ins dm.get_rem fun_eq_iff)
qed

section \<open>Pooled mode\<close>

text \<open>\<open>run_inner\<close> of a \<open>PooledRelay\<close> returns when one of its two tasks has ended. The other is
  detached, not stopped; the accept loop counts the client out.\<close>

definition relay_returned :: "client \<Rightarrow> mux \<Rightarrow> bool" where
  "relay_returned i s \<longleftrightarrow> mx_pc s i = RlDone \<or> \<not> rs_running (mx_resp s i)"

text \<open>So a client that is no longer counted can still be served: here client 0 has closed its sending
  half with a request outstanding, and gets the response after its relay has returned.\<close>

definition half_closed_acts :: "mux_action list" where
  "half_closed_acts =
     [MxFrame 0 (order_request 1), MxCheck 0 5, MxAcquire 0 (ActStart 0) 5, MxAcquire 0 (ActIdle 0 0) 5,
      MxRegister 0, MxAlloc 0, MxInsert 0 8, MxCount 0, MxSend 0, MxTake (0, 0) True, MxHangup 0, MxLeave 0 9]"

definition half_closed_later :: "mux_action list" where
  "half_closed_later =
     [MxAnswer (0, 0) (put_i32 2 @ [7]), MxFetch (0, 0) True, MxRoute (0, 0), MxDeliver (0, 0) 9, MxReply 0 True]"

lemma counted_out_while_served:
  "\<exists>s s'. mux_run demo_protocol demo_rewrite answers half_closed_acts demo_mux = Some s \<and> relay_returned 0 s
     \<and> mux_run demo_protocol demo_rewrite answers half_closed_later s = Some s' \<and> rs_down (mx_resp s' 0) = [put_i32 1 @ [7]]"
  by (simp add: half_closed_acts_def half_closed_later_def relay_returned_def mux_eval fetch_not_rewritten)

end
