(* ===== verification/MuxSilent.thy ===== *)
theory MuxSilent
  imports MuxLeak
begin

text \<open>
  Requests to which a broker sends no response, such as a produce request with \<open>acks = 0\<close>: in pooled
  mode they are registered like any other, and keep their slots in the table until their connection
  ends.
\<close>

section \<open>Brokers and requests\<close>

text \<open>\<open>mute\<close> tells the requests that call for no response. The broker answers only requests it has
  received that call for one; which they are does not depend on the correlation id.\<close>

definition silent_broker :: "(bytes \<Rightarrow> bool) \<Rightarrow> broker_behaviour \<Rightarrow> bool" where
  "silent_broker mute br \<longleftrightarrow> (\<forall>resp c. br resp c \<longrightarrow>
     (\<exists>f \<in> set (wl_sent (mc_wl c)). frame_cid f = parse_response_cid resp \<and> \<not> mute f))"

definition mute_by_body :: "(bytes \<Rightarrow> bool) \<Rightarrow> bool" where
  "mute_by_body mute \<longleftrightarrow>
     (\<forall>u data. parse_request_header data \<noteq> None \<longrightarrow> mute (upstream_frame u data) = mute data)"

fun is_send :: "mux_action \<Rightarrow> bool" where
  "is_send (MxSend i) \<longleftrightarrow> True"
| "is_send _ \<longleftrightarrow> False"

section \<open>Entries pile up\<close>

text \<open>The id of a task whose entry has been inserted.\<close>

fun entry_cid :: "relay_pc \<Rightarrow> i32 option" where
  "entry_cid (RlCount data u a) = Some u"
| "entry_cid (RlSend data u a) = Some u"
| "entry_cid _ = None"

lemma entry_task_cid: "entry_cid pc = Some u \<Longrightarrow> task_cid pc = Some u"
  by (cases pc) auto

lemma entry_cid_step:
  assumes "mux_exec P rw br a s = Some s'" and "entry_cid (mx_pc s' j) = Some u"
  shows "entry_cid (mx_pc s j) = Some u \<or> (\<exists>now. a = MxInsert j now \<and> task_cid (mx_pc s j) = Some u)"
proof (cases "request_task a = Some j")
  case False
  then show ?thesis
    using other_task[OF assms(1)] task_fields[OF assms(1), of _ j] assms(2) by (cases "request_task a") auto
next
  case True
  show ?thesis
  proof (cases a)
    case (MxAcquire t b now)
    then have "exec_acquire j b now s = Some s'" using assms(1) True by simp
    then show ?thesis using assms(2) by (elim acquire_fields) auto
  qed (use assms True in \<open>auto simp: data_path alloc_cid_u_def split: relay_pc.splits option.splits if_splits dest!: give_back_view\<close>)
qed

lemma swept_step:
  assumes "mux_exec P rw br a s = Some s'" and "a \<noteq> MxRetain k" and "mc_swept (mx_conn s' k)"
  shows "mc_swept (mx_conn s k)"
proof (cases a)
  case (MxAcquire i b now)
  then have "exec_acquire i b now s = Some s'" using assms(1) by simp
  then have "mx_conn s' k = (mx_conn s k)\<lparr>mc_id := mc_id (mx_conn s' k)\<rparr>" by (rule acquire_fields) blast
  then have "mc_swept (mx_conn s' k) = mc_swept ((mx_conn s k)\<lparr>mc_id := mc_id (mx_conn s' k)\<rparr>)" by (rule arg_cong)
  then show ?thesis using assms(3) by simp
qed (use assms in \<open>auto simp: data_path alloc_cid_u_def simp del: pool_exec.simps
    split: relay_pc.splits option.splits if_splits list.splits prod.splits dest!: give_back_view loop_step_fields\<close>)

text \<open>No response is on its way and no connection has been swept; the ids in \<open>S\<close> have been sent and are
  in the table.\<close>

definition pile :: "i32 set \<Rightarrow> mux \<Rightarrow> bool" where
  "pile S s \<longleftrightarrow> finite S \<and> (\<forall>k. responses_on (mx_conn s k) = {} \<and> \<not> mc_swept (mx_conn s k))
     \<and> (\<forall>i u. entry_cid (mx_pc s i) = Some u \<longrightarrow> dm_get (remap_map (mx_remap s)) u \<noteq> None)
     \<and> (\<forall>u \<in> S. dm_get (remap_map (mx_remap s)) u \<noteq> None \<and> (\<forall>i. task_cid (mx_pc s i) \<noteq> Some u))"

lemma present_kept:
  assumes step: "mux_exec P rw br a s = Some s'" and inv: "dm_inv (remap_map (mx_remap s))" and shape: "shape_inv s"
    and pile: "\<forall>k. responses_on (mx_conn s k) = {} \<and> \<not> mc_swept (mx_conn s k)" and a: "\<forall>k. a \<noteq> MxRetain k"
    and present: "dm_get (remap_map (mx_remap s)) u \<noteq> None"
  shows "dm_get (remap_map (mx_remap s')) u \<noteq> None"
proof -
  obtain e where e: "dm_get (remap_map (mx_remap s)) u = Some e" using present by blast
  show ?thesis
  proof (cases "takes_entry u e a s")
    case False
    then show ?thesis using entry_kept[OF step inv e] by simp
  next
    case True
    then show ?thesis
    proof (cases a)
      case (MxRoute k)
      have "responses_on (mx_conn s k) = {}" using pile by blast
      then show ?thesis using True MxRoute by (auto simp: takes_entry_def responses_on_def split: list.splits)
    next
      case (MxSendFailed i)
      obtain k where "mc_closed (mx_conn s k)"
        using step MxSendFailed by (auto simp: exec_send_failed_def Let_def split: relay_pc.splits if_splits)
      then have "mc_swept (mx_conn s k)" using shape unfolding shape_inv_def conn_shape_def by blast
      then show ?thesis using pile by blast
    next
      case (MxInsert i now)
      then have "exec_insert i now s = Some s'" using step by simp
      then show ?thesis by (rule insert_fields) (use inv e in \<open>simp add: set_pc_def dm.get_ins\<close>)
    qed (use True a in \<open>simp_all add: takes_entry_def\<close>)
  qed
qed

lemma no_answer:
  assumes "core_inv s" and "silent_broker mute br" and "mute_by_body mute"
    and "\<forall>(u, i, data) \<in> set (mx_issued s). mute data"
  shows "\<not> br resp (mx_conn s k)"
proof
  assume "br resp (mx_conn s k)"
  then obtain f where f: "f \<in> set (wl_sent (mc_wl (mx_conn s k)))" "\<not> mute f"
    using assms(2) unfolding silent_broker_def by blast
  then obtain u i data where d: "(u, i, data) \<in> set (mx_issued s)" "parse_request_header data \<noteq> None"
    "f = upstream_frame u data"
    using assms(1) unfolding core_inv_def conn_frames_ok_def frames_on_def issued_frame_def by blast
  have "mute data" using assms(4) d(1) by blast
  then show False using assms(3) d(2,3) f(2) by (simp add: mute_by_body_def)
qed

lemma pile_step:
  assumes step: "mux_exec P rw br a s = Some s'" and core: "core_inv s" and shape: "shape_inv s" and pile: "pile S s"
    and br: "silent_broker mute br" "mute_by_body mute" "\<forall>(u, i, data) \<in> set (mx_issued s). mute data"
    and a: "\<forall>k. a \<noteq> MxRetain k" and b: "length (mx_issued s') \<le> 2 ^ 31 - 1"
  obtains S' where "pile S' s'" and "card S' = card S + (if is_send a then 1 else 0)"
proof -
  have inv: "dm_inv (remap_map (mx_remap s))" and ids: "ids_inv s'" and tab: "table_inv s"
    using core core_step[OF core step] by (simp_all add: core_inv_def table_inv_def)
  have p: "finite S" "\<forall>k. responses_on (mx_conn s k) = {} \<and> \<not> mc_swept (mx_conn s k)"
    "entry_cid (mx_pc s i) = Some u \<Longrightarrow> dm_get (remap_map (mx_remap s)) u \<noteq> None"
    "u \<in> S \<Longrightarrow> dm_get (remap_map (mx_remap s)) u \<noteq> None" "u \<in> S \<Longrightarrow> task_cid (mx_pc s i) \<noteq> Some u" for i u
    using pile unfolding pile_def by blast+
  note present = present_kept[OF step inv shape p(2) a]
  note apart = core_apart[OF core step b]
  have conn: "responses_on (mx_conn s' k) = {} \<and> \<not> mc_swept (mx_conn s' k)" for k
  proof -
    have "r \<notin> responses_on (mx_conn s' k)" for r
      using responses_step[OF step, of r k] p(2) no_answer[OF core br] by blast
    moreover have "\<not> mc_swept (mx_conn s' k)" using swept_step[OF step, of k] a p(2) by blast
    ultimately show ?thesis by blast
  qed
  have entries: "dm_get (remap_map (mx_remap s')) u \<noteq> None" if i: "entry_cid (mx_pc s' i) = Some u" for i u
  proof (cases "entry_cid (mx_pc s i) = Some u")
    case False
    then obtain now where "exec_insert i now s = Some s'" using entry_cid_step[OF step i] step by auto
    then show ?thesis by (rule insert_fields) (use i inv in \<open>simp add: set_pc_def dm.get_ins\<close>)
  qed (rule present[OF p(3)])
  have task: "task_cid (mx_pc s' i) \<noteq> Some u"
    if u: "dm_get (remap_map (mx_remap s)) u \<noteq> None" and i: "task_cid (mx_pc s i) \<noteq> Some u" for i u
  proof
    assume n: "task_cid (mx_pc s' i) = Some u"
    then have "u \<notin> fst ` set (mx_issued s)" using task_cid_step[OF step n] i alloc_new[OF step core ids b _ n] by blast
    moreover obtain e where "dm_get (remap_map (mx_remap s)) u = Some e" using u by blast
    ultimately show False using tab entry_ok_issued unfolding table_inv_def by blast
  qed
  have keep: "u \<in> S \<Longrightarrow> dm_get (remap_map (mx_remap s')) u \<noteq> None \<and> task_cid (mx_pc s' i) \<noteq> Some u" for u i
    using present[OF p(4)] task[OF p(4,5)] by blast
  show thesis
  proof (cases "is_send a")
    case False
    have "pile S s'" unfolding pile_def using p(1) conn entries keep by blast
    then show thesis using that[of S] False by simp
  next
    case True
    then obtain m where m: "a = MxSend m" "exec_send m s = Some s'" using step by (cases a) auto
    from m(2) obtain data u and q :: acquired where pm: "mx_pc s m = RlSend data u q" and pc: "mx_pc s' = (mx_pc s)(m := RlRead)"
      by (rule send_conns)
    have tm: "task_cid (mx_pc s m) = Some u" and em: "entry_cid (mx_pc s m) = Some u" by (simp_all add: pm)
    have "task_cid (mx_pc s' i) \<noteq> Some u" for i
      using apart tm unfolding tasks_apart_def pc by (cases "i = m") auto
    then have "pile (insert u S) s'" unfolding pile_def using p(1) conn entries keep present[OF p(3)[OF em]] by blast
    moreover have "u \<notin> S" using p(5) tm by blast
    ultimately show thesis using that[of "insert u S"] True p(1) by simp
  qed
qed

lemma pile_run:
  "mux_run P rw br as s = Some s' \<Longrightarrow> core_inv s \<Longrightarrow> shape_inv s \<Longrightarrow> pile S s \<Longrightarrow> silent_broker mute br \<Longrightarrow> mute_by_body mute \<Longrightarrow>
     \<forall>(u, i, data) \<in> set (mx_issued s'). mute data \<Longrightarrow> \<forall>k. MxRetain k \<notin> set as \<Longrightarrow> length (mx_issued s') \<le> 2 ^ 31 - 1 \<Longrightarrow>
     \<exists>S'. pile S' s' \<and> card S' = card S + length (filter is_send as)"
proof (induction "as" arbitrary: s S)
  case (Cons a "as")
  then obtain t where t: "mux_exec P rw br a s = Some t" "mux_run P rw br as t = Some s'" by (auto simp: bind_eq_Some_conv)
  have later: "set (mx_issued s) \<subseteq> set (mx_issued s')" "length (mx_issued t) \<le> 2 ^ 31 - 1"
    using issued_grows(1)[OF t(1)] run_issued[OF t(2)] Cons.prems(9) by auto
  obtain S' where S': "pile S' t" "card S' = card S + (if is_send a then 1 else 0)"
    by (rule pile_step[OF t(1) Cons.prems(2-6) _ _ later(2)]) (use Cons.prems(7,8) later(1) in auto)
  have "\<exists>T. pile T s' \<and> card T = card S' + length (filter is_send as)"
    using Cons.prems(8)
    by (intro Cons.IH[OF t(2) core_step[OF Cons.prems(2) t(1)] shape_exec[OF t(1) Cons.prems(3)] S'(1) Cons.prems(5-7) _ Cons.prems(9)]) simp
  then show ?case using S'(2) by (cases "is_send a") auto
qed auto

lemma pile_size: "pile S s \<Longrightarrow> card S \<le> in_flight (mx_remap s)"
proof -
  assume "pile S s"
  then have "S \<subseteq> fst ` set (remap_map (mx_remap s))"
    unfolding pile_def dm_get_def by (metis map_of_eq_None_iff subsetI)
  then have "card S \<le> card (fst ` set (remap_map (mx_remap s)))" by (intro card_mono) auto
  also have "\<dots> \<le> length (remap_map (mx_remap s))" by (metis card_image_le card_length le_trans list.set_finite)
  finally show ?thesis by (simp add: in_flight_def dm_len_def)
qed

lemma pile_start: "mux_start s \<Longrightarrow> pile {} s"
proof -
  assume st: "mux_start s"
  have "responses_on (conn_start cid m) = {} \<and> \<not> mc_swept (conn_start cid m)" for cid m
    by (simp add: responses_on_def conn_start_def)
  then have "\<forall>k. responses_on (mx_conn s k) = {} \<and> \<not> mc_swept (mx_conn s k)" using st unfolding mux_start_def by metis
  then show ?thesis using st by (simp add: pile_def mux_start_def)
qed

section \<open>Property\<close>

text \<open>C35: Requests to which the brokers send no response (such as produce requests with \<open>acks = 0\<close>) block
  the proxy. From the start, under every interleaving in which only such requests have been given
  ids, the brokers answer only requests that call for a response, and no connection's requests have
  been taken out of the table because it ended (fewer than \<open>2^31\<close> registrations): every request handed
  to a connection still holds a slot, and when as many as the limit have been handed over, the next
  request of any client, whatever it is, makes its relay close the client's connection.\<close>

theorem unanswered_requests_block:
  assumes "mux_start s" and "mux_run P rw br as s = Some s'"
    and "silent_broker mute br" and "mute_by_body mute" and "\<forall>(u, i, data) \<in> set (mx_issued s'). mute data"
    and "\<forall>k. MxRetain k \<notin> set as" and "length (mx_issued s') \<le> 2 ^ 31 - 1"
  shows "length (filter is_send as) \<le> in_flight (mx_remap s')
    \<and> (remap_limit (mx_remap s') \<le> length (filter is_send as) \<and> mx_pc s' i = RlReady data hdr \<longrightarrow>
         mux_exec P rw br (MxRegister i) s' = Some (set_pc i RlClose s'))"
proof -
  obtain S where S: "pile S s'" "card S = card ({} :: i32 set) + length (filter is_send as)"
    using pile_run[OF assms(2) core_start[OF assms(1)] shape_start[OF assms(1)] pile_start[OF assms(1)] assms(3-7)] by blast
  then have "length (filter is_send as) \<le> in_flight (mx_remap s')" using pile_size[OF S(1)] by simp
  then show ?thesis by (simp add: exec_register_def insert_check_def in_flight_def)
qed

text \<open>A limit of two; client 0 sends two produce requests (version 2, without a client id) with
  \<open>acks = 0\<close>, and client 1 a fetch request over another connection.\<close>

definition acks0 :: "bytes \<Rightarrow> bool" where
  "acks0 f \<longleftrightarrow> take 4 f = put_i16 0 @ put_i16 2 \<and> take 4 (drop 8 f) = put_i16 (- 1) @ put_i16 0"

definition produce_acks0 :: "i32 \<Rightarrow> bytes" where
  "produce_acks0 cid = put_i16 0 @ put_i16 2 @ put_i32 cid @ put_i16 (- 1) @ put_i16 0"

definition acks0_broker :: broker_behaviour where
  "acks0_broker resp c \<longleftrightarrow> list_ex (\<lambda>f. frame_cid f = parse_response_cid resp \<and> \<not> acks0 f) (wl_sent (mc_wl c))"

definition acks0_acts :: "mux_action list" where
  "acks0_acts =
     [MxFrame 0 (produce_acks0 1), MxCheck 0 5, MxAcquire 0 (ActStart 0) 5, MxAcquire 0 (ActIdle 0 0) 5,
      MxRegister 0, MxAlloc 0, MxInsert 0 6, MxCount 0, MxSend 0,
      MxFrame 0 (produce_acks0 2), MxCheck 0 7, MxRegister 0, MxAlloc 0, MxInsert 0 8, MxCount 0, MxSend 0,
      MxFrame 1 (order_request 1), MxCheck 1 9, MxAcquire 1 (ActStart 1) 9, MxAcquire 1 (ActIdle 1 0) 9,
      MxAcquire 1 (ActReserve 1 0) 9, MxAcquire 1 (ActCreate 1 (Inr ()) 3) 10]"

lemma produce_acks0_header: "parse_request_header (produce_acks0 cid) = Some (0, 2, cid)"
  unfolding parse_request_header_Some produce_acks0_def by blast

lemma acks0_by_body: "mute_by_body acks0"
proof -
  have "acks0 (upstream_frame u data) = acks0 data" if h: "parse_request_header data \<noteq> None" for u data
  proof -
    obtain k v c where "parse_request_header data = Some (k, v, c)" using h by (cases "parse_request_header data") auto
    then obtain rest where "data = put_i16 k @ put_i16 v @ put_i32 c @ rest" unfolding parse_request_header_Some by blast
    then show ?thesis by (simp add: acks0_def upstream_frame_def)
  qed
  then show ?thesis by (simp add: mute_by_body_def)
qed

lemma acks0_run: "\<exists>s. mux_run demo_protocol demo_rewrite acks0_broker acks0_acts (demo_start 2 1) = Some s
    \<and> mx_issued s = [(2, 0, produce_acks0 1), (3, 0, produce_acks0 2)] \<and> remap_limit (mx_remap s) = 2
    \<and> mx_pc s 1 = RlReady (order_request 1) (1, 11, 1)"
  by (simp add: acks0_acts_def mux_eval produce_acks0_header LEASE_DURATION_def)

theorem unanswered_requests_block_witness:
  "\<exists>s. mux_run demo_protocol demo_rewrite acks0_broker acks0_acts (demo_start 2 1) = Some s
     \<and> mux_exec demo_protocol demo_rewrite acks0_broker (MxRegister 1) s = Some (set_pc 1 RlClose s)"
proof -
  obtain s where s: "mux_run demo_protocol demo_rewrite acks0_broker acks0_acts (demo_start 2 1) = Some s"
    "mx_issued s = [(2, 0, produce_acks0 1), (3, 0, produce_acks0 2)]" "remap_limit (mx_remap s) = 2"
    "mx_pc s 1 = RlReady (order_request 1) (1, 11, 1)"
    using acks0_run by blast
  have br: "silent_broker acks0 acks0_broker" by (auto simp: silent_broker_def acks0_broker_def list_ex_iff)
  have "\<forall>(u, i, data) \<in> set (mx_issued s). acks0 data" by (simp add: s(2) produce_acks0_def acks0_def)
  moreover have "\<forall>k. MxRetain k \<notin> set acks0_acts" by (simp add: acks0_acts_def)
  moreover have "length (mx_issued s) \<le> 2 ^ 31 - 1" "length (filter is_send acks0_acts) = 2"
    by (simp_all add: s(2) acks0_acts_def)
  ultimately have "mux_exec demo_protocol demo_rewrite acks0_broker (MxRegister 1) s = Some (set_pc 1 RlClose s)"
    using unanswered_requests_block[OF demo_start_ok(1)[of 2] s(1) br acks0_by_body, of 1 "order_request 1" "(1, 11, 1)"] s(3,4)
    by (simp del: mux_exec.simps)
  then show ?thesis using s(1) by blast
qed

end
