(* ===== verification/CidSpec.thy ===== *)
theory CidSpec
  imports CidRemap
begin

text \<open>
  What the table of \<open>src/src/pool.rs\<close> promises, without correlation ids: a partial map from the
  numbers of the accepted requests (0, 1, 2, ...) to their routes. The table refines this
  specification for the first \<open>2^31 - 1\<close> requests: request \<open>k\<close> is under the id \<open>cid_seq k\<close>, and
  nothing else is in the table.
\<close>

section \<open>The specification\<close>

record route_table =
  rt_next :: nat
  rt_live :: "nat \<rightharpoonup> route_entry"

definition spec_start :: route_table where
  "spec_start = \<lparr>rt_next = 0, rt_live = Map.empty\<rparr>"

text \<open>An id that belongs to no live request is ignored.\<close>

fun spec_step :: "nat \<Rightarrow> remap_op \<Rightarrow> route_table \<Rightarrow> route_table" where
  "spec_step limit (RInsert tx d k v conn now) s =
     (if card (dom (rt_live s)) < limit
      then s\<lparr>rt_next := Suc (rt_next s),
             rt_live := (rt_live s)(rt_next s \<mapsto>
               \<lparr>re_downstream_tx = tx, re_cid_d = d, re_api_key = k, re_api_version = v,
                re_started = now, re_conn_id = conn\<rparr>)\<rparr>
      else s)"
| "spec_step limit (RTake c) s = s\<lparr>rt_live := (rt_live s) |` {k. cid_seq k \<noteq> c}\<rparr>"
| "spec_step limit (RFail conn) s =
     s\<lparr>rt_live := (\<lambda>k. case rt_live s k of
         Some e \<Rightarrow> if re_conn_id e = conn then None else Some e | None \<Rightarrow> None)\<rparr>"

section \<open>The simulation\<close>

definition refines :: "nat \<Rightarrow> route_table \<Rightarrow> cid_remap \<Rightarrow> bool" where
  "refines limit s r \<longleftrightarrow>
     remap_inv r \<and> remap_limit r = limit \<and> next_cid r = (next_cid_u ^^ rt_next s) 1
     \<and> dom (rt_live s) \<subseteq> {..<rt_next s} \<and> rt_next s \<le> 2 ^ 31 - 1
     \<and> dom (dm_get (remap_map r)) \<subseteq> cid_seq ` {..<rt_next s}
     \<and> (\<forall>k < rt_next s. dm_get (remap_map r) (cid_seq k) = rt_live s k)"

lemma refinesD:
  assumes "refines limit s r"
  shows "dm_inv (remap_map r)" "remap_limit r = limit" "next_cid_u (next_cid r) = cid_seq (rt_next s)"
    "dom (rt_live s) \<subseteq> {..<rt_next s}" "inj_on cid_seq {..<rt_next s}"
    "dom (dm_get (remap_map r)) = cid_seq ` dom (rt_live s)"
    "k < rt_next s \<Longrightarrow> dm_get (remap_map r) (cid_seq k) = rt_live s k"
    "rt_live s k = Some e \<Longrightarrow> k < rt_next s"
proof -
  show "rt_live s k = Some e \<Longrightarrow> k < rt_next s" using assms by (auto simp: refines_def)
  show "dm_inv (remap_map r)" "remap_limit r = limit" "dom (rt_live s) \<subseteq> {..<rt_next s}"
    "k < rt_next s \<Longrightarrow> dm_get (remap_map r) (cid_seq k) = rt_live s k"
    "next_cid_u (next_cid r) = cid_seq (rt_next s)"
    using assms by (simp_all add: refines_def remap_inv_def cid_seq_def)
  show "inj_on cid_seq {..<rt_next s}"
    using distinct_cid_seq[of "rt_next s" 0] assms
    by (simp add: refines_def distinct_map lessThan_atLeast0)
  show "dom (dm_get (remap_map r)) = cid_seq ` dom (rt_live s)"
  proof (intro equalityI subsetI)
    fix c assume c: "c \<in> dom (dm_get (remap_map r))"
    then obtain k where "k < rt_next s" "c = cid_seq k" using assms by (auto simp: refines_def)
    then show "c \<in> cid_seq ` dom (rt_live s)" using c assms by (auto simp: refines_def)
  qed (use assms in \<open>auto simp: refines_def\<close>)
qed

lemma refines_size:
  assumes "refines limit s r"
  shows "in_flight r = card (dom (rt_live s))"
proof -
  note d = refinesD[OF assms]
  have "in_flight r = card (dom (dm_get (remap_map r)))"
    using d(1) by (simp add: in_flight_def dm.len_card)
  also have "\<dots> = card (dom (rt_live s))"
    unfolding d(6) by (rule card_image) (rule inj_on_subset[OF d(5,4)])
  finally show ?thesis .
qed

lemma refines_start: "refines limit spec_start (with_max_in_flight limit)"
  by (simp add: refines_def spec_start_def with_max_in_flight_def remap_inv_def dm.inv_new dm.get_new fun_eq_iff)

lemma refines_insert:
  assumes "refines limit s r" and "rt_next s < 2 ^ 31 - 1"
  shows "refines limit (spec_step limit (RInsert tx d k v conn now) s) (fst (run_remap (RInsert tx d k v conn now) (r, m)))"
proof (cases "in_flight r < limit")
  case True
  note D = refinesD[OF assms(1)]
  let ?e = "\<lparr>re_downstream_tx = tx, re_cid_d = d, re_api_key = k, re_api_version = v,
    re_started = now, re_conn_id = conn\<rparr>"
  have r': "fst (run_remap (RInsert tx d k v conn now) (r, m)) =
      r\<lparr>next_cid := cid_seq (rt_next s), remap_map := dm_insert (cid_seq (rt_next s)) ?e (remap_map r)\<rparr>"
    using True D(2,3) by (simp add: remap_ops Let_def)
  have other: "cid_seq i \<noteq> cid_seq (rt_next s)" if "i < rt_next s" for i
    using cid_seq_inject[of i "rt_next s"] that assms(2) by fastforce
  have nxt: "next_cid_u ((next_cid_u ^^ rt_next s) 1) = cid_seq (rt_next s)" by (simp add: cid_seq_def)
  have s': "spec_step limit (RInsert tx d k v conn now) s =
      s\<lparr>rt_next := Suc (rt_next s), rt_live := (rt_live s)(rt_next s \<mapsto> ?e)\<rparr>"
    using True by (simp add: refines_size[OF assms(1), symmetric])
  show ?thesis
    unfolding r' s' using assms other D(4,8)
    by (auto simp: refines_def remap_inv_def dm.inv_ins dm.get_ins[OF D(1)] less_Suc_eq nxt)
qed (use assms(1) refinesD(2)[OF assms(1)] refines_size[OF assms(1)] in \<open>simp add: remap_ops\<close>)

text \<open>Taking and failing only remove entries.\<close>

lemma refines_remove:
  assumes "refines limit s r" and "dm_inv t"
    and "\<And>c e. dm_get t c = Some e \<Longrightarrow> dm_get (remap_map r) c = Some e"
    and "\<And>k. k < rt_next s \<Longrightarrow> dm_get t (cid_seq k) = live k"
    and "\<And>k e. live k = Some e \<Longrightarrow> rt_live s k = Some e"
  shows "refines limit (s\<lparr>rt_live := live\<rparr>) (r\<lparr>remap_map := t\<rparr>)"
proof -
  have "dom live \<subseteq> {..<rt_next s}" using assms(5) refinesD(8)[OF assms(1)] by auto
  moreover have "dom (dm_get t) \<subseteq> cid_seq ` {..<rt_next s}"
    using assms(1,3) by (auto simp: refines_def)
  ultimately show ?thesis using assms(1,2,4) by (simp add: refines_def remap_inv_def)
qed

lemma refines_take:
  assumes "refines limit s r"
  shows "refines limit (spec_step limit (RTake c) s) (fst (run_remap (RTake c) (r, m)))"
proof -
  note D = refinesD[OF assms]
  have "fst (run_remap (RTake c) (r, m)) = r\<lparr>remap_map := dm_remove c (remap_map r)\<rparr>"
    by (simp add: remap_take_def Let_def)
  moreover have "refines limit (s\<lparr>rt_live := (rt_live s) |` {k. cid_seq k \<noteq> c}\<rparr>)
      (r\<lparr>remap_map := dm_remove c (remap_map r)\<rparr>)"
  proof (rule refines_remove[OF assms])
    show "dm_inv (dm_remove c (remap_map r))" by (rule dm.inv_rem[OF D(1)])
    show "dm_get (dm_remove c (remap_map r)) (cid_seq k) = ((rt_live s) |` {k. cid_seq k \<noteq> c}) k"
      if "k < rt_next s" for k using D(7)[OF that] by (simp add: dm.get_rem[OF D(1)] restrict_map_def)
  qed (simp_all add: dm.get_rem[OF D(1)] restrict_map_def split: if_splits)
  ultimately show ?thesis by simp
qed

lemma refines_fail:
  assumes "refines limit s r"
  shows "refines limit (spec_step limit (RFail conn) s) (fst (run_remap (RFail conn) (r, m)))"
proof -
  note D = refinesD[OF assms]
  let ?t = "dm_retain (\<lambda>_ e. re_conn_id e \<noteq> conn) (remap_map r)"
  let ?live = "\<lambda>k. case rt_live s k of Some e \<Rightarrow> if re_conn_id e = conn then None else Some e | None \<Rightarrow> None"
  have "remap_inv r" using assms by (simp add: refines_def)
  from fail_conn_alone[OF this, of True conn m] obtain n where
    "fail_conn True id id conn r m = Some (of_nat n, r\<lparr>remap_map := ?t\<rparr>, sub_cid_map_entries (of_nat n) m)" by blast
  then have "fst (run_remap (RFail conn) (r, m)) = r\<lparr>remap_map := ?t\<rparr>" by simp
  moreover have "refines limit (s\<lparr>rt_live := ?live\<rparr>) (r\<lparr>remap_map := ?t\<rparr>)"
  proof (rule refines_remove[OF assms])
    show "dm_inv ?t" by (rule dm.inv_ret[OF D(1)])
    show "dm_get ?t (cid_seq k) = ?live k" if "k < rt_next s" for k
      using D(7)[OF that] by (simp add: dm_get_retain_conn[OF D(1)])
  qed (simp_all add: dm_get_retain_conn[OF D(1)] split: option.splits if_splits)
  ultimately show ?thesis by simp
qed

lemma refines_op:
  "refines limit s r \<Longrightarrow> (is_insert op \<Longrightarrow> rt_next s < 2 ^ 31 - 1) \<Longrightarrow>
     refines limit (spec_step limit op s) (fst (run_remap op (r, m)))"
  using refines_insert refines_take refines_fail by (cases op) (simp_all only: is_insert_def remap_op.case)

lemma spec_step_next: "rt_next (spec_step limit op s) \<le> rt_next s + length (filter is_insert [op])"
  by (cases op) (simp_all add: is_insert_def)

lemma refines_run:
  assumes "refines limit s r" and "rt_next s + length (filter is_insert ops) \<le> 2 ^ 31 - 1"
  shows "refines limit (fold (spec_step limit) ops s) (fst (fold run_remap ops (r, m)))"
  using assms
proof (induction ops arbitrary: s r m)
  case (Cons op ops)
  obtain r1 m1 where r1: "run_remap op (r, m) = (r1, m1)" by (cases "run_remap op (r, m)")
  have "refines limit (spec_step limit op s) r1"
    using refines_op[OF Cons.prems(1), of op m] Cons.prems(2) r1 by (cases "is_insert op") simp_all
  then show ?case
    using Cons.IH[of "spec_step limit op s" r1 m1] Cons.prems(2) spec_step_next[of limit op s] r1
    by (simp split: if_splits)
qed simp

section \<open>Properties\<close>

text \<open>C13: The table of requests in flight refines a map from request numbers to routes: after any
  operations with at most \<open>2^31 - 1\<close> insertions it holds exactly the live requests of the
  specification, each under the id of its number, as many as the specification has; and it accepts
  the next request, under the next id, exactly when the specification has room.\<close>

theorem table_refines_spec:
  assumes "length (filter is_insert ops) \<le> 2 ^ 31 - 1"
    and "fold run_remap ops (with_max_in_flight limit, metrics_new True) = (r, m)"
    and "s = fold (spec_step limit) ops spec_start"
  shows "in_flight r = card (dom (rt_live s))
    \<and> dom (dm_get (remap_map r)) = cid_seq ` dom (rt_live s) \<and> inj_on cid_seq (dom (rt_live s))
    \<and> (\<forall>k \<in> dom (rt_live s). dm_get (remap_map r) (cid_seq k) = rt_live s k)
    \<and> fst (remap_insert tx d k v conn now r m) =
        (if card (dom (rt_live s)) < limit then Some (cid_seq (rt_next s)) else None)"
proof -
  have "refines limit s r"
    using refines_run[OF refines_start, of ops limit "metrics_new True"] assms by (simp add: spec_start_def)
  note D = refinesD[OF this] and sz = refines_size[OF this]
  have "\<forall>k \<in> dom (rt_live s). dm_get (remap_map r) (cid_seq k) = rt_live s k" using D(4,7) by blast
  moreover have "inj_on cid_seq (dom (rt_live s))" by (rule inj_on_subset[OF D(5,4)])
  moreover have "fst (remap_insert tx d k v conn now r m) =
      (if card (dom (rt_live s)) < limit then Some (cid_seq (rt_next s)) else None)"
    using D(2,3) sz by (simp add: remap_ops Let_def)
  ultimately show ?thesis using D(6) sz by blast
qed

theorem table_refines_spec_witness:
  "\<exists>r m. fold run_remap [RInsert 0 42 3 9 1 0, RInsert 1 42 3 9 2 0, RFail 1] (with_max_in_flight 2, metrics_new True) = (r, m)
     \<and> in_flight r = 1 \<and> fst (remap_insert 5 6 3 9 2 0 r m) = Some (cid_seq 2)"
proof -
  let ?ops = "[RInsert 0 42 3 9 1 0, RInsert 1 42 3 9 2 0, RFail 1]"
  let ?s = "fold (spec_step 2) ?ops spec_start"
  obtain r m where f: "fold run_remap ?ops (with_max_in_flight 2, metrics_new True) = (r, m)"
    by (cases "fold run_remap ?ops (with_max_in_flight 2, metrics_new True)")
  have "dom (rt_live ?s) = {1}" "rt_next ?s = 2"
    by (auto simp: spec_start_def dom_def split: if_splits)
  then show ?thesis
    using table_refines_spec[OF _ f refl, of 5 6 3 9 2 0] f by (simp add: is_insert_def)
qed

end
