(* ===== verification/ConfigTests.thy ===== *)
theory ConfigTests
  imports Config Upstream
begin

text \<open>
  The unit tests of \<open>src/src/config.rs\<close> and \<open>src/src/upstream.rs\<close> on the model: one boolean per
  test function, the conjunction of its assertions, and a lemma that the model passes it. A TOML
  text is the document it parses to, so \<open>from_str\<close> is \<open>fill_config\<close> and \<open>validate\<close>.
\<close>

section \<open>Documents\<close>

text \<open>The document with only the two required keys; the tests add sections to it.\<close>

definition minimal_document :: "string list \<Rightarrow> string list \<Rightarrow> raw_config" where
  "minimal_document servers mapping =
     \<lparr>raw_cluster = Some (Some servers),
      raw_proxy_section = Some \<lparr>r_advertise_host = None, r_listen_bind = None,
        r_max_downstream_connections = None, r_client_idle_timeout = None,
        r_bootstrap_server_mapping = Some mapping\<rparr>,
      raw_upstream = None, raw_downstream = None, raw_pool_section = None, raw_api_section = None,
      raw_ha_section = None, raw_log_section = None, raw_unknown = []\<rparr>"

definition no_auth_keys :: raw_auth where
  "no_auth_keys =
     \<lparr>r_mechanism = None, r_username = None, r_password = None, r_kerberos_principal = None,
      r_kerberos_keytab = None, r_kerberos_kdc = None, r_kerberos_realm = None, r_ca_file = None,
      r_server_name = None, r_verify = None\<rparr>"

text \<open>\<open>from_str\<close> on the text of a document, whatever its writing; every product fits, so the
  arithmetic checks are on.\<close>

definition from_document :: "raw_config \<Rightarrow> (unit + fill_error) config_error + proxy_config" where
  "from_document d = config_from_str True (\<lambda>_. Inr d) []"

definition is_err :: "'e + 'a \<Rightarrow> bool" where
  "is_err r \<longleftrightarrow> (case r of Inl _ \<Rightarrow> True | Inr _ \<Rightarrow> False)"

definition unwrap_and :: "'e + 'a \<Rightarrow> ('a \<Rightarrow> bool) \<Rightarrow> bool" where
  "unwrap_and r P \<longleftrightarrow> (case r of Inl _ \<Rightarrow> False | Inr x \<Rightarrow> P x)"

section \<open>\<open>config.rs\<close>\<close>

definition parse_minimal :: bool where
  "parse_minimal \<longleftrightarrow>
     unwrap_and (from_document (minimal_document [''host1:9092'', ''host2:9092''] [''proxy.svc:9092'', ''proxy.svc:9093'']))
       (\<lambda>cfg. length (bootstrap_servers (cfg_cluster cfg)) = 2
          \<and> length (bootstrap_server_mapping (cfg_proxy cfg)) = 2
          \<and> bootstrap_server_mapping (cfg_proxy cfg) ! 0 = ''proxy.svc:9092''
          \<and> listen_bind (cfg_proxy cfg) = ''0.0.0.0''
          \<and> max_downstream_connections (cfg_proxy cfg) = 10000
          \<and> mechanism (cfg_upstream cfg) = MechNone)"

definition parse_with_gssapi :: bool where
  "parse_with_gssapi \<longleftrightarrow>
     unwrap_and (from_document ((minimal_document [''host1:9092''] [''proxy.svc:9092''])
         \<lparr>raw_upstream := Some (Some (no_auth_keys
            \<lparr>r_mechanism := Some ''gssapi'', r_kerberos_principal := Some ''user@EXAMPLE.COM'',
             r_kerberos_keytab := Some ''/etc/kp/testkb.keytab'', r_kerberos_kdc := Some ''kdc:88'',
             r_kerberos_realm := Some ''HADOOP.COM''\<rparr>)),
          raw_downstream := Some (Some (no_auth_keys\<lparr>r_mechanism := Some ''none''\<rparr>))\<rparr>))
       (\<lambda>cfg. mechanism (cfg_upstream cfg) = Gssapi
          \<and> kerberos_principal (cfg_upstream cfg) = Some ''user@EXAMPLE.COM''
          \<and> mechanism (cfg_downstream cfg) = MechNone)"

definition rejects_empty_bootstrap :: bool where
  "rejects_empty_bootstrap \<longleftrightarrow> is_err (from_document (minimal_document [] [''p:9092'']))"

definition rejects_empty_mapping :: bool where
  "rejects_empty_mapping \<longleftrightarrow> is_err (from_document (minimal_document [''h:9092''] []))"

text \<open>The test looks for a word of the message; the message is the constructor here.\<close>

definition rejects_mapping_length_mismatch :: bool where
  "rejects_mapping_length_mismatch \<longleftrightarrow>
     from_document (minimal_document [''h1:9092'', ''h2:9092''] [''p:9092'']) = Inl (Invalid (LengthMismatch 1 2))"

definition pool_and_api_defaults :: bool where
  "pool_and_api_defaults \<longleftrightarrow>
     unwrap_and (from_document (minimal_document [''h:9092''] [''p:9092'']))
       (\<lambda>cfg. forwarding_mode (cfg_pool cfg) = Pooled
          \<and> max_per_broker (cfg_pool cfg) = 16
          \<and> min_idle (cfg_pool cfg) = 2
          \<and> idle_timeout (cfg_pool cfg) = from_secs 300
          \<and> acquire_timeout (cfg_pool cfg) = from_secs 5
          \<and> health_check (cfg_pool cfg) = from_secs 30
          \<and> max_in_flight (cfg_pool cfg) = 100000
          \<and> max_rss_bytes (cfg_pool cfg) = 0
          \<and> api_listen (cfg_api cfg) = ''127.0.0.1:9100''
          \<and> default_count (cfg_api cfg) = 5
          \<and> cfg_ha cfg = StatelessReplicas)"

definition pool_per_connection_mode :: bool where
  "pool_per_connection_mode \<longleftrightarrow>
     unwrap_and (from_document ((minimal_document [''h:9092''] [''p:9092''])
         \<lparr>raw_pool_section := Some
            \<lparr>r_mode = Some ''per_connection'', r_max_per_broker = Some 8, r_min_idle = Some 1,
             r_idle_timeout = Some (TStr ''10s''), r_acquire_timeout = Some (TStr ''2s''),
             r_health_check = Some (TStr ''15s''), r_max_in_flight = Some 50000,
             r_max_rss_bytes = Some 536870912\<rparr>\<rparr>))
       (\<lambda>cfg. forwarding_mode (cfg_pool cfg) = PerConnection
          \<and> max_per_broker (cfg_pool cfg) = 8
          \<and> min_idle (cfg_pool cfg) = 1
          \<and> idle_timeout (cfg_pool cfg) = from_secs 10
          \<and> max_rss_bytes (cfg_pool cfg) = 536870912)"

definition ha_mode_kebab_alias :: bool where
  "ha_mode_kebab_alias \<longleftrightarrow>
     unwrap_and (from_document ((minimal_document [''h:9092''] [''p:9092''])
         \<lparr>raw_ha_section := Some (Some ''dns-round-robin'')\<rparr>))
       (\<lambda>cfg. cfg_ha cfg = DnsRoundRobin)
   \<and> unwrap_and (from_document ((minimal_document [''h:9092''] [''p:9092''])
         \<lparr>raw_ha_section := Some (Some ''stateless_replicas'')\<rparr>))
       (\<lambda>cfg2. cfg_ha cfg2 = StatelessReplicas)"

definition api_listen_override :: bool where
  "api_listen_override \<longleftrightarrow>
     unwrap_and (from_document ((minimal_document [''h:9092''] [''p:9092''])
         \<lparr>raw_api_section := Some \<lparr>r_listen = Some ''0.0.0.0:8080'', r_default_count = Some 20,
            r_metrics_enabled = None\<rparr>\<rparr>))
       (\<lambda>cfg. api_listen (cfg_api cfg) = ''0.0.0.0:8080'' \<and> default_count (cfg_api cfg) = 20)"

definition mapping_host_fallback_to_advertise :: bool where
  "mapping_host_fallback_to_advertise \<longleftrightarrow>
     unwrap_and (from_document ((minimal_document [''h:9092''] [])
         \<lparr>raw_proxy_section := Some \<lparr>r_advertise_host = Some ''proxy.svc'', r_listen_bind = None,
            r_max_downstream_connections = None, r_client_idle_timeout = None,
            r_bootstrap_server_mapping = Some ['':9092'']\<rparr>\<rparr>))
       (\<lambda>cfg. bootstrap_server_mapping (cfg_proxy cfg) ! 0 = '':9092'')"

definition mapping_triplet_format_accepted :: bool where
  "mapping_triplet_format_accepted \<longleftrightarrow>
     unwrap_and (from_document (minimal_document [''broker1:9092''] [''broker1:9092,0.0.0.0:19193,10.57.92.174:19193'']))
       (\<lambda>cfg. bootstrap_server_mapping (cfg_proxy cfg) ! 0 = ''broker1:9092,0.0.0.0:19193,10.57.92.174:19193'')"

definition mapping_two_part_format_accepted :: bool where
  "mapping_two_part_format_accepted \<longleftrightarrow>
     unwrap_and (from_document (minimal_document [''broker1:9092''] [''0.0.0.0:19193,10.57.92.174:19193'']))
       (\<lambda>cfg. bootstrap_server_mapping (cfg_proxy cfg) ! 0 = ''0.0.0.0:19193,10.57.92.174:19193'')"

definition mapping_triplet_missing_advertise_host_rejected :: bool where
  "mapping_triplet_missing_advertise_host_rejected \<longleftrightarrow>
     is_err (from_document (minimal_document [''broker1:9092''] [''broker1:9092,0.0.0.0:19193,:19193'']))"

text \<open>The equations that evaluate \<open>from_str\<close> on a document.\<close>

lemmas document_eval =
  from_document_def config_from_str_def is_err_def unwrap_and_def minimal_document_def no_auth_keys_def
  fill_config_def fill_cluster_def fill_proxy_def fill_auth_def fill_pool_def fill_api_def fill_ha_def fill_log_def
  fill_variant_def fill_duration_def deserialize_optional_duration_def deserialize_duration_def
  parse_mechanism_def parse_pool_mode_def parse_ha_mode_def parse_duration_str_def
  pool_config_default_def api_config_default_def auth_config_default_def
  default_bind_def default_max_downstream_def default_pool_mode_def default_max_per_broker_def default_min_idle_def
  default_idle_timeout_def default_acquire_timeout_def default_health_check_def default_max_in_flight_def
  default_api_listen_def default_debug_count_def
  validate_def validate_entry_def mapping_parts_def ok_or_def or_default_def Let_def
  trim_def is_whitespace_def strip_suffix_def mul_u64_def u64_max_def parse_u64_def parse_uint_def digit_val_def

lemma parse_minimal_passes: parse_minimal
  by (simp add: parse_minimal_def document_eval)
lemma parse_with_gssapi_passes: parse_with_gssapi
  by (simp add: parse_with_gssapi_def document_eval)
lemma rejects_empty_bootstrap_passes: rejects_empty_bootstrap
  by (simp add: rejects_empty_bootstrap_def document_eval)
lemma rejects_empty_mapping_passes: rejects_empty_mapping
  by (simp add: rejects_empty_mapping_def document_eval)
lemma rejects_mapping_length_mismatch_passes: rejects_mapping_length_mismatch
  by (simp add: rejects_mapping_length_mismatch_def document_eval)
lemma pool_and_api_defaults_passes: pool_and_api_defaults
  by (simp add: pool_and_api_defaults_def document_eval)
lemma pool_per_connection_mode_passes: pool_per_connection_mode
  by (simp add: pool_per_connection_mode_def document_eval)
lemma ha_mode_kebab_alias_passes: ha_mode_kebab_alias
  by (simp add: ha_mode_kebab_alias_def document_eval)
lemma api_listen_override_passes: api_listen_override
  by (simp add: api_listen_override_def document_eval)
lemma mapping_host_fallback_to_advertise_passes: mapping_host_fallback_to_advertise
  by (simp add: mapping_host_fallback_to_advertise_def document_eval)
lemma mapping_triplet_format_accepted_passes: mapping_triplet_format_accepted
  by (simp add: mapping_triplet_format_accepted_def document_eval)
lemma mapping_two_part_format_accepted_passes: mapping_two_part_format_accepted
  by (simp add: mapping_two_part_format_accepted_def document_eval)
lemma mapping_triplet_missing_advertise_host_rejected_passes: mapping_triplet_missing_advertise_host_rejected
  by (simp add: mapping_triplet_missing_advertise_host_rejected_def document_eval)

section \<open>\<open>upstream.rs\<close>\<close>

text \<open>\<open>K\<close> is the client library, whatever it is.\<close>

definition plaintext_auth :: "('kc, 'sc, 'b, 'cb, 'addr) kafka_client_api \<Rightarrow> bool" where
  "plaintext_auth K \<longleftrightarrow>
     unwrap_and (from_config K (auth_config_default\<lparr>mechanism := MechNone\<rparr>) :: unit upstream_error + _)
       (\<lambda>ua. ua = APlaintext)"

text \<open>The test adds one key after another; only the last configuration is accepted.\<close>

definition gssapi_requires_principal_keytab_kdc :: "('kc, 'sc, 'b, 'cb, 'addr) kafka_client_api \<Rightarrow> bool" where
  "gssapi_requires_principal_keytab_kdc K \<longleftrightarrow>
     (let auth0 = auth_config_default\<lparr>mechanism := Gssapi\<rparr>;
          auth1 = auth0\<lparr>kerberos_principal := Some ''user@EXAMPLE.COM''\<rparr>;
          auth2 = auth1\<lparr>kerberos_keytab := Some ''/etc/kp/kb.keytab''\<rparr>;
          auth3 = auth2\<lparr>kerberos_kdc := Some ''kdc:88''\<rparr>
      in is_err (from_config K auth0 :: unit upstream_error + _)
       \<and> is_err (from_config K auth1 :: unit upstream_error + _)
       \<and> is_err (from_config K auth2 :: unit upstream_error + _)
       \<and> unwrap_and (from_config K auth3 :: unit upstream_error + _)
           (\<lambda>ua. case ua of AGssapi _ _ _ \<Rightarrow> True | _ \<Rightarrow> False))"

definition plain_auth :: "('kc, 'sc, 'b, 'cb, 'addr) kafka_client_api \<Rightarrow> bool" where
  "plain_auth K \<longleftrightarrow>
     unwrap_and (from_config K (auth_config_default
         \<lparr>mechanism := Plain, username := Some ''user'', password := Some ''pass''\<rparr>) :: unit upstream_error + _)
       (\<lambda>ua. case ua of ASasl _ _ \<Rightarrow> True | _ \<Rightarrow> False)"

definition scram_auth :: "('kc, 'sc, 'b, 'cb, 'addr) kafka_client_api \<Rightarrow> bool" where
  "scram_auth K \<longleftrightarrow>
     unwrap_and (from_config K (auth_config_default
         \<lparr>mechanism := ScramSha512, username := Some ''user'', password := Some ''pass''\<rparr>) :: unit upstream_error + _)
       (\<lambda>ua. case ua of ASasl mech _ \<Rightarrow> mech = SaslScramSha512 | _ \<Rightarrow> False)"

definition parse_kdc_format :: bool where
  "parse_kdc_format \<longleftrightarrow>
     (let auth = auth_config_default
            \<lparr>mechanism := Gssapi, kerberos_principal := Some ''p'', kerberos_keytab := Some ''k'',
             kerberos_kdc := Some ''kdc.example.com:88''\<rparr>;
          bad = auth\<lparr>kerberos_kdc := Some ''noport''\<rparr>
      in unwrap_and (parse_kdc auth :: unit upstream_error + _) (\<lambda>(h, p). h = ''kdc.example.com'' \<and> p = 88)
       \<and> is_err (parse_kdc bad :: unit upstream_error + _))"

definition mtls_unsupported :: "('kc, 'sc, 'b, 'cb, 'addr) kafka_client_api \<Rightarrow> bool" where
  "mtls_unsupported K \<longleftrightarrow>
     is_err (from_config K (auth_config_default\<lparr>mechanism := Mtls\<rparr>) :: unit upstream_error + _)"

lemmas upstream_eval =
  from_config_def parse_kdc_def user_pass_def auth_config_default_def unwrap_and_def is_err_def ok_or_def
  Let_def parse_u16_def u16_max_def parse_uint_def digit_val_def

lemma plaintext_auth_passes: "plaintext_auth K"
  by (simp add: plaintext_auth_def upstream_eval)
lemma gssapi_requires_principal_keytab_kdc_passes: "gssapi_requires_principal_keytab_kdc K"
  by (simp add: gssapi_requires_principal_keytab_kdc_def upstream_eval)
lemma plain_auth_passes: "plain_auth K"
  by (simp add: plain_auth_def upstream_eval)
lemma scram_auth_passes: "scram_auth K"
  by (simp add: scram_auth_def upstream_eval)
lemma parse_kdc_format_passes: parse_kdc_format
  by (simp add: parse_kdc_format_def upstream_eval)
lemma mtls_unsupported_passes: "mtls_unsupported K"
  by (simp add: mtls_unsupported_def upstream_eval)

end
