(* ===== verification/PoolTests.thy ===== *)
theory PoolTests
  imports Pool "HOL-Library.Sublist"
begin

text \<open>
  The unit tests of \<open>src/src/metrics.rs\<close>, \<open>src/src/rewrite.rs\<close> and \<open>src/src/pool.rs\<close> on the
  model: one boolean per test function, the conjunction of its assertions, and a lemma that the
  model passes it. The tests that encode and decode messages take the codec as an argument; they
  pass for every codec that reads back the test's own messages.
\<close>

section \<open>\<open>metrics.rs\<close>\<close>

definition histogram_observe_and_cumulative :: bool where
  "histogram_observe_and_cumulative \<longleftrightarrow>
     (let h = observe 10 (observe (2/1000) (observe (5/100000) histogram_new))
      in hist_count h = 3
       \<and> hist_counts h ! 0 = 1
       \<and> buckets h ! 3 = 5/1000 \<and> hist_counts h ! 3 = 2
       \<and> hist_counts h ! length (buckets h) = 3)"

text \<open>\<open>str::contains\<close>.\<close>

definition contains :: "string \<Rightarrow> string \<Rightarrow> bool" where
  "contains text p \<longleftrightarrow> sublist p text"

text \<open>\<open>fmt\<close> prints a float, \<open>rss\<close> is the resident size read.\<close>

definition metrics_render_contains_key_lines :: "(rat \<Rightarrow> string) \<Rightarrow> u64 \<Rightarrow> bool" where
  "metrics_render_contains_key_lines fmt rss \<longleftrightarrow>
     (let m = inc_downstream_connections (inc_frames_downstream (metrics_new True));
          text = render_prometheus fmt rss m
      in contains text ''kafka_proxy_frames_total{dir=\"downstream\"}''
       \<and> contains text ''kafka_proxy_downstream_connections''
       \<and> contains text ''kafka_proxy_process_resident_memory_bytes'')"

definition metrics_disabled_skips_collection :: "(rat \<Rightarrow> string) \<Rightarrow> u64 \<Rightarrow> bool" where
  "metrics_disabled_skips_collection fmt rss \<longleftrightarrow>
     (let m = inc_downstream_connections (inc_cid_map_entries (inc_pool_hits (inc_frames_downstream (metrics_new False))));
          text = render_prometheus fmt rss m
      in contains text ''kafka_proxy_frames_total{dir=\"downstream\"} 0''
       \<and> contains text ''kafka_proxy_cid_map_entries 0''
       \<and> contains text ''kafka_proxy_pool_hits_total 0''
       \<and> contains text ''kafka_proxy_downstream_connections 1'')"

lemma histogram_observe_and_cumulative_passes: histogram_observe_and_cumulative
proof -
  let ?obs = "[5/100000, 2/1000, 10] :: rat list"
  let ?h = "observe 10 (observe (2/1000) (observe (5/100000) histogram_new))"
  have h: "?h = observe_all ?obs histogram_new" by (simp add: observe_all_def)
  note counts = observe_all_nth[where h = histogram_new and obs = ?obs]
  have nth: "hist_counts (observe_all ?obs histogram_new) ! i = of_nat (count_le ?obs (DEFAULT_BUCKETS ! i))"
    if "i < length DEFAULT_BUCKETS" for i
    using counts(1)[of i] that sorted_DEFAULT_BUCKETS by simp
  have "hist_counts (observe_all ?obs histogram_new) ! 0 = 1" "hist_counts (observe_all ?obs histogram_new) ! 3 = 2"
    by (subst nth; simp add: DEFAULT_BUCKETS_def count_le_def)+
  moreover have "hist_counts (observe_all ?obs histogram_new) ! length DEFAULT_BUCKETS = 3"
    using counts(2) sorted_DEFAULT_BUCKETS by simp
  moreover have "DEFAULT_BUCKETS ! 3 = 5/1000" by (simp add: DEFAULT_BUCKETS_def)
  ultimately show ?thesis
    unfolding histogram_observe_and_cumulative_def h Let_def by (simp add: observe_all_count)
qed

lemma contains_left: "contains a p \<Longrightarrow> contains (a @ b) p"
  by (simp add: contains_def sublist_append)

lemma contains_right: "contains b p \<Longrightarrow> contains (a @ b) p"
  by (simp add: contains_def sublist_append)

lemma contains_sample: "contains (sample name v) (name @ '' '' @ v)" "contains (sample name v) name"
proof -
  have "contains (p @ q) p" for p q :: string by (simp add: contains_def)
  from this[of "name @ '' '' @ v"] this[of name] show "contains (sample name v) (name @ '' '' @ v)"
    "contains (sample name v) name"
    by (simp_all only: sample_def append_assoc)
qed

lemma rendered_samples:
  assumes "text = render_prometheus fmt rss m"
  shows "contains text (''kafka_proxy_frames_total{dir=\"downstream\"}'' @ '' '' @ show_u64 (frames_downstream m))"
    "contains text ''kafka_proxy_frames_total{dir=\"downstream\"}''"
    "contains text (''kafka_proxy_downstream_connections'' @ '' '' @ show_i64 (downstream_connections m))"
    "contains text ''kafka_proxy_downstream_connections''"
    "contains text (''kafka_proxy_pool_hits_total'' @ '' '' @ show_u64 (pool_hits m))"
    "contains text (''kafka_proxy_cid_map_entries'' @ '' '' @ show_i64 (cid_map_entries m))"
    "contains text ''kafka_proxy_process_resident_memory_bytes''"
  unfolding assms render_prometheus_def by ((rule contains_left, rule contains_sample | rule contains_sample | rule contains_right)+)

lemma metrics_render_contains_key_lines_passes: "metrics_render_contains_key_lines fmt rss"
  using rendered_samples(2,4,7)[OF refl] by (simp add: metrics_render_contains_key_lines_def Let_def)

lemma metrics_disabled_skips_collection_passes: "metrics_disabled_skips_collection fmt rss"
proof -
  let ?m = "inc_downstream_connections (inc_cid_map_entries (inc_pool_hits (inc_frames_downstream (metrics_new False))))"
  have m: "frames_downstream ?m = 0" "cid_map_entries ?m = 0" "pool_hits ?m = 0" "downstream_connections ?m = 1"
    by (simp_all add: metrics_ops metrics_on_def metrics_new_def)
  have "show_u64 0 = ''0''" "show_i64 0 = ''0''" "show_i64 1 = ''1''"
    by (simp_all add: show_u64_def show_i64_def show_int_def show_nat.simps digit_char_def char_of_def bit_Suc_0_iff)
  then show ?thesis
    using rendered_samples(1,3,5,6)[of _ fmt rss ?m, OF refl] by (simp add: m metrics_disabled_skips_collection_def Let_def)
qed

section \<open>\<open>rewrite.rs\<close>\<close>

subsection \<open>Headers\<close>

definition metadata_request_v1 :: "i32 \<Rightarrow> bytes" where
  "metadata_request_v1 cid = put_i16 3 @ put_i16 1 @ put_i32 cid @ put_i16 (- 1) @ put_i32 (- 1)"

definition parse_req_header :: bool where
  "parse_req_header \<longleftrightarrow>
     (case parse_request_header (metadata_request_v1 0x11223344) of
        Some (ak, v, cid) \<Rightarrow> ak = 3 \<and> v = 1 \<and> cid = 0x11223344
      | None \<Rightarrow> False)"

definition parse_resp_cid :: bool where
  "parse_resp_cid \<longleftrightarrow> parse_response_cid (put_i32 0x55667788) = Some 0x55667788"

definition needs_rewrite_metadata :: bool where
  "needs_rewrite_metadata \<longleftrightarrow>
     needs_rewrite API_KEY_METADATA \<and> needs_rewrite API_KEY_DESCRIBE_CLUSTER
     \<and> \<not> needs_rewrite 0 \<and> \<not> needs_rewrite 1"

definition short_frame_header_none :: bool where
  "short_frame_header_none \<longleftrightarrow> parse_request_header [1, 2, 3] = None \<and> parse_response_cid [1, 2, 3] = None"

definition needs_rewrite_find_coordinator :: bool where
  "needs_rewrite_find_coordinator \<longleftrightarrow> needs_rewrite API_KEY_FIND_COORDINATOR"

lemma parse_req_header_passes: parse_req_header
proof -
  have "parse_request_header (metadata_request_v1 0x11223344) = Some (3, 1, 0x11223344)"
    by (auto simp: parse_request_header_Some metadata_request_v1_def)
  then show ?thesis by (simp add: parse_req_header_def)
qed
lemma parse_resp_cid_passes: parse_resp_cid
  using parse_response_cid_put[of "0x55667788" "[]"] by (simp add: parse_resp_cid_def)
lemma needs_rewrite_metadata_passes: needs_rewrite_metadata
  by (simp add: needs_rewrite_metadata_def needs_rewrite_def api_keys)
lemma short_frame_header_none_passes: short_frame_header_none
  by (simp add: short_frame_header_none_def parse_request_header_def parse_response_cid_def)
lemma needs_rewrite_find_coordinator_passes: needs_rewrite_find_coordinator
  by (simp add: needs_rewrite_find_coordinator_def needs_rewrite_def)

subsection \<open>The messages of the tests\<close>

definition test_map :: rewrite_map where
  "test_map = rewrite_map_new
     [(1, (''127.0.0.1'', 19092)), (2, (''127.0.0.1'', 19093)), (3, (''127.0.0.1'', 19094))]"

text \<open>A response with two brokers or coordinators at the given addresses; \<open>rest\<close> is the other fields.\<close>

definition md_message :: "string \<times> i32 \<Rightarrow> string \<times> i32 \<Rightarrow> 'r \<Rightarrow> 'r metadata_response" where
  "md_message a b rest =
     \<lparr>md_brokers = [\<lparr>md_node_id = 1, md_host = fst a, md_port = snd a, md_rack = None\<rparr>,
                    \<lparr>md_node_id = 2, md_host = fst b, md_port = snd b, md_rack = None\<rparr>], md_rest = rest\<rparr>"

definition dc_message :: "string \<times> i32 \<Rightarrow> string \<times> i32 \<Rightarrow> 'r \<Rightarrow> 'r describe_cluster_response" where
  "dc_message a b rest =
     \<lparr>dc_brokers = [\<lparr>dc_broker_id = 1, dc_host = fst a, dc_port = snd a, dc_rack = None, dc_is_fenced = False\<rparr>,
                    \<lparr>dc_broker_id = 2, dc_host = fst b, dc_port = snd b, dc_rack = None, dc_is_fenced = False\<rparr>],
      dc_rest = rest\<rparr>"

definition fc_message_v3 :: "string \<times> i32 \<Rightarrow> 'r \<Rightarrow> 'r find_coordinator_response" where
  "fc_message_v3 a rest = \<lparr>fc_node_id = 3, fc_host = fst a, fc_port = snd a, fc_coordinators = [], fc_rest = rest\<rparr>"

definition fc_message_v4 :: "string \<times> i32 \<Rightarrow> string \<times> i32 \<Rightarrow> 'r \<Rightarrow> 'r find_coordinator_response" where
  "fc_message_v4 a b rest =
     \<lparr>fc_node_id = - 1, fc_host = [], fc_port = - 1,
      fc_coordinators =
        [\<lparr>co_key = ''order_audit'', co_node_id = 2, co_host = fst a, co_port = snd a, co_error_code = 0, co_error_message = None\<rparr>,
         \<lparr>co_key = ''txn_coord'', co_node_id = 3, co_host = fst b, co_port = snd b, co_error_code = 0, co_error_message = None\<rparr>],
      fc_rest = rest\<rparr>"

text \<open>The frame of a flexible response: the header with no tagged fields, then the body; \<open>None\<close> is
  the panic of the \<open>unwrap\<close>.\<close>

definition flexible_frame :: "'m codec \<Rightarrow> i16 \<Rightarrow> i32 \<Rightarrow> 'm \<Rightarrow> bytes option" where
  "flexible_frame C version cid resp =
     map_option (\<lambda>body. encode_unsigned_varint (put_i32 cid) 0 @ body) (flexible_encode C resp version)"

definition encode_metadata_response_v9 :: "'r metadata_response codec \<Rightarrow> 'r \<Rightarrow> i32 \<Rightarrow> bytes option" where
  "encode_metadata_response_v9 C rest cid =
     flexible_frame C 9 cid (md_message (''real-broker-1'', 9092) (''real-broker-2'', 9092) rest)"

definition encode_describe_cluster_response_v0 :: "'r describe_cluster_response codec \<Rightarrow> 'r \<Rightarrow> i32 \<Rightarrow> bytes option" where
  "encode_describe_cluster_response_v0 C rest cid =
     flexible_frame C 0 cid (dc_message (''real-broker-1'', 9092) (''real-broker-2'', 9092) rest)"

definition encode_find_coordinator_response_v3 :: "'r find_coordinator_response codec \<Rightarrow> 'r \<Rightarrow> i32 \<Rightarrow> bytes option" where
  "encode_find_coordinator_response_v3 C rest cid = flexible_frame C 3 cid (fc_message_v3 (''real-coordinator-3'', 9092) rest)"

definition encode_find_coordinator_response_v4 :: "'r find_coordinator_response codec \<Rightarrow> 'r \<Rightarrow> i32 \<Rightarrow> bytes option" where
  "encode_find_coordinator_response_v4 C rest cid =
     flexible_frame C 4 cid (fc_message_v4 (''real-coordinator-2'', 9092) (''real-coordinator-3'', 9092) rest)"

definition expect_and :: "'a option \<Rightarrow> ('a \<Rightarrow> bool) \<Rightarrow> bool" where
  "expect_and r P \<longleftrightarrow> (case r of None \<Rightarrow> False | Some x \<Rightarrow> P x)"

text \<open>What a test asks of the codec: it encodes the message at the version, which is a flexible one,
  and reads it back.\<close>

definition reads_back :: "'m codec \<Rightarrow> i16 \<Rightarrow> 'm \<Rightarrow> bool" where
  "reads_back C v r \<longleftrightarrow> is_flexible_version C v \<and> encodable C v r \<and> codec_roundtrip C v r"

lemma flexible_frame_encode: "is_flexible_version C v \<Longrightarrow> encode_response C v cid r = flexible_frame C v cid r"
  by (simp add: encode_response_def flexible_frame_def Let_def encode_unsigned_varint_zero split: option.splits)

lemma reads_back_frame:
  assumes "reads_back C v r"
  obtains raw where "flexible_frame C v cid r = Some raw" "decode_frame C raw v = Some (cid, r)"
  using encode_response_Some[of C v r cid] assms by (auto simp: reads_back_def flexible_frame_encode)

subsection \<open>Round trips\<close>

definition rewrite_metadata_roundtrip :: "'r metadata_response codec \<Rightarrow> 'r \<Rightarrow> bool" where
  "rewrite_metadata_roundtrip C rest \<longleftrightarrow>
     expect_and (encode_metadata_response_v9 C rest 0x1234) (\<lambda>raw.
     expect_and (rewrite_metadata_response C 9 raw test_map) (\<lambda>rewritten.
     expect_and (decode_frame C rewritten 9) (\<lambda>(cid, resp).
       cid = 0x1234 \<and> length (md_brokers resp) = 2
       \<and> list_all (\<lambda>b. md_host b = ''127.0.0.1'' \<and> (md_port b = 19092 \<or> md_port b = 19093)) (md_brokers resp))))"

definition rewrite_metadata_no_change_returns_none :: "'r metadata_response codec \<Rightarrow> 'r \<Rightarrow> bool" where
  "rewrite_metadata_no_change_returns_none C rest \<longleftrightarrow>
     expect_and (encode_metadata_response_v9 C rest 1) (\<lambda>raw.
       rewrite_metadata_response C 9 raw (rewrite_map_new []) = None)"

definition rewrite_describe_cluster_roundtrip :: "'r describe_cluster_response codec \<Rightarrow> 'r \<Rightarrow> bool" where
  "rewrite_describe_cluster_roundtrip C rest \<longleftrightarrow>
     expect_and (encode_describe_cluster_response_v0 C rest 0x5678) (\<lambda>raw.
     expect_and (rewrite_describe_cluster_response C 0 raw test_map) (\<lambda>rewritten.
     expect_and (decode_frame C rewritten 0) (\<lambda>(cid, resp).
       cid = 0x5678 \<and> length (dc_brokers resp) = 2
       \<and> list_all (\<lambda>b. dc_host b = ''127.0.0.1'' \<and> (dc_port b = 19092 \<or> dc_port b = 19093)) (dc_brokers resp))))"

definition rewrite_describe_cluster_via_dispatch :: "('r1, 'r2, 'r3) kafka_protocol \<Rightarrow> 'r2 \<Rightarrow> bool" where
  "rewrite_describe_cluster_via_dispatch P rest \<longleftrightarrow>
     expect_and (encode_describe_cluster_response_v0 (describe_cluster_codec P) rest 42) (\<lambda>raw.
       rewrite_response P API_KEY_DESCRIBE_CLUSTER 0 raw test_map \<noteq> None)"

definition rewrite_describe_cluster_no_change_returns_none :: "'r describe_cluster_response codec \<Rightarrow> 'r \<Rightarrow> bool" where
  "rewrite_describe_cluster_no_change_returns_none C rest \<longleftrightarrow>
     expect_and (encode_describe_cluster_response_v0 C rest 1) (\<lambda>raw.
       rewrite_describe_cluster_response C 0 raw (rewrite_map_new []) = None)"

definition rewrite_find_coordinator_v3_roundtrip :: "'r find_coordinator_response codec \<Rightarrow> 'r \<Rightarrow> bool" where
  "rewrite_find_coordinator_v3_roundtrip C rest \<longleftrightarrow>
     expect_and (encode_find_coordinator_response_v3 C rest 0xABCD) (\<lambda>raw.
     expect_and (rewrite_find_coordinator_response C 3 raw test_map) (\<lambda>rewritten.
     expect_and (decode_frame C rewritten 3) (\<lambda>(cid, resp).
       cid = 0xABCD \<and> fc_host resp = ''127.0.0.1'' \<and> fc_port resp = 19094 \<and> fc_node_id resp = 3)))"

definition rewrite_find_coordinator_v3_no_change_returns_none :: "'r find_coordinator_response codec \<Rightarrow> 'r \<Rightarrow> bool" where
  "rewrite_find_coordinator_v3_no_change_returns_none C rest \<longleftrightarrow>
     expect_and (encode_find_coordinator_response_v3 C rest 1) (\<lambda>raw.
       rewrite_find_coordinator_response C 3 raw (rewrite_map_new []) = None)"

definition rewrite_find_coordinator_v4_roundtrip :: "'r find_coordinator_response codec \<Rightarrow> 'r \<Rightarrow> bool" where
  "rewrite_find_coordinator_v4_roundtrip C rest \<longleftrightarrow>
     expect_and (encode_find_coordinator_response_v4 C rest 0xBEEF) (\<lambda>raw.
     expect_and (rewrite_find_coordinator_response C 4 raw test_map) (\<lambda>rewritten.
     expect_and (decode_frame C rewritten 4) (\<lambda>(cid, resp).
       cid = 0xBEEF \<and> length (fc_coordinators resp) = 2
       \<and> co_host (fc_coordinators resp ! 0) = ''127.0.0.1'' \<and> co_port (fc_coordinators resp ! 0) = 19093
       \<and> co_key (fc_coordinators resp ! 0) = ''order_audit''
       \<and> co_host (fc_coordinators resp ! 1) = ''127.0.0.1'' \<and> co_port (fc_coordinators resp ! 1) = 19094)))"

definition rewrite_find_coordinator_via_dispatch :: "('r1, 'r2, 'r3) kafka_protocol \<Rightarrow> 'r3 \<Rightarrow> bool" where
  "rewrite_find_coordinator_via_dispatch P rest \<longleftrightarrow>
     expect_and (encode_find_coordinator_response_v3 (find_coordinator_codec P) rest 99) (\<lambda>raw.
       rewrite_response P API_KEY_FIND_COORDINATOR 3 raw test_map \<noteq> None)"

lemmas message_eval =
  expect_and_def test_map_def rewrite_map_new_def md_message_def dc_message_def fc_message_v3_def fc_message_v4_def
  encode_metadata_response_v9_def encode_describe_cluster_response_v0_def encode_find_coordinator_response_v3_def
  encode_find_coordinator_response_v4_def

text \<open>Each rewriter on a test's message: the frame of the message at the advertised addresses.\<close>

lemma md_rewritten:
  assumes "reads_back C 9 (md_message (h1, p1) (h2, p2) rest)"
    and "reads_back C 9 (md_message (''127.0.0.1'', 19092) (''127.0.0.1'', 19093) rest)"
  shows "\<exists>raw out. flexible_frame C 9 cid (md_message (h1, p1) (h2, p2) rest) = Some raw
    \<and> rewrite_metadata_response C 9 raw test_map = Some out
    \<and> decode_frame C out 9 = Some (cid, md_message (''127.0.0.1'', 19092) (''127.0.0.1'', 19093) rest)
    \<and> rewrite_metadata_response C 9 raw (rewrite_map_new []) = None"
proof -
  obtain raw out where "flexible_frame C 9 cid (md_message (h1, p1) (h2, p2) rest) = Some raw"
    "decode_frame C raw 9 = Some (cid, md_message (h1, p1) (h2, p2) rest)"
    "flexible_frame C 9 cid (md_message (''127.0.0.1'', 19092) (''127.0.0.1'', 19093) rest) = Some out"
    "decode_frame C out 9 = Some (cid, md_message (''127.0.0.1'', 19092) (''127.0.0.1'', 19093) rest)"
    using reads_back_frame[OF assms(1)] reads_back_frame[OF assms(2)] by metis
  then show ?thesis using assms
    by (simp add: rewrite_metadata_response_def reads_back_def flexible_frame_encode test_map_def rewrite_map_new_def
        md_message_def)
qed

lemma dc_rewritten:
  assumes "reads_back C 0 (dc_message (h1, p1) (h2, p2) rest)"
    and "reads_back C 0 (dc_message (''127.0.0.1'', 19092) (''127.0.0.1'', 19093) rest)"
  shows "\<exists>raw out. flexible_frame C 0 cid (dc_message (h1, p1) (h2, p2) rest) = Some raw
    \<and> rewrite_describe_cluster_response C 0 raw test_map = Some out
    \<and> decode_frame C out 0 = Some (cid, dc_message (''127.0.0.1'', 19092) (''127.0.0.1'', 19093) rest)
    \<and> rewrite_describe_cluster_response C 0 raw (rewrite_map_new []) = None"
proof -
  obtain raw out where "flexible_frame C 0 cid (dc_message (h1, p1) (h2, p2) rest) = Some raw"
    "decode_frame C raw 0 = Some (cid, dc_message (h1, p1) (h2, p2) rest)"
    "flexible_frame C 0 cid (dc_message (''127.0.0.1'', 19092) (''127.0.0.1'', 19093) rest) = Some out"
    "decode_frame C out 0 = Some (cid, dc_message (''127.0.0.1'', 19092) (''127.0.0.1'', 19093) rest)"
    using reads_back_frame[OF assms(1)] reads_back_frame[OF assms(2)] by metis
  then show ?thesis using assms
    by (simp add: rewrite_describe_cluster_response_def reads_back_def flexible_frame_encode test_map_def
        rewrite_map_new_def dc_message_def)
qed

lemma fc_rewritten_v3:
  assumes "reads_back C 3 (fc_message_v3 (h, p) rest)" and "reads_back C 3 (fc_message_v3 (''127.0.0.1'', 19094) rest)"
  shows "\<exists>raw out. flexible_frame C 3 cid (fc_message_v3 (h, p) rest) = Some raw
    \<and> rewrite_find_coordinator_response C 3 raw test_map = Some out
    \<and> decode_frame C out 3 = Some (cid, fc_message_v3 (''127.0.0.1'', 19094) rest)
    \<and> rewrite_find_coordinator_response C 3 raw (rewrite_map_new []) = None"
proof -
  obtain raw out where "flexible_frame C 3 cid (fc_message_v3 (h, p) rest) = Some raw"
    "decode_frame C raw 3 = Some (cid, fc_message_v3 (h, p) rest)"
    "flexible_frame C 3 cid (fc_message_v3 (''127.0.0.1'', 19094) rest) = Some out"
    "decode_frame C out 3 = Some (cid, fc_message_v3 (''127.0.0.1'', 19094) rest)"
    using reads_back_frame[OF assms(1)] reads_back_frame[OF assms(2)] by metis
  then show ?thesis using assms
    by (simp add: rewrite_find_coordinator_response_def reads_back_def flexible_frame_encode test_map_def
        rewrite_map_new_def fc_message_v3_def)
qed

lemma fc_rewritten_v4:
  assumes "reads_back C 4 (fc_message_v4 (h1, p1) (h2, p2) rest)"
    and "reads_back C 4 (fc_message_v4 (''127.0.0.1'', 19093) (''127.0.0.1'', 19094) rest)"
  shows "\<exists>raw out. flexible_frame C 4 cid (fc_message_v4 (h1, p1) (h2, p2) rest) = Some raw
    \<and> rewrite_find_coordinator_response C 4 raw test_map = Some out
    \<and> decode_frame C out 4 = Some (cid, fc_message_v4 (''127.0.0.1'', 19093) (''127.0.0.1'', 19094) rest)"
proof -
  obtain raw out where "flexible_frame C 4 cid (fc_message_v4 (h1, p1) (h2, p2) rest) = Some raw"
    "decode_frame C raw 4 = Some (cid, fc_message_v4 (h1, p1) (h2, p2) rest)"
    "flexible_frame C 4 cid (fc_message_v4 (''127.0.0.1'', 19093) (''127.0.0.1'', 19094) rest) = Some out"
    "decode_frame C out 4 = Some (cid, fc_message_v4 (''127.0.0.1'', 19093) (''127.0.0.1'', 19094) rest)"
    using reads_back_frame[OF assms(1)] reads_back_frame[OF assms(2)] by metis
  then show ?thesis using assms
    by (simp add: rewrite_find_coordinator_response_def reads_back_def flexible_frame_encode test_map_def
        rewrite_map_new_def fc_message_v4_def)
qed

text \<open>The tests pass for every codec that reads back the two messages concerned.\<close>

lemma metadata_tests_pass:
  assumes "reads_back C 9 (md_message (''real-broker-1'', 9092) (''real-broker-2'', 9092) rest)"
    and "reads_back C 9 (md_message (''127.0.0.1'', 19092) (''127.0.0.1'', 19093) rest)"
  shows "rewrite_metadata_roundtrip C rest" and "rewrite_metadata_no_change_returns_none C rest"
  using md_rewritten[OF assms, where cid = "0x1234"] md_rewritten[OF assms, where cid = "1"]
  by (auto simp: rewrite_metadata_roundtrip_def rewrite_metadata_no_change_returns_none_def expect_and_def
      encode_metadata_response_v9_def md_message_def)

lemma describe_cluster_tests_pass:
  assumes "reads_back C 0 (dc_message (''real-broker-1'', 9092) (''real-broker-2'', 9092) rest)"
    and "reads_back C 0 (dc_message (''127.0.0.1'', 19092) (''127.0.0.1'', 19093) rest)"
  shows "rewrite_describe_cluster_roundtrip C rest" and "rewrite_describe_cluster_no_change_returns_none C rest"
    and "describe_cluster_codec P = C \<Longrightarrow> rewrite_describe_cluster_via_dispatch P rest"
  using dc_rewritten[OF assms, where cid = "0x5678"] dc_rewritten[OF assms, where cid = "1"] dc_rewritten[OF assms, where cid = "42"]
  by (auto simp: rewrite_describe_cluster_roundtrip_def rewrite_describe_cluster_no_change_returns_none_def
      rewrite_describe_cluster_via_dispatch_def expect_and_def encode_describe_cluster_response_v0_def dc_message_def
      rewrite_response_def api_keys)

lemma find_coordinator_v3_tests_pass:
  assumes "reads_back C 3 (fc_message_v3 (''real-coordinator-3'', 9092) rest)"
    and "reads_back C 3 (fc_message_v3 (''127.0.0.1'', 19094) rest)"
  shows "rewrite_find_coordinator_v3_roundtrip C rest" and "rewrite_find_coordinator_v3_no_change_returns_none C rest"
    and "find_coordinator_codec P = C \<Longrightarrow> rewrite_find_coordinator_via_dispatch P rest"
  using fc_rewritten_v3[OF assms, where cid = "0xABCD"] fc_rewritten_v3[OF assms, where cid = "1"] fc_rewritten_v3[OF assms, where cid = "99"]
  by (auto simp: rewrite_find_coordinator_v3_roundtrip_def rewrite_find_coordinator_v3_no_change_returns_none_def
      rewrite_find_coordinator_via_dispatch_def expect_and_def encode_find_coordinator_response_v3_def
      fc_message_v3_def rewrite_response_def api_keys)

lemma find_coordinator_v4_test_passes:
  assumes "reads_back C 4 (fc_message_v4 (''real-coordinator-2'', 9092) (''real-coordinator-3'', 9092) rest)"
    and "reads_back C 4 (fc_message_v4 (''127.0.0.1'', 19093) (''127.0.0.1'', 19094) rest)"
  shows "rewrite_find_coordinator_v4_roundtrip C rest"
  using fc_rewritten_v4[OF assms, where cid = "0xBEEF"]
  by (auto simp: rewrite_find_coordinator_v4_roundtrip_def expect_and_def encode_find_coordinator_response_v4_def
      fc_message_v4_def)

text \<open>Such codecs exist: one byte for the first of two messages, another for the second.\<close>

definition two_message_codec :: "'m \<Rightarrow> 'm \<Rightarrow> 'm codec" where
  "two_message_codec a b =
     (let enc = (\<lambda>r (v :: i16). if r = a then Some [1] else if r = b then Some [2 :: u8] else None)
      in \<lparr>decode_frame = (\<lambda>raw v. Option.bind (get_i32 raw) (\<lambda>(cid, body).
              if body = [0, 1] then Some (cid, a) else if body = [0, 2] then Some (cid, b) else None)),
          is_flexible_version = (\<lambda>_. True), encode = enc, flexible_encode = enc\<rparr>)"

lemma two_message_codec_reads_back: "reads_back (two_message_codec a b) v a" "reads_back (two_message_codec a b) v b"
  by (auto simp: reads_back_def encodable_def codec_roundtrip_def two_message_codec_def Let_def)

lemma rewrite_tests_pass:
  "rewrite_metadata_roundtrip (two_message_codec
     (md_message (''real-broker-1'', 9092) (''real-broker-2'', 9092) ())
     (md_message (''127.0.0.1'', 19092) (''127.0.0.1'', 19093) ())) ()"
  "rewrite_describe_cluster_roundtrip (two_message_codec
     (dc_message (''real-broker-1'', 9092) (''real-broker-2'', 9092) ())
     (dc_message (''127.0.0.1'', 19092) (''127.0.0.1'', 19093) ())) ()"
  "rewrite_find_coordinator_v3_roundtrip (two_message_codec
     (fc_message_v3 (''real-coordinator-3'', 9092) ()) (fc_message_v3 (''127.0.0.1'', 19094) ())) ()"
  "rewrite_find_coordinator_v4_roundtrip (two_message_codec
     (fc_message_v4 (''real-coordinator-2'', 9092) (''real-coordinator-3'', 9092) ())
     (fc_message_v4 (''127.0.0.1'', 19093) (''127.0.0.1'', 19094) ())) ()"
  by (intro metadata_tests_pass describe_cluster_tests_pass find_coordinator_v3_tests_pass
      find_coordinator_v4_test_passes two_message_codec_reads_back)+

section \<open>\<open>pool.rs\<close>\<close>

text \<open>The channels have a receiver that nothing reads: their number is all the table uses. \<open>now\<close> is
  the instant of the insertions.\<close>

definition cid_remap_insert_take :: "channel \<Rightarrow> instant \<Rightarrow> bool" where
  "cid_remap_insert_take tx now \<longleftrightarrow>
     (let (conn_id, remap) = alloc_conn_id cid_remap_new;
          (cid_u, remap, metrics) = remap_insert tx 100 3 9 conn_id now remap (metrics_new True)
      in expect_and cid_u (\<lambda>cid_u. cid_u = 2 \<and> in_flight remap = 1 \<and>
          (let (entry, remap, metrics) = remap_take cid_u remap metrics
           in expect_and entry (\<lambda>entry. re_cid_d entry = 100 \<and> re_api_key entry = 3 \<and> re_conn_id entry = conn_id)
            \<and> in_flight remap = 0)))"

definition cid_remap_backpressure :: "channel \<Rightarrow> instant \<Rightarrow> bool" where
  "cid_remap_backpressure tx now \<longleftrightarrow>
     (let (conn_id, remap) = alloc_conn_id (with_max_in_flight 2);
          (first, remap, metrics) = remap_insert tx 1 3 9 conn_id now remap (metrics_new True);
          (second, remap, metrics) = remap_insert tx 2 3 9 conn_id now remap metrics;
          (third, remap, metrics) = remap_insert tx 3 3 9 conn_id now remap metrics
      in first \<noteq> None \<and> second \<noteq> None \<and> third = None \<and> in_flight remap = 2)"

definition cid_remap_fail_conn_isolates :: "channel \<Rightarrow> instant \<Rightarrow> bool" where
  "cid_remap_fail_conn_isolates tx now \<longleftrightarrow>
     (let (c1, remap, metrics) = remap_insert tx 100 3 9 1 now cid_remap_new (metrics_new True);
          (c2, remap, metrics) = remap_insert tx 200 3 9 2 now remap metrics
      in in_flight remap = 2 \<and>
         expect_and (fail_conn True id id 1 remap metrics) (\<lambda>(removed, remap, metrics).
           removed = 1 \<and> in_flight remap = 1))"

definition pool_md_message :: "string \<Rightarrow> i32 \<Rightarrow> 'r \<Rightarrow> 'r metadata_response" where
  "pool_md_message host port rest =
     \<lparr>md_brokers = [\<lparr>md_node_id = 1, md_host = host, md_port = port, md_rack = None\<rparr>], md_rest = rest\<rparr>"

definition route_response_rewrites_cid_and_metadata ::
  "('r1, 'r2, 'r3) kafka_protocol \<Rightarrow> 'r1 \<Rightarrow> channel \<Rightarrow> instant \<Rightarrow> bool" where
  "route_response_rewrites_cid_and_metadata P rest tx now \<longleftrightarrow>
     expect_and (flexible_frame (metadata_codec P) 9 555 (pool_md_message ''real'' 9092 rest)) (\<lambda>data.
       (let rewrite_map = rewrite_map_new [(1, (''127.0.0.1'', 19092))];
            entry = \<lparr>re_downstream_tx = tx, re_cid_d = 42, re_api_key = 3, re_api_version = 9,
                     re_started = now, re_conn_id = 1\<rparr>;
            out = route_response P data entry rewrite_map
        in map_option fst (get_i32 (take 4 out)) = Some 42 \<and>
           expect_and (decode_frame (metadata_codec P) out 9) (\<lambda>(h, resp2).
             md_host (md_brokers resp2 ! 0) = ''127.0.0.1'' \<and> md_port (md_brokers resp2 ! 0) = 19092)))"

lemmas table_eval =
  remap_ops with_max_in_flight_def cid_remap_new_def alloc_conn_id_def next_cid_u_def i32_max_def
  dm_len_def dm_new_def dm_insert_def dm_remove_def dm_get_def expect_and_def Let_def word_sle_eq

lemma cid_remap_insert_take_passes: "cid_remap_insert_take tx now"
  by (simp add: cid_remap_insert_take_def table_eval)
lemma cid_remap_backpressure_passes: "cid_remap_backpressure tx now"
  by (simp add: cid_remap_backpressure_def table_eval)
lemma cid_remap_fail_conn_isolates_passes: "cid_remap_fail_conn_isolates tx now"
  by (simp add: cid_remap_fail_conn_isolates_def table_eval fail_conn_def dm_retain_def)

lemma route_response_rewrites_cid_and_metadata_passes:
  assumes "codec_header (metadata_codec P)"
    and "reads_back (metadata_codec P) 9 (pool_md_message ''real'' 9092 rest)"
    and "reads_back (metadata_codec P) 9 (pool_md_message ''127.0.0.1'' 19092 rest)"
  shows "route_response_rewrites_cid_and_metadata P rest tx now"
proof -
  let ?e = "\<lparr>re_downstream_tx = tx, re_cid_d = 42, re_api_key = 3, re_api_version = 9, re_started = now, re_conn_id = 1\<rparr>"
  let ?m = "rewrite_map_new [(1, (''127.0.0.1'', 19092))]"
  let ?r = "pool_md_message ''127.0.0.1'' 19092 rest"
  obtain data where data: "flexible_frame (metadata_codec P) 9 555 (pool_md_message ''real'' 9092 rest) = Some data"
    "decode_frame (metadata_codec P) data 9 = Some (555, pool_md_message ''real'' 9092 rest)"
    using reads_back_frame[OF assms(2), of 555] by blast
  have len: "4 \<le> length data"
    using data(1) by (auto simp: flexible_frame_def encode_unsigned_varint_zero)
  have "rewrite_response P (re_api_key ?e) (re_api_version ?e) data ?m = encode_response (metadata_codec P) 9 555 ?r"
    using data(2) by (simp add: rewrite_response_def api_keys rewrite_metadata_response_def rewrite_map_new_def
        pool_md_message_def)
  then have "decode_frame (metadata_codec P) (route_response P data ?e ?m) 9 = Some (re_cid_d ?e, ?r)"
    using assms(3) by (intro route_response_decodes[OF assms(1) _ _ len data(2), where changed = True])
      (simp_all add: reads_back_def)
  moreover have "map_option fst (get_i32 (take 4 (route_response P data ?e ?m))) = Some 42"
    using route_response_cid[of P data ?e ?m] by (simp add: parse_response_cid_def split: if_splits)
  ultimately show ?thesis
    unfolding route_response_rewrites_cid_and_metadata_def data(1) expect_and_def Let_def option.case
    by (simp add: pool_md_message_def)
qed

end
