(* ===== verification/ApiTests.thy ===== *)
theory ApiTests
  imports Requests
begin

text \<open>
  The unit tests of \<open>src/src/api.rs\<close> on the model: one boolean per test function, the conjunction
  of its assertions, and a lemma that the model passes it. A JSON text is the value it parses to.
\<close>

definition bytes_to_text_utf8_and_binary :: bool where
  "bytes_to_text_utf8_and_binary \<longleftrightarrow>
     bytes_to_text [0x68, 0x65, 0x6C, 0x6C, 0x6F] = JStr ''hello''
   \<and> (case bytes_to_text [0xFF, 0xFE] of JStr s \<Rightarrow> starts_with ''0x'' s | _ \<Rightarrow> False)"

definition produce_request_parse :: bool where
  "produce_request_parse \<longleftrightarrow>
     (case de_produce_request (JObj [(''value'', JStr ''hi''), (''key'', JStr ''k''), (''partition'', JInt 2)]) of
        Some r \<Rightarrow> pq_value r = ''hi'' \<and> pq_key r = Some ''k'' \<and> pq_partition r = Some 2
      | None \<Rightarrow> False)"

definition produce_request_minimal :: bool where
  "produce_request_minimal \<longleftrightarrow>
     (case de_produce_request (JObj [(''value'', JStr ''hi'')]) of
        Some r \<Rightarrow> pq_value r = ''hi'' \<and> pq_key r = None \<and> pq_partition r = None
      | None \<Rightarrow> False)"

definition create_topic_request_parse_full :: bool where
  "create_topic_request_parse_full \<longleftrightarrow>
     (case de_create_request (JObj [(''name'', JStr ''orders''), (''num_partitions'', JInt 6),
         (''replication_factor'', JInt 3), (''configs'', JArr [JArr [JStr ''retention.ms'', JStr ''86400000'']])]) of
        Some r \<Rightarrow> cq_name r = ''orders'' \<and> cq_num_partitions r = Some 6 \<and> cq_replication_factor r = Some 3
          \<and> cq_configs r = [(''retention.ms'', ''86400000'')]
      | None \<Rightarrow> False)"

definition create_topic_request_minimal :: bool where
  "create_topic_request_minimal \<longleftrightarrow>
     (case de_create_request (JObj [(''name'', JStr ''test'')]) of
        Some r \<Rightarrow> cq_name r = ''test'' \<and> cq_num_partitions r = None \<and> cq_replication_factor r = None
          \<and> cq_configs r = []
      | None \<Rightarrow> False)"

definition json_error_shape :: bool where
  "json_error_shape \<longleftrightarrow>
     (case json_error ''boom'' of JObj kvs \<Rightarrow> map_of kvs ''error'' = Some (JStr ''boom'') | _ \<Rightarrow> False)"

definition api_config_defaults :: bool where
  "api_config_defaults \<longleftrightarrow>
     api_listen api_config_default = ''127.0.0.1:9100'' \<and> default_count api_config_default = 5"

lemmas request_eval = de_produce_request_def de_create_request_def de_field_def

lemma bytes_to_text_utf8_and_binary_passes: bytes_to_text_utf8_and_binary
  by (simp add: bytes_to_text_utf8_and_binary_def bytes_to_text_def text_of_def starts_with_def char_of_def bit_Suc_0_iff)
lemma produce_request_parse_passes: produce_request_parse
  by (simp add: produce_request_parse_def request_eval)
lemma produce_request_minimal_passes: produce_request_minimal
  by (simp add: produce_request_minimal_def request_eval)
lemma create_topic_request_parse_full_passes: create_topic_request_parse_full
  by (simp add: create_topic_request_parse_full_def request_eval)
lemma create_topic_request_minimal_passes: create_topic_request_minimal
  by (simp add: create_topic_request_minimal_def request_eval)
lemma json_error_shape_passes: json_error_shape
  by (simp add: json_error_shape_def json_error_def)
lemma api_config_defaults_passes: api_config_defaults
  by (simp add: api_config_defaults_def api_config_default_def default_api_listen_def default_debug_count_def)

end
