(* ===== verification/Spec2Isabelle.thy ===== *)
theory Spec2Isabelle
  imports Lifecycle MuxSilent CidSpec ConfigTests PoolTests ApiTests
begin

text \<open>
  kafka-proxy is a transparent proxy in front of a Kafka cluster: clients connect without
  credentials, the proxy authenticates to the brokers, forwards the frames of the Kafka protocol
  both ways, and rewrites the broker addresses in Metadata, DescribeCluster and FindCoordinator
  responses so that clients come back to the proxy. This development models the Rust sources
  under \<open>src/src/\<close>, all nine files.

  \<^bold>\<open>The program.\<close> \<open>main\<close> loads the configuration and calls \<open>run\<close>, which fetches the cluster's
  brokers, computes for every bootstrap server a listener and an entry of the rewrite map, and
  spawns one accept loop per listener. In per-connection mode an accepted client gets a \<open>Relay\<close>
  with an upstream connection of its own: two tasks copy frames, and a table of pending
  correlation ids says which responses to rewrite. In pooled mode it gets a \<open>PooledRelay\<close>, which
  leases connections from the broker's \<open>BrokerPool\<close>. Clients then share connections, so the
  relay replaces the correlation id of every request by one from the global table \<open>CidRemap\<close>; a
  write loop and a read loop per upstream connection send the requests and route each response
  through the table back to the channel of its client. A web server shows metrics and diagnostics.

  \<^bold>\<open>Theories and sources.\<close> The dependencies run from top to bottom.
  \<^item> \<open>Prelude\<close>: fixed-width fields of frames (\<open>wire_field\<close>), reachable states and invariants
    (\<open>reach\<close>, \<open>invariant_system\<close>), check-then-act admission (\<open>admission\<close>), order-preserving tasks
    (\<open>fifo_task\<close>), errors as values (\<open>bindE\<close> is Rust's question mark).
  \<^item> \<open>RustStr\<close>: the string functions of Rust the sources use, on lists of characters; decimal
    numbers with a bound (\<open>decimal_text\<close>).
  \<^item> \<open>DashMap\<close>: the concurrent map as a duplicate-free association list, behind the laws of
    \<open>dictionary\<close>. An operation on one key is one step.
  \<^item> \<open>Metrics\<close> (\<open>metrics.rs\<close>): counters and gauges as 64-bit words, the histogram with its binary
    search, the Prometheus text, the resident-memory reader. \<open>f64\<close> is a rational number.
  \<^item> \<open>Config\<close> (\<open>config.rs\<close>): sections, serde defaults (\<open>fill_*\<close>), durations in nanoseconds, \<open>validate\<close>.
  \<^item> \<open>Upstream\<close> (\<open>upstream.rs\<close>): \<open>UpstreamAuth\<close> and how it configures the client library's builders.
  \<^item> \<open>Rewrite\<close> (\<open>rewrite.rs\<close>): the rewriters over abstract codecs, varints, the frame parsers.
  \<^item> \<open>CidRemap\<close> (\<open>pool.rs\<close>): the table of requests in flight. \<open>run_remap\<close> runs whole operations,
    \<open>cas_step\<close> interleaves the allocation loops, \<open>race_step\<close> splits an insertion into check and act.
    \<open>CidSpec\<close>: its specification without ids, and the simulation.
  \<^item> \<open>Pool\<close> (\<open>pool.rs\<close>): \<open>BrokerPool\<close>, one function per section between two awaits, and the write
    and read loops, one step per \<open>select!\<close> outcome.
  \<^item> \<open>PoolSystem\<close> (\<open>pool.rs\<close>, \<open>relay.rs\<close>): any number of tasks running those sections against
    connection deaths and the reaper.
  \<^item> \<open>Relay\<close>, \<open>PooledOrder\<close> (\<open>relay.rs\<close>): the per-connection relay; the request and the response task
    of the pooled relay.
  \<^item> \<open>Mux\<close>, \<open>MuxCore\<close>, \<open>MuxSafety\<close>, \<open>MuxLeak\<close>, \<open>MuxSilent\<close> (\<open>relay.rs\<close>, \<open>pool.rs\<close>): pooled mode as one system:
    any number of clients, brokers and connections, every task a program counter or a queue, one
    action per operation on the shared table and per section between two awaits, built from the
    functions of the theories above; the invariant that holds whatever the brokers send
    (\<open>core_inv\<close>), what clients get, and which requests keep their slots.
  \<^item> \<open>Proxy\<close>, \<open>Server\<close> (\<open>lib.rs\<close>, \<open>main.rs\<close>): bootstrap, mapping entries, rewrite map, admission;
    the start-up sequence and the life of the accept loops until shutdown.
  \<^item> \<open>Api\<close>, \<open>Requests\<close>, \<open>Router\<close> (\<open>api.rs\<close>): the handlers, the deserializers of the JSON bodies, and
    the way of a request through routes and extractors to its handler.
  \<^item> \<open>Entry\<close>, \<open>Service\<close> (\<open>main.rs\<close>, \<open>api.rs\<close>): logging; the web server with its body limit, the
    semaphore of \<open>latest_messages\<close>, the command line, the signal task and \<open>main\<close> as a whole.
  \<^item> \<open>Lifecycle\<close> (\<open>lib.rs\<close>, \<open>relay.rs\<close>): a downstream connection from its admission to its end.
  \<^item> \<open>ConfigTests\<close>, \<open>PoolTests\<close>, \<open>ApiTests\<close>: the unit tests of the sources, each a boolean of the model
    with a lemma that it holds; a check of the definitions against what the authors expect of the
    code, not a property of it.
  Records and datatypes have the fields and variants of the Rust types, with a prefix where a name
  would clash; functions have the names of the source. Times are instants and durations in
  nanoseconds, channels are numbers, \<open>usize\<close> is a natural number where no arithmetic on it can
  wrap and written out where it can (\<open>dec_usize\<close>, \<open>fail_conn\<close>).

  \<^bold>\<open>Results.\<close>
  \<^item> Pooled mode end to end: \<open>clients_get_own_replies\<close> for every interleaving,
    \<open>pooled_state_well_formed\<close> for the shape of the state; \<open>request_sections\<close>, \<open>response_sections\<close>,
    \<open>cancel_sections\<close> and \<open>cleanup_sections\<close> tie the actions to the handlers.
  \<^item> Routing: the theorem of this theory, \<open>read_loop_delivers\<close>, \<open>pooled_end_to_end\<close> and
    \<open>routed_metadata_advertised\<close> say that a pooled response finds its client under the client's
    id and with rewritten addresses; \<open>cid_ids_unique\<close>, \<open>insert_take_roundtrip\<close>,
    \<open>table_refines_spec\<close>, \<open>cid_gauge_is_size\<close> and \<open>fail_conn_exact\<close> say why. \<open>requests_verbatim\<close>, \<open>responses_in_order\<close>
    and \<open>relay_rewrites_response\<close> are the per-connection counterparts.
  \<^item> Order: \<open>write_loop_fifo\<close>, \<open>responses_in_arrival_order\<close>; and \<open>lease_switch_reorders\<close>, a run where it is lost.
  \<^item> Resources: \<open>pool_connections_bounded\<close>, \<open>pending_bounded\<close>, \<open>concurrent_insert_bound\<close>,
    \<open>server_refines_accept_loops\<close> bound connections and tables under every interleaving;
    \<open>reaper_exact\<close> and \<open>write_loop_exit_exact\<close> say what the clean-ups do, \<open>acquire_returns\<close> that a
    quiet \<open>acquire\<close> ends; \<open>failed_send_undone\<close> and \<open>backpressure_closes\<close> the relay's error paths.
  \<^item> Start-up and shutdown: \<open>validate_exact\<close>, \<open>mapping_forms\<close>, \<open>rewrite_map_matches_listeners\<close>,
    \<open>started_listeners\<close>, \<open>shutdown_does_not_drain\<close>, \<open>program_ends_on_signal\<close>.
  \<^item> Defects, each with a run or an exact condition: \<open>fail_conn_underflow\<close>,
    \<open>late_request_leaks\<close>, \<open>unanswered_requests_block\<close>, \<open>counted_out_while_served\<close>, \<open>rollback_underflow_reachable\<close>, \<open>stuck_pool_forever\<close>, \<open>reaped_twice\<close>,
    \<open>overflow_leaks_addresses\<close>, \<open>idle_timeout_never_fires\<close>, \<open>first_broker_of_host_wins\<close>,
    \<open>fallback_never_rewrites\<close>, \<open>log_dir_ignored\<close>, \<open>topic_endpoints_unreachable\<close>.

  \<^bold>\<open>Bounds and fuel.\<close> The ids of \<open>CidRemap\<close> repeat after \<open>2^31 - 1\<close> allocations, so the theorems on
  a run of the table, or of pooled mode, count its registrations up to that. The pending table is bounded by the source's
  1024. \<open>acquire\<close>, the write loop, the relays and the response task run over finite lists of what
  happens to them; the theorems hold for every list. \<open>idle_fires\<close> has fuel for the rounds of one
  wait, and its theorem says that no fuel is enough. \<open>poll_loop\<close> runs over the list of polls.

  \<^bold>\<open>Parameters.\<close> The TOML parser, the command line parser, the TCP sockets, name resolution, the clock, the Kafka client library
  (authentication, metadata, admin client, consumer, producer), the codecs of the protocol crate,
  the path matcher of the router and the formatter of floating-point numbers are arguments of the
  definitions. What a theorem needs of them is a named hypothesis (\<open>codec_roundtrip\<close>,
  \<open>codec_header\<close>, \<open>codec_cid\<close>, \<open>matchit_braces\<close>), and its witness instantiates them. What a broker
  may send in \<open>Mux\<close> is a parameter too; \<open>kafka_broker\<close> is the hypothesis that it answers only requests
  it has received, \<open>silent_broker\<close> that it answers only those that call for a response.

  \<^bold>\<open>Not modelled.\<close> The text of log messages, HTTP itself, the one-second pause after a failed
  \<open>accept\<close>, the poll timeout of the consumer, and the rounding of \<open>f64\<close>. In \<open>Mux\<close> the
  length of the shared table and the removal of a connection's entries are one step each, although
  the map does them shard by shard.
\<close>

section \<open>A response finds the client that sent the request\<close>

text \<open>C2: In pooled mode, where many clients share a connection and their correlation ids collide, the
  response to a registered request carries the correlation id of the client that sent it and
  reaches that client's reply channel, if the channel is open and has room when the response is
  routed (otherwise the code drops it), whatever other requests, responses and failures of other
  connections come in between (the first \<open>2^31 - 1\<close> registrations). No other client's channel
  changes.\<close>

theorem response_finds_its_client:
  assumes "fold run_remap before (with_max_in_flight limit, metrics_new True) = (r, m)"
    and "remap_insert tx d k v conn now r m = (Some c, r1, m1)"
    and "fold run_remap after (r1, m1) = (r2, m2)"
    and "\<forall>op \<in> set after. op \<noteq> RTake c \<and> op \<noteq> RFail conn"
    and "length (filter is_insert before) + length (filter is_insert after) < 2 ^ 31 - 1"
    and "rd_remap s = r2"
    and "ch_open (rd_chans s tx)" and "length (ch_queue (rd_chans s tx)) < ch_capacity (rd_chans s tx)"
    and "resp = put_i32 c @ body"
  shows "ch_queue (rd_chans (read_loop_step P rw t resp s) tx) = ch_queue (rd_chans s tx) @
      [put_i32 d @ drop 4 (case rewrite_response P k v resp rw of Some out \<Rightarrow> out | None \<Rightarrow> resp)]
    \<and> (\<forall>other. other \<noteq> tx \<longrightarrow> rd_chans (read_loop_step P rw t resp s) other = rd_chans s other)"
proof -
  let ?n = "length (filter is_insert before)"
  let ?e = "\<lparr>re_downstream_tx = tx, re_cid_d = d, re_api_key = k, re_api_version = v,
    re_started = now, re_conn_id = conn\<rparr>"
  have ok: "table_ok limit ?n (r, m)" using table_ok_run[OF table_ok_start, of before limit] assms(1,5) by simp
  have ok1: "table_ok limit (Suc ?n) (r1, m1)"
    using table_ok_insert[OF ok, of tx d k v conn now] assms(2,5) by simp
  have "dm_inv (remap_map r)" using ok by (simp add: table_ok_def remap_inv_def)
  then have "dm_get (remap_map r1) c = Some ?e" using assms(2) by (auto simp: remap_insert_Some dm.get_ins)
  then have e: "dm_get (remap_map r2) c = Some ?e"
    using entry_stable_run[OF ok1, of c ?e after] assms(3-5) by simp
  have "table_ok limit (Suc ?n + length (filter is_insert after)) (r2, m2)"
    using table_ok_run[OF ok1, of after] assms(3,5) by simp
  then have "remap_inv r2" by (simp add: table_ok_def)
  then show ?thesis
    using read_loop_step_delivers[of s "put_i32 c @ body" c ?e P rw t] e assms(6-8) unfolding assms(9)
    by (simp add: Let_def route_response_def)
qed

theorem response_finds_its_client_witness:
  "\<exists>r m c r1 m1 r2 m2.
     fold run_remap [] (with_max_in_flight 3, metrics_new True) = (r, m)
     \<and> remap_insert 0 42 18 3 1 0 r m = (Some c, r1, m1)
     \<and> fold run_remap [RInsert 1 42 18 3 1 0, RFail 2] (r1, m1) = (r2, m2)
     \<and> ch_queue (rd_chans (read_loop_step demo_protocol demo_rewrite 5 (put_i32 c @ [7])
          \<lparr>rd_remap = r2, rd_metrics = m2, rd_chans = \<lambda>_. \<lparr>ch_queue = [], ch_capacity = 256, ch_open = True\<rparr>\<rparr>) 0) =
         [put_i32 42 @ [7]]"
proof -
  obtain c r1 m1 where i: "remap_insert 0 42 18 3 1 0 (with_max_in_flight 3) (metrics_new True) = (Some c, r1, m1)"
    by (simp add: remap_ops Let_def with_max_in_flight_def dm.len_new)
  obtain r2 m2 where f: "fold run_remap [RInsert 1 42 18 3 1 0, RFail 2] (r1, m1) = (r2, m2)"
    by (cases "fold run_remap [RInsert 1 42 18 3 1 0, RFail 2] (r1, m1)")
  let ?s = "\<lparr>rd_remap = r2, rd_metrics = m2, rd_chans = \<lambda>_. \<lparr>ch_queue = [], ch_capacity = 256, ch_open = True\<rparr>\<rparr>"
  have "rewrite_response demo_protocol 18 3 (put_i32 c @ [7]) demo_rewrite = None"
    by (rule rewrite_response_needs) (simp add: needs_rewrite_def api_keys)
  then have "ch_queue (rd_chans (read_loop_step demo_protocol demo_rewrite 5 (put_i32 c @ [7]) ?s) 0) = [put_i32 42 @ [7]]"
    using response_finds_its_client[OF _ i f, of "[]" 3 ?s "put_i32 c @ [7]" "[7]" demo_protocol demo_rewrite 5]
    by (simp add: is_insert_def)
  then show ?thesis using i f by auto
qed

end
